(* ===== verification/Go_Base.thy ===== *)
theory Go_Base
  imports Main "HOL-Library.Word" "HOL-Library.Sublist"
begin

text \<open>
  The prelude: Go values and the parts of Go's standard library that the program calls on them.

  A Go \<open>string\<close> is a sequence of bytes, which is what HOL's \<open>string\<close> (a list of 8-bit
  characters) is; a \<open>[]byte\<close> is a list of 8-bit words. An operation that can fail returns an
  \<open>outcome\<close>: \<open>Ok\<close> of a value, \<open>Err\<close> of an error value, or \<open>Panic\<close> for the run-time
  panic of an index or slice expression that is out of range.

  The theory holds: indexing and slicing; the functions of package \<open>strings\<close> (HasPrefix,
  TrimPrefix, Split, TrimSpace, EqualFold, ToLower); decimal printing and scanning (the
  \<open>%d\<close> verb of \<open>fmt\<close>, \<open>strconv.Atoi\<close>); and the lemma collections the components share.
\<close>

named_theorems outcome_simps \<open>unfolding of the sequencing operators on outcomes\<close>
named_theorems str_simps \<open>evaluation of the string functions\<close>

type_synonym byte = "8 word"
type_synonym bytes = "byte list"

section \<open>Outcomes: values, errors and panics\<close>

datatype ('e, 'a) outcome = Ok 'a | Err 'e | Panic

definition obind :: "('e, 'a) outcome \<Rightarrow> ('a \<Rightarrow> ('e, 'b) outcome) \<Rightarrow> ('e, 'b) outcome" where
  "obind m f = (case m of Ok x \<Rightarrow> f x | Err e \<Rightarrow> Err e | Panic \<Rightarrow> Panic)"

lemma obind_simps [simp, outcome_simps]:
  "obind (Ok x) f = f x"
  "obind (Err e) f = Err e"
  "obind Panic f = Panic"
  by (simp_all add: obind_def)

lemma obind_eq_Ok [outcome_simps]: "obind m f = Ok y \<longleftrightarrow> (\<exists>x. m = Ok x \<and> f x = Ok y)"
  by (cases m) simp_all

lemma obind_eq_Panic [outcome_simps]:
  "obind m f = Panic \<longleftrightarrow> m = Panic \<or> (\<exists>x. m = Ok x \<and> f x = Panic)"
  by (cases m) simp_all

text \<open>Indexing \<open>xs[i]\<close> and slicing \<open>xs[lo:hi]\<close> with Go's run-time bounds check.\<close>

definition go_index :: "'a list \<Rightarrow> nat \<Rightarrow> ('e, 'a) outcome" where
  "go_index xs i = (if i < length xs then Ok (xs ! i) else Panic)"

definition go_slice :: "'a list \<Rightarrow> nat \<Rightarrow> nat \<Rightarrow> ('e, 'a list) outcome" where
  "go_slice xs lo hi = (if lo \<le> hi \<and> hi \<le> length xs then Ok (take (hi - lo) (drop lo xs)) else Panic)"

lemma go_index_ok [simp]: "i < length xs \<Longrightarrow> go_index xs i = Ok (xs ! i)"
  by (simp add: go_index_def)

lemma go_slice_ok [simp]:
  "lo \<le> hi \<Longrightarrow> hi \<le> length xs \<Longrightarrow> go_slice xs lo hi = Ok (take (hi - lo) (drop lo xs))"
  by (simp add: go_slice_def)

lemma go_index_not_Err [simp]: "go_index xs i \<noteq> Err e"
  by (simp add: go_index_def)

lemma go_slice_not_Err [simp]: "go_slice xs lo hi \<noteq> Err e"
  by (simp add: go_slice_def)

section \<open>Bytes and strings\<close>

definition char_of_byte :: "byte \<Rightarrow> char" where
  "char_of_byte b = char_of (unat b)"

definition byte_of_char :: "char \<Rightarrow> byte" where
  "byte_of_char c = of_nat (of_char c)"

text \<open>The conversions \<open>string(bs)\<close> and \<open>[]byte(s)\<close>.\<close>

definition string_of_bytes :: "bytes \<Rightarrow> string" where
  "string_of_bytes = map char_of_byte"

definition bytes_of_string :: "string \<Rightarrow> bytes" where
  "bytes_of_string = map byte_of_char"

lemma byte_of_char_of_byte [simp]: "byte_of_char (char_of_byte b) = b"
proof -
  have "unat b < 256" using unsigned_less [of b] by simp
  then show ?thesis by (simp add: byte_of_char_def char_of_byte_def of_char_of take_bit_nat_eq_self)
qed

lemma char_of_byte_of_char [simp]: "char_of_byte (byte_of_char c) = c"
proof -
  have "unat (of_nat (of_char c) :: byte) = of_char c"
    using range_nat_of_char by (auto simp: unat_of_nat take_bit_nat_eq_self)
  then show ?thesis by (simp add: byte_of_char_def char_of_byte_def)
qed

lemma string_bytes_inverse [simp]:
  "bytes_of_string (string_of_bytes bs) = bs"
  "string_of_bytes (bytes_of_string s) = s"
  by (simp_all add: bytes_of_string_def string_of_bytes_def comp_def)

lemma length_string_bytes [simp]:
  "length (bytes_of_string s) = length s"
  "length (string_of_bytes bs) = length bs"
  by (simp_all add: bytes_of_string_def string_of_bytes_def)

section \<open>Package strings\<close>

definition has_prefix :: "'a list \<Rightarrow> 'a list \<Rightarrow> bool" where
  "has_prefix s p \<longleftrightarrow> take (length p) s = p"

definition trim_prefix :: "'a list \<Rightarrow> 'a list \<Rightarrow> 'a list" where
  "trim_prefix s p = (if has_prefix s p then drop (length p) s else s)"

definition has_suffix :: "'a list \<Rightarrow> 'a list \<Rightarrow> bool" where
  "has_suffix s p \<longleftrightarrow> has_prefix (rev s) (rev p)"

definition trim_suffix :: "'a list \<Rightarrow> 'a list \<Rightarrow> 'a list" where
  "trim_suffix s p = (if has_suffix s p then take (length s - length p) s else s)"

lemma has_prefix_iff: "has_prefix s p \<longleftrightarrow> (\<exists>r. s = p @ r)"
  by (metis append_eq_conv_conj append_take_drop_id has_prefix_def)

lemma has_prefix_append [simp]: "has_prefix (p @ r) p"
  by (simp add: has_prefix_def)

lemma has_prefix_Nil [simp]: "has_prefix s []"
  by (simp add: has_prefix_def)

lemma has_prefix_Cons [simp]: "has_prefix (x # s) (y # p) \<longleftrightarrow> x = y \<and> has_prefix s p"
  by (auto simp: has_prefix_def)

lemma has_prefix_Nil_Cons [simp]: "\<not> has_prefix [] (y # p)"
  by (simp add: has_prefix_def)

lemma trim_prefix_append [simp]: "trim_prefix (p @ r) p = r"
  by (simp add: trim_prefix_def)

lemma has_suffix_append [simp]: "has_suffix (s @ p) p"
  by (simp add: has_suffix_def)

lemma trim_suffix_append [simp]: "trim_suffix (s @ p) p = s"
  by (simp add: trim_suffix_def)

lemma trim_suffix_id: "\<not> has_suffix s p \<Longrightarrow> trim_suffix s p = s"
  by (simp add: trim_suffix_def)

text \<open>\<open>strings.Split(s, sep)\<close> for a separator of one byte: always at least one part.\<close>

fun split_on :: "char \<Rightarrow> string \<Rightarrow> string list" where
  "split_on c [] = [[]]"
| "split_on c (x # xs) =
     (if x = c then [] # split_on c xs
      else (case split_on c xs of [] \<Rightarrow> [[x]] | y # ys \<Rightarrow> (x # y) # ys))"

lemma split_on_nonempty [simp]: "split_on c s \<noteq> []"
  by (cases s) (auto split: list.split)

lemma length_split_on: "length (split_on c s) = Suc (count_list s c)"
  by (induction s) (auto split: list.split)

lemma split_on_no_sep: "c \<notin> set s \<Longrightarrow> split_on c s = [s]"
  by (induction s) auto

lemma split_on_append: "c \<notin> set a \<Longrightarrow> split_on c (a @ c # r) = a # split_on c r"
  by (induction a) auto

lemma split_on_parts: "p \<in> set (split_on c s) \<Longrightarrow> c \<notin> set p"
  by (induction s arbitrary: p) (auto split: list.splits if_splits)

fun join_with :: "char \<Rightarrow> string list \<Rightarrow> string" where
  "join_with c [] = []"
| "join_with c [p] = p"
| "join_with c (p # q # ps) = p @ c # join_with c (q # ps)"

lemma join_split [simp]: "join_with c (split_on c s) = s"
proof (induction s)
  case (Cons x xs)
  then show ?case
    by (cases "split_on c xs"; cases "tl (split_on c xs)") (auto split: list.splits)
qed simp

lemma split_join: "ps \<noteq> [] \<Longrightarrow> \<forall>p \<in> set ps. c \<notin> set p \<Longrightarrow> split_on c (join_with c ps) = ps"
  by (induction c ps rule: join_with.induct) (auto simp: split_on_no_sep split_on_append)

text \<open>
  \<open>strings.TrimSpace\<close> removes the code points that are white space in Unicode. In UTF-8 each is
  one of the byte sequences of \<open>space_runes\<close>.
\<close>

definition space_runes :: "string list" where
  "space_runes =
     [[CHR 0x09], [CHR 0x0A], [CHR 0x0B], [CHR 0x0C], [CHR 0x0D], [CHR 0x20],
      [CHR 0xC2, CHR 0x85], [CHR 0xC2, CHR 0xA0], [CHR 0xE1, CHR 0x9A, CHR 0x80],
      [CHR 0xE2, CHR 0x80, CHR 0x80], [CHR 0xE2, CHR 0x80, CHR 0x81], [CHR 0xE2, CHR 0x80, CHR 0x82],
      [CHR 0xE2, CHR 0x80, CHR 0x83], [CHR 0xE2, CHR 0x80, CHR 0x84], [CHR 0xE2, CHR 0x80, CHR 0x85],
      [CHR 0xE2, CHR 0x80, CHR 0x86], [CHR 0xE2, CHR 0x80, CHR 0x87], [CHR 0xE2, CHR 0x80, CHR 0x88],
      [CHR 0xE2, CHR 0x80, CHR 0x89], [CHR 0xE2, CHR 0x80, CHR 0x8A], [CHR 0xE2, CHR 0x80, CHR 0xA8],
      [CHR 0xE2, CHR 0x80, CHR 0xA9], [CHR 0xE2, CHR 0x80, CHR 0xAF], [CHR 0xE2, CHR 0x81, CHR 0x9F],
      [CHR 0xE3, CHR 0x80, CHR 0x80]]"

definition lead_rune :: "string list \<Rightarrow> string \<Rightarrow> string option" where
  "lead_rune rs s = find (\<lambda>r. r \<noteq> [] \<and> has_prefix s r) rs"

lemma lead_rune_Some: "lead_rune rs s = Some r \<Longrightarrow> r \<noteq> [] \<and> has_prefix s r \<and> r \<in> set rs"
  by (auto simp: lead_rune_def find_Some_iff)

lemma lead_rune_shorter: "lead_rune rs s = Some r \<Longrightarrow> length (drop (length r) s) < length s"
  by (drule lead_rune_Some) (cases s; cases r; auto)

lemma lead_rune_head:
  assumes "\<And>r. r \<in> set rs \<Longrightarrow> hd r \<noteq> c"
  shows "lead_rune rs (c # s) = None"
proof (rule ccontr)
  assume "lead_rune rs (c # s) \<noteq> None"
  then obtain r where "lead_rune rs (c # s) = Some r" by blast
  from lead_rune_Some [OF this] assms [of r] show False by (cases r) auto
qed

function strip_runes :: "string list \<Rightarrow> string \<Rightarrow> string" where
  "strip_runes rs s = (case lead_rune rs s of None \<Rightarrow> s | Some r \<Rightarrow> strip_runes rs (drop (length r) s))"
  by pat_completeness auto
termination
  by (relation "measure (\<lambda>(rs, s). length s)") (auto dest: lead_rune_shorter)

declare strip_runes.simps [simp del]

definition trim_space :: "string \<Rightarrow> string" where
  "trim_space s = rev (strip_runes (map rev space_runes) (rev (strip_runes space_runes s)))"

lemma strip_runes_none: "lead_rune rs s = None \<Longrightarrow> strip_runes rs s = s"
  by (simp add: strip_runes.simps)

lemma strip_runes_stable: "lead_rune rs (strip_runes rs s) = None"
proof (induction rs s rule: strip_runes.induct)
  case (1 rs s)
  then show ?case by (cases "lead_rune rs s") (simp_all add: strip_runes.simps [of rs s])
qed

lemma strip_runes_suffix: "\<exists>p. s = p @ strip_runes rs s"
proof (induction rs s rule: strip_runes.induct)
  case (1 rs s)
  show ?case
  proof (cases "lead_rune rs s")
    case None
    then show ?thesis by (simp add: strip_runes_none)
  next
    case (Some r)
    then obtain p where p: "drop (length r) s = p @ strip_runes rs (drop (length r) s)"
      using "1.IH" by blast
    have "s = r @ drop (length r) s"
      using lead_rune_Some [OF Some] by (metis append_take_drop_id has_prefix_def)
    then have "s = (r @ p) @ strip_runes rs s"
      using p Some by (metis append.assoc option.simps(5) strip_runes.simps)
    then show ?thesis by blast
  qed
qed

text \<open>
  The string does not begin and does not end with white space: the strings that
  \<open>TrimSpace\<close> leaves unchanged.
\<close>

definition no_outer_space :: "string \<Rightarrow> bool" where
  "no_outer_space s \<longleftrightarrow> lead_rune space_runes s = None \<and> lead_rune (map rev space_runes) (rev s) = None"

lemma trim_space_id: "no_outer_space s \<Longrightarrow> trim_space s = s"
  by (simp add: trim_space_def no_outer_space_def strip_runes_none)

text \<open>\<open>strings.ToLower\<close>, on the ASCII letters.\<close>

definition lower_char :: "char \<Rightarrow> char" where
  "lower_char c = (let n = of_char c :: nat in if 65 \<le> n \<and> n \<le> 90 then char_of (n + 32) else c)"

definition to_lower :: "string \<Rightarrow> string" where
  "to_lower = map lower_char"

text \<open>
  \<open>strings.EqualFold(s, t)\<close> for an ASCII \<open>t\<close>. Under simple case folding two code points outside
  ASCII are equal to ASCII letters: U+017F (long s) to \<open>s\<close> and U+212A (Kelvin sign) to \<open>k\<close>.
  \<open>fold_head\<close> removes one code point that folds to the given character.
\<close>

definition fold_head :: "char \<Rightarrow> string \<Rightarrow> string option" where
  "fold_head t s =
     (if s \<noteq> [] \<and> lower_char (hd s) = lower_char t then Some (tl s)
      else if lower_char t = CHR ''s'' \<and> has_prefix s [CHR 0xC5, CHR 0xBF] then Some (drop 2 s)
      else if lower_char t = CHR ''k'' \<and> has_prefix s [CHR 0xE2, CHR 0x84, CHR 0xAA] then Some (drop 3 s)
      else None)"

fun equal_fold :: "string \<Rightarrow> string \<Rightarrow> bool" where
  "equal_fold s [] \<longleftrightarrow> s = []"
| "equal_fold s (t # ts) \<longleftrightarrow> (case fold_head t s of None \<Rightarrow> False | Some r \<Rightarrow> equal_fold r ts)"

lemma equal_fold_refl [simp]: "equal_fold s s"
  by (induction s) (simp_all add: fold_head_def)

lemma equal_fold_Nil [simp]: "equal_fold [] t \<longleftrightarrow> t = []"
  by (cases t) (simp_all add: fold_head_def has_prefix_def)

end
