(* ===== verification/Relay.thy ===== *)
theory Relay
  imports Go_Base "HOL-Library.Sublist"
begin

text \<open>
  \<open>internal/relay/relay.go\<close>: two goroutines copy between the connections \<open>a\<close> and \<open>b\<close>, each
  through a \<open>countingWriter\<close>.

  A side is named by the connection it stands for; the copier of side \<open>X\<close> reads from the other
  side and writes to \<open>X\<close>. The state holds, for each side, the bytes that its peer has sent and
  that nobody has read (\<open>pending\<close>), the bytes its connection has accepted (\<open>delivered\<close>), the
  counter of its \<open>countingWriter\<close> (an \<open>atomic.Int64\<close>, so a 64-bit word), whether it is closed,
  whether its copier has finished, and what its peer has done to the connection (\<open>peer\<close>): nothing, an
  end of file behind what it sent, or a break that loses what was not read. One step of a copier is one
  round of \<open>io.Copy\<close> (a read of at most 32 KiB and the write of what was read), in any order; a copier
  whose \<open>io.Copy\<close> returns closes its destination and is done. A read of a connection that is open on
  both ends and has nothing to read blocks: its copier has no step. The environment chooses the sizes and
  the errors; a write returns, with or without an error.
\<close>

datatype side = SideA | SideB

fun other :: "side \<Rightarrow> side" where
  "other SideA = SideB"
| "other SideB = SideA"

datatype peer_state = PeerOpen | PeerEof | PeerBroken

record relay_state =
  pending :: "side \<Rightarrow> bytes"
  delivered :: "side \<Rightarrow> bytes"
  counter :: "side \<Rightarrow> 64 word"
  closed :: "side \<Rightarrow> bool"
  finished :: "side \<Rightarrow> bool"
  peer :: "side \<Rightarrow> peer_state"

definition relay_init :: "(side \<Rightarrow> bytes) \<Rightarrow> relay_state" where
  "relay_init input =
     \<lparr>pending = input, delivered = (\<lambda>_. []), counter = (\<lambda>_. 0), closed = (\<lambda>_. False),
      finished = (\<lambda>_. False), peer = (\<lambda>_. PeerOpen)\<rparr>"

text \<open>\<open>countingWriter.Write\<close>: the connection accepts \<open>p\<close>; the counter grows by its length.\<close>

definition counting_write :: "side \<Rightarrow> bytes \<Rightarrow> relay_state \<Rightarrow> relay_state" where
  "counting_write X p s =
     s\<lparr>delivered := (delivered s)(X := delivered s X @ p),
       counter := (counter s)(X := counter s X + of_nat (length p))\<rparr>"

definition take_input :: "side \<Rightarrow> nat \<Rightarrow> relay_state \<Rightarrow> relay_state" where
  "take_input Y n s = s\<lparr>pending := (pending s)(Y := drop n (pending s Y))\<rparr>"

text \<open>The end of the copier \<open>cp\<close>: close the destination, then \<open>wg.Done\<close>.\<close>

definition close_done :: "side \<Rightarrow> relay_state \<Rightarrow> relay_state" where
  "close_done X s = s\<lparr>closed := (closed s)(X := True), finished := (finished s)(X := True)\<rparr>"

definition copy_buf :: nat where
  "copy_buf = 32 * 1024"

text \<open>The peer of \<open>Y\<close> ends its side or breaks the connection.\<close>

definition peer_ends :: "side \<Rightarrow> peer_state \<Rightarrow> relay_state \<Rightarrow> relay_state" where
  "peer_ends Y e s = s\<lparr>peer := (peer s)(Y := e)\<rparr>"

text \<open>
  A read that returns data needs the source to be open and \<open>n\<close> bytes to be there. A write accepts
  all of it (\<open>copy_chunk\<close>) or only \<open>m\<close> bytes, with an error (\<open>copy_short\<close>). A read ends without data
  (\<open>copy_end\<close>) only when its connection was closed by the other copier, when the peer broke it, or at the
  end of file, behind the last byte that the peer sent.
\<close>

inductive copier_step :: "relay_state \<Rightarrow> relay_state \<Rightarrow> bool" where
  copy_chunk:
    "\<not> finished s X \<Longrightarrow> \<not> closed s (other X) \<Longrightarrow> 0 < n \<Longrightarrow> n \<le> copy_buf \<Longrightarrow>
     n \<le> length (pending s (other X)) \<Longrightarrow>
     copier_step s (counting_write X (take n (pending s (other X))) (take_input (other X) n s))"
| copy_short:
    "\<not> finished s X \<Longrightarrow> \<not> closed s (other X) \<Longrightarrow> 0 < n \<Longrightarrow> n \<le> copy_buf \<Longrightarrow>
     n \<le> length (pending s (other X)) \<Longrightarrow> m \<le> n \<Longrightarrow>
     copier_step s (close_done X (counting_write X (take m (pending s (other X))) (take_input (other X) n s)))"
| copy_end:
    "\<not> finished s X \<Longrightarrow>
     closed s (other X) \<or> peer s (other X) = PeerBroken \<or>
       peer s (other X) = PeerEof \<and> pending s (other X) = [] \<Longrightarrow>
     copier_step s (close_done X s)"

inductive_cases copier_stepE: "copier_step s t"

text \<open>The copiers and the peers: a connection that is open may end, one that is not broken may break.\<close>

inductive relay_step :: "relay_state \<Rightarrow> relay_state \<Rightarrow> bool" where
  copier: "copier_step s t \<Longrightarrow> relay_step s t"
| peer_eof: "peer s Y = PeerOpen \<Longrightarrow> relay_step s (peer_ends Y PeerEof s)"
| peer_break: "peer s Y \<noteq> PeerBroken \<Longrightarrow> relay_step s (peer_ends Y PeerBroken s)"

inductive relay_reach :: "(side \<Rightarrow> bytes) \<Rightarrow> relay_state \<Rightarrow> bool" for input where
  init: "relay_reach input (relay_init input)"
| step: "relay_reach input s \<Longrightarrow> relay_step s t \<Longrightarrow> relay_reach input t"

text \<open>\<open>Relay\<close> returns the two counters once both copiers are done.\<close>

definition relay_result :: "relay_state \<Rightarrow> (64 word \<times> 64 word) option" where
  "relay_result s =
     (if finished s SideA \<and> finished s SideB then Some (counter s SideA, counter s SideB) else None)"

lemma other_simps [simp]: "other (other X) = X" "other X \<noteq> X" "X \<noteq> other X"
  by (cases X; simp)+

lemma other_inject [simp]: "other X = other Y \<longleftrightarrow> X = Y"
  by (cases X; cases Y) simp_all

lemma side_cases: "Y = X \<or> Y = other X"
  by (cases X; cases Y) simp_all

lemmas relay_defs = counting_write_def take_input_def close_done_def relay_init_def peer_ends_def

section \<open>Safety: what is delivered\<close>

text \<open>
  The invariant: each side has received a prefix of what the other side sent; while its copier
  runs nothing is lost in between; its counter is the number of bytes it accepted; a side is closed
  exactly when its copier is done.
\<close>

definition relay_inv :: "(side \<Rightarrow> bytes) \<Rightarrow> relay_state \<Rightarrow> bool" where
  "relay_inv input s \<longleftrightarrow>
     (\<forall>X. prefix (delivered s X) (input (other X)) \<and>
          (\<not> finished s X \<longrightarrow> delivered s X @ pending s (other X) = input (other X)) \<and>
          counter s X = of_nat (length (delivered s X)) \<and>
          closed s X = finished s X)"

lemma relay_inv_init: "relay_inv input (relay_init input)"
  by (simp add: relay_inv_def relay_defs)

lemma copier_step_inv:
  assumes "copier_step s t" and "relay_inv input s"
  shows "relay_inv input t"
  using assms
proof (induction rule: copier_step.induct)
  case (copy_chunk s X n)
  let ?p = "pending s (other X)"
  have eq: "delivered s X @ ?p = input (other X)"
    using copy_chunk by (simp add: relay_inv_def)
  then have "input (other X) = (delivered s X @ take n ?p) @ drop n ?p" by simp
  then have "prefix (delivered s X @ take n ?p) (input (other X))" by (metis prefixI)
  with copy_chunk eq show ?case
    by (simp add: relay_inv_def relay_defs)
next
  case (copy_short s X n m)
  let ?p = "pending s (other X)"
  have eq: "delivered s X @ ?p = input (other X)"
    using copy_short by (simp add: relay_inv_def)
  then have "input (other X) = (delivered s X @ take m ?p) @ drop m ?p" by simp
  then have "prefix (delivered s X @ take m ?p) (input (other X))" by (metis prefixI)
  with copy_short eq show ?case
    by (simp add: relay_inv_def relay_defs)
next
  case (copy_end s X)
  then show ?case by (auto simp: relay_inv_def relay_defs)
qed

lemma relay_step_inv: "relay_step s t \<Longrightarrow> relay_inv input s \<Longrightarrow> relay_inv input t"
  by (induction rule: relay_step.induct) (auto simp: copier_step_inv, auto simp: relay_inv_def relay_defs)

lemma relay_reach_inv: "relay_reach input s \<Longrightarrow> relay_inv input s"
  by (induction rule: relay_reach.induct) (auto intro: relay_inv_init relay_step_inv)

section \<open>Termination and progress\<close>

definition unfinished :: "relay_state \<Rightarrow> nat" where
  "unfinished s = (if finished s SideA then 0 else 1) + (if finished s SideB then 0 else 1)"

fun peer_rank :: "peer_state \<Rightarrow> nat" where
  "peer_rank PeerOpen = 2"
| "peer_rank PeerEof = 1"
| "peer_rank PeerBroken = 0"

definition relay_measure :: "relay_state \<Rightarrow> nat" where
  "relay_measure s =
     length (pending s SideA) + length (pending s SideB) + unfinished s +
     peer_rank (peer s SideA) + peer_rank (peer s SideB)"

lemma copier_step_decreases: "copier_step s t \<Longrightarrow> relay_measure t < relay_measure s"
proof (induction rule: copier_step.induct)
  case (copy_chunk s X n)
  then show ?case by (cases X) (auto simp: relay_measure_def unfinished_def relay_defs)
next
  case (copy_short s X n m)
  then show ?case by (cases X) (auto simp: relay_measure_def unfinished_def relay_defs)
next
  case (copy_end s X)
  then show ?case by (cases X) (auto simp: relay_measure_def unfinished_def relay_defs)
qed

lemma relay_step_decreases: "relay_step s t \<Longrightarrow> relay_measure t < relay_measure s"
proof (induction rule: relay_step.induct)
  case (copier s t)
  then show ?case by (rule copier_step_decreases)
next
  case (peer_eof s Y)
  then show ?case by (cases Y) (simp_all add: relay_measure_def unfinished_def relay_defs)
next
  case (peer_break s Y)
  then show ?case
    by (cases Y; cases "peer s Y") (simp_all add: relay_measure_def unfinished_def relay_defs)
qed

lemma relay_step_wf: "wfp (\<lambda>t s. relay_step s t)"
  by (rule wfp_if_convertible_to_nat [of _ relay_measure]) (rule relay_step_decreases)

text \<open>What a copier waits for: data, the end of a peer, or the close by the other copier.\<close>

definition relay_woken :: "relay_state \<Rightarrow> bool" where
  "relay_woken s \<longleftrightarrow> (\<exists>X. pending s X \<noteq> [] \<or> peer s X \<noteq> PeerOpen \<or> finished s X)"

lemma copier_can_go_on:
  assumes "relay_inv input s" and "relay_result s = None" and "relay_woken s"
  shows "\<exists>t. copier_step s t"
proof (cases "\<exists>X. finished s X")
  case True
  then obtain X where X: "finished s X" by blast
  then have "\<not> finished s (other X)" using assms(2) by (cases X) (auto simp: relay_result_def split: if_splits)
  moreover have "closed s X" using assms(1) X by (simp add: relay_inv_def)
  ultimately show ?thesis using copy_end [of s "other X"] by auto
next
  case False
  then have open_all: "\<not> finished s X" "\<not> closed s X" for X using assms(1) by (simp_all add: relay_inv_def)
  obtain X where "pending s X \<noteq> [] \<or> peer s X \<noteq> PeerOpen" using assms(3) False by (auto simp: relay_woken_def)
  then consider "pending s X \<noteq> []" | "pending s X = []" "peer s X \<noteq> PeerOpen" by blast
  then show ?thesis
  proof cases
    case 1
    then show ?thesis using copy_chunk [of s "other X" 1] open_all by (auto simp: copy_buf_def Suc_le_eq)
  next
    case 2
    then have "peer s X = PeerBroken \<or> peer s X = PeerEof" by (cases "peer s X") auto
    then show ?thesis using copy_end [of s "other X"] open_all 2 by auto
  qed
qed

lemma copier_step_woken:
  assumes "copier_step s t" and "relay_inv input s"
  shows "relay_woken s" and "relay_result s = None"
proof -
  show "relay_woken s"
    using assms(1)
  proof cases
    case (copy_end X)
    moreover have "closed s (other X) = finished s (other X)" using assms(2) unfolding relay_inv_def by blast
    ultimately have "finished s (other X) \<or> peer s (other X) \<noteq> PeerOpen" by auto
    then show ?thesis unfolding relay_woken_def by blast
  next
    case (copy_chunk X n)
    then have "pending s (other X) \<noteq> []" by auto
    then show ?thesis unfolding relay_woken_def by blast
  next
    case (copy_short X n m)
    then have "pending s (other X) \<noteq> []" by auto
    then show ?thesis unfolding relay_woken_def by blast
  qed
  show "relay_result s = None"
    using assms(1) by (auto simp: relay_result_def elim!: copier_stepE) (metis side_cases other.simps)+
qed

text \<open>One side has come to an end.\<close>

definition side_ended :: "relay_state \<Rightarrow> bool" where
  "side_ended s \<longleftrightarrow> (\<exists>X. peer s X \<noteq> PeerOpen \<or> finished s X)"

lemma copier_steps_ended:
  "copier_step\<^sup>*\<^sup>* s t \<Longrightarrow> side_ended s \<and> relay_inv input s \<Longrightarrow> side_ended t \<and> relay_inv input t"
proof (induction rule: rtranclp_induct)
  case (step t u)
  then have "side_ended t" "relay_inv input t" by blast+
  moreover from step.hyps(2) this(1) have "side_ended u"
    by (induction rule: copier_step.induct) (auto simp: side_ended_def relay_defs)
  ultimately show ?case using copier_step_inv [OF step.hyps(2)] by blast
qed simp

lemma ended_woken: "side_ended s \<Longrightarrow> relay_woken s"
  by (auto simp: side_ended_def relay_woken_def)

text \<open>Once a side is closed the other side receives nothing more.\<close>

lemma copier_step_after_close:
  assumes "copier_step s t" and "closed s Y"
  shows "closed t Y \<and> delivered t (other Y) = delivered s (other Y)"
  using assms by (induction rule: copier_step.induct) (auto simp: relay_defs)

lemma relay_step_after_close:
  assumes "relay_step s t" and "closed s Y"
  shows "closed t Y \<and> delivered t (other Y) = delivered s (other Y)"
  using assms by (cases rule: relay_step.cases) (auto simp: copier_step_after_close peer_ends_def)

lemma relay_steps_after_close:
  assumes "relay_step\<^sup>*\<^sup>* s t" and "closed s Y"
  shows "closed t Y \<and> delivered t (other Y) = delivered s (other Y)"
  using assms by (induction rule: rtranclp_induct) (auto dest: relay_step_after_close)

section \<open>Properties\<close>

text \<open>C0: In every reachable state, each connection has received a prefix of what the other one sent,
  unaltered and in order; until its copier ends nothing is missing in between; and the counters that
  \<open>Relay\<close> returns are the numbers of bytes delivered (modulo 2^64).\<close>

theorem relay_delivers_prefixes:
  assumes "relay_reach input s"
  shows "\<forall>X. \<exists>lost. input (other X) = delivered s X @ lost \<and>
           (\<not> finished s X \<longrightarrow> lost = pending s (other X)) \<and>
           counter s X = of_nat (length (delivered s X))"
  using relay_reach_inv [OF assms] unfolding relay_inv_def by (metis prefixE same_append_eq)

definition demo_input :: "side \<Rightarrow> bytes" where
  "demo_input X = (case X of SideA \<Rightarrow> [1, 2] | SideB \<Rightarrow> [7])"

text \<open>The copier towards \<open>SideB\<close> copies its input and ends with the end of file; then the other one ends.\<close>

definition demo_sent :: relay_state where
  "demo_sent =
     peer_ends SideA PeerEof
       (counting_write SideB (take 2 (demo_input SideA)) (take_input SideA 2 (relay_init demo_input)))"

definition demo_mid :: relay_state where
  "demo_mid = close_done SideB demo_sent"

definition demo_final :: relay_state where
  "demo_final = close_done SideA demo_mid"

lemma demo_sent_reach: "relay_reach demo_input demo_sent" and demo_reach: "relay_reach demo_input demo_mid"
  and demo_step: "relay_step demo_mid demo_final"
proof -
  let ?s0 = "relay_init demo_input"
  let ?s1 = "counting_write SideB (take 2 (demo_input SideA)) (take_input SideA 2 ?s0)"
  have "relay_step ?s0 ?s1"
    using copier [OF copy_chunk [of ?s0 SideB 2]] by (simp add: relay_defs demo_input_def copy_buf_def)
  moreover have "relay_step ?s1 demo_sent"
    unfolding demo_sent_def by (rule peer_eof) (simp add: relay_defs)
  ultimately show sent: "relay_reach demo_input demo_sent" by (blast intro: relay_reach.intros)
  have "relay_step demo_sent demo_mid"
    unfolding demo_mid_def
    by (intro copier copy_end) (simp_all add: demo_sent_def relay_defs demo_input_def)
  with sent show "relay_reach demo_input demo_mid" by (rule relay_reach.step)
  show "relay_step demo_mid demo_final"
    unfolding demo_final_def by (intro copier copy_end) (simp_all add: demo_mid_def demo_sent_def relay_defs)
qed

lemma relay_delivers_prefixes_witness:
  "\<exists>lost. demo_input (other SideB) = delivered demo_mid SideB @ lost \<and>
     counter demo_mid SideB = of_nat (length (delivered demo_mid SideB))"
  using relay_delivers_prefixes [OF demo_reach] by blast

text \<open>C15: \<open>Relay\<close> returns once one side has come to an end. No infinite run of the copiers and the peers
  exists. In every reachable state in which \<open>Relay\<close> has not returned, some copier can go on exactly when
  there is data to copy, a peer has ended or broken its connection, or a copier has finished; so while
  both peers are idle \<open>Relay\<close> waits, and once a peer or a copier has ended, in every interleaving the
  copiers only stop when both are done: the close of the destination wakes the other copier.\<close>

theorem relay_terminates:
  assumes "relay_reach input s"
  shows "wfp (\<lambda>t s. relay_step s t) \<and>
    (relay_result s = None \<longrightarrow>
       (\<exists>t. copier_step s t) = (\<exists>X. pending s X \<noteq> [] \<or> peer s X \<noteq> PeerOpen \<or> finished s X)) \<and>
    (\<forall>X t. (peer s X \<noteq> PeerOpen \<or> finished s X) \<and> copier_step\<^sup>*\<^sup>* s t \<and> (\<forall>u. \<not> copier_step t u) \<longrightarrow>
       relay_result t \<noteq> None)"
proof (intro conjI impI allI)
  note inv = relay_reach_inv [OF assms]
  show "wfp (\<lambda>t s. relay_step s t)" by (rule relay_step_wf)
  show "(\<exists>t. copier_step s t) = (\<exists>X. pending s X \<noteq> [] \<or> peer s X \<noteq> PeerOpen \<or> finished s X)"
    if "relay_result s = None"
    using copier_can_go_on [OF inv that] copier_step_woken(1) [OF _ inv] unfolding relay_woken_def by blast
  fix X t
  assume t: "(peer s X \<noteq> PeerOpen \<or> finished s X) \<and> copier_step\<^sup>*\<^sup>* s t \<and> (\<forall>u. \<not> copier_step t u)"
  then have "side_ended s" by (auto simp: side_ended_def)
  with t inv have "side_ended t" "relay_inv input t" using copier_steps_ended [of s t input] by blast+
  then show "relay_result t \<noteq> None" using copier_can_go_on ended_woken t by blast
qed

lemma relay_terminates_witness: "relay_result demo_sent = None \<and> (\<exists>t. copier_step demo_sent t)"
proof -
  have "relay_result demo_sent = None" "peer demo_sent SideA \<noteq> PeerOpen"
    by (simp_all add: demo_sent_def relay_result_def relay_defs)
  then show ?thesis using relay_terminates [OF demo_sent_reach] by blast
qed

text \<open>C38: When a copier ends, also on a mere end of file, it closes its destination as a whole: from then
  on nothing that this connection still sends reaches the other side. (A client that half-closes its
  connection after the request loses the response.)\<close>

theorem relay_half_close_cuts:
  assumes "relay_reach input s" and "finished s X" and "relay_step\<^sup>*\<^sup>* s t"
  shows "delivered t (other X) = delivered s (other X)"
proof -
  have "closed s X" using relay_reach_inv [OF assms(1)] assms(2) by (simp add: relay_inv_def)
  from relay_steps_after_close [OF assms(3) this] show ?thesis by blast
qed

lemma relay_half_close_cuts_witness:
  "demo_input SideB = [7] \<and> delivered demo_mid SideA = [] \<and> delivered demo_final SideA = []"
  using relay_half_close_cuts [OF demo_reach _ r_into_rtranclp [where r = relay_step, OF demo_step], of SideB]
  by (simp add: demo_input_def demo_mid_def demo_sent_def relay_defs)

end
