(* ===== verification/Tunnel.thy ===== *)
theory Tunnel
  imports Relay
begin

text \<open>
  A whole tunnel: the relay of the client (\<open>handleConnect\<close> of \<open>connect.go\<close>, \<open>forwardConn\<close> of \<open>forward.go\<close>)
  and the relay of the server (\<open>connectHandler\<close>, \<open>handleMuxConnect\<close> of \<open>server.go\<close>), with the WebSocket or
  the multiplexed stream between them, which delivers in order what was written to it, some time later.

  Both relays are those of \<open>Relay\<close>. On the client \<open>SideA\<close> is the connection of the application and \<open>SideB\<close> the
  tunnel's; on the server \<open>SideA\<close> is the tunnel's and \<open>SideB\<close> the target's, as the calls have them. The
  peers keep sending while the relays run; each connection may also end or break at any time.
\<close>

section \<open>The tunnel\<close>

record tunnel_state =
  tn_client :: relay_state
  tn_server :: relay_state
  tn_up :: bytes \<comment> \<open>written by the client's relay, not yet at the server\<close>
  tn_down :: bytes
  tn_app_sent :: bytes
  tn_target_sent :: bytes

definition tunnel_init :: tunnel_state where
  "tunnel_init =
     \<lparr>tn_client = relay_init (\<lambda>_. []), tn_server = relay_init (\<lambda>_. []), tn_up = [], tn_down = [],
      tn_app_sent = [], tn_target_sent = []\<rparr>"

definition feed :: "side \<Rightarrow> bytes \<Rightarrow> relay_state \<Rightarrow> relay_state" where
  "feed Y p s = s\<lparr>pending := (pending s)(Y := pending s Y @ p)\<rparr>"

text \<open>What a round has written to a side.\<close>

definition round_wrote :: "side \<Rightarrow> relay_state \<Rightarrow> relay_state \<Rightarrow> bytes" where
  "round_wrote X s t = drop (length (delivered s X)) (delivered t X)"

inductive tunnel_step :: "tunnel_state \<Rightarrow> tunnel_state \<Rightarrow> bool" where
  client_round:
    "relay_step (tn_client s) c \<Longrightarrow>
     tunnel_step s (s\<lparr>tn_client := c, tn_up := tn_up s @ round_wrote SideB (tn_client s) c\<rparr>)"
| server_round:
    "relay_step (tn_server s) v \<Longrightarrow>
     tunnel_step s (s\<lparr>tn_server := v, tn_down := tn_down s @ round_wrote SideA (tn_server s) v\<rparr>)"
| up_link:
    "tn_up s = p @ q \<Longrightarrow> tunnel_step s (s\<lparr>tn_up := q, tn_server := feed SideA p (tn_server s)\<rparr>)"
| down_link:
    "tn_down s = p @ q \<Longrightarrow> tunnel_step s (s\<lparr>tn_down := q, tn_client := feed SideB p (tn_client s)\<rparr>)"
| app_sends:
    "tunnel_step s (s\<lparr>tn_app_sent := tn_app_sent s @ p, tn_client := feed SideA p (tn_client s)\<rparr>)"
| target_sends:
    "tunnel_step s (s\<lparr>tn_target_sent := tn_target_sent s @ p, tn_server := feed SideB p (tn_server s)\<rparr>)"

inductive tunnel_reach :: "tunnel_state \<Rightarrow> bool" where
  tunnel_start: "tunnel_reach tunnel_init"
| tunnel_next: "tunnel_reach s \<Longrightarrow> tunnel_step s t \<Longrightarrow> tunnel_reach t"

section \<open>A relay whose peers keep sending\<close>

lemma relay_inv_feed:
  "relay_inv input s \<Longrightarrow> relay_inv (input(Y := input Y @ p)) (feed Y p s)"
  by (auto simp: relay_inv_def feed_def intro: prefix_prefix)

lemma copier_step_wrote: "copier_step s t \<Longrightarrow> delivered t X = delivered s X @ round_wrote X s t"
  by (induction rule: copier_step.induct) (auto simp: relay_defs round_wrote_def)

lemma relay_step_wrote: "relay_step s t \<Longrightarrow> delivered t X = delivered s X @ round_wrote X s t"
  by (cases rule: relay_step.cases) (auto simp: copier_step_wrote, auto simp: peer_ends_def round_wrote_def)

section \<open>The invariant\<close>

text \<open>Both relays keep theirs, and the link delivers what was written to it.\<close>

definition tunnel_inv :: "tunnel_state \<Rightarrow> bool" where
  "tunnel_inv s \<longleftrightarrow>
     (\<exists>up down.
        relay_inv (\<lambda>Y. case Y of SideA \<Rightarrow> tn_app_sent s | SideB \<Rightarrow> down) (tn_client s) \<and>
        relay_inv (\<lambda>Y. case Y of SideA \<Rightarrow> up | SideB \<Rightarrow> tn_target_sent s) (tn_server s) \<and>
        delivered (tn_client s) SideB = up @ tn_up s \<and> delivered (tn_server s) SideA = down @ tn_down s)"

lemma sides_upd [simp]:
  "(\<lambda>Y. case Y of SideA \<Rightarrow> a | SideB \<Rightarrow> b)(SideA := a') = (\<lambda>Y. case Y of SideA \<Rightarrow> a' | SideB \<Rightarrow> b)"
  "(\<lambda>Y. case Y of SideA \<Rightarrow> a | SideB \<Rightarrow> b)(SideB := b') = (\<lambda>Y. case Y of SideA \<Rightarrow> a | SideB \<Rightarrow> b')"
  by (auto split: side.split)

lemma feed_delivered [simp]: "delivered (feed Y p s) = delivered s"
  by (simp add: feed_def)

lemma tunnel_inv_init: "tunnel_inv tunnel_init"
proof -
  have "relay_inv (\<lambda>Y. case Y of SideA \<Rightarrow> [] | SideB \<Rightarrow> []) (relay_init (\<lambda>_. []))"
    by (auto simp: relay_inv_def relay_defs split: side.split)
  then show ?thesis by (auto simp: tunnel_inv_def tunnel_init_def relay_init_def)
qed

lemma tunnel_step_inv:
  assumes "tunnel_step s t" and "tunnel_inv s"
  shows "tunnel_inv t"
proof -
  obtain up down where
    c: "relay_inv (\<lambda>Y. case Y of SideA \<Rightarrow> tn_app_sent s | SideB \<Rightarrow> down) (tn_client s)" and
    v: "relay_inv (\<lambda>Y. case Y of SideA \<Rightarrow> up | SideB \<Rightarrow> tn_target_sent s) (tn_server s)" and
    l: "delivered (tn_client s) SideB = up @ tn_up s" "delivered (tn_server s) SideA = down @ tn_down s"
    using assms(2) unfolding tunnel_inv_def by blast
  show ?thesis
    using assms(1)
  proof cases
    case (client_round c')
    then show ?thesis
      using relay_step_inv [OF client_round(2) c] v l relay_step_wrote [OF client_round(2), of SideB]
      unfolding tunnel_inv_def by (intro exI [of _ up] exI [of _ down]) simp
  next
    case (server_round v')
    then show ?thesis
      using relay_step_inv [OF server_round(2) v] c l relay_step_wrote [OF server_round(2), of SideA]
      unfolding tunnel_inv_def by (intro exI [of _ up] exI [of _ down]) simp
  next
    case (up_link p q)
    then show ?thesis
      using relay_inv_feed [OF v, of SideA p] c l unfolding tunnel_inv_def
      by (intro exI [of _ "up @ p"] exI [of _ down]) simp
  next
    case (down_link p q)
    then show ?thesis
      using relay_inv_feed [OF c, of SideB p] v l unfolding tunnel_inv_def
      by (intro exI [of _ up] exI [of _ "down @ p"]) simp
  next
    case (app_sends p)
    then show ?thesis
      using relay_inv_feed [OF c, of SideA p] v l unfolding tunnel_inv_def
      by (intro exI [of _ up] exI [of _ down]) simp
  next
    case (target_sends p)
    then show ?thesis
      using relay_inv_feed [OF v, of SideB p] c l unfolding tunnel_inv_def
      by (intro exI [of _ up] exI [of _ down]) simp
  qed
qed

lemma tunnel_reach_inv: "tunnel_reach s \<Longrightarrow> tunnel_inv s"
  by (induction rule: tunnel_reach.induct) (auto intro: tunnel_inv_init tunnel_step_inv)

lemma relay_inv_prefix: "relay_inv input s \<Longrightarrow> prefix (delivered s X) (input (other X))"
  by (simp add: relay_inv_def)

lemma relay_inv_running: "relay_inv input s \<Longrightarrow> \<not> finished s X \<Longrightarrow> input (other X) = delivered s X @ pending s (other X)"
  by (simp add: relay_inv_def)

section \<open>Draining\<close>

text \<open>A copier that runs can copy all that its source has sent, in chunks of at most 32 KiB; nothing else changes.\<close>

definition drained :: "side \<Rightarrow> relay_state \<Rightarrow> relay_state" where
  "drained X s = counting_write X (pending s (other X)) (take_input (other X) (length (pending s (other X))) s)"

lemma drain_step:
  assumes "\<not> finished s X" and "\<not> closed s (other X)" and "pending s (other X) \<noteq> []"
  defines "n \<equiv> min copy_buf (length (pending s (other X)))"
  defines "t \<equiv> counting_write X (take n (pending s (other X))) (take_input (other X) n s)"
  shows "relay_step s t" "length (pending t (other X)) < length (pending s (other X))"
    "\<not> finished t X" "\<not> closed t (other X)" "drained X t = drained X s"
    "delivered s (other X) = delivered t (other X)"
proof -
  have n: "0 < n" "n \<le> copy_buf" "n \<le> length (pending s (other X))"
    using assms(3) by (simp_all add: n_def copy_buf_def)
  show "relay_step s t" unfolding t_def by (intro copier copy_chunk assms(1,2) n)
  show "length (pending t (other X)) < length (pending s (other X))" using n by (simp add: t_def relay_defs)
  show "\<not> finished t X" "\<not> closed t (other X)" "delivered s (other X) = delivered t (other X)"
    using assms(1,2) by (simp_all add: t_def relay_defs)
  show "drained X t = drained X s"
    using n(3) by (simp add: drained_def t_def relay_defs fun_upd_def flip: of_nat_add) (simp add: fun_eq_iff)
qed

lemma drained_nothing: "pending s (other X) = [] \<Longrightarrow> drained X s = s"
  by (cases s) (simp add: drained_def relay_defs fun_upd_idem)

lemma drained_simps [simp]:
  "finished (drained X s) = finished s" "closed (drained X s) = closed s"
  "delivered (drained X s) Y = (if Y = X then delivered s X @ pending s (other X) else delivered s Y)"
  "pending (drained X s) Y = (if Y = other X then [] else pending s Y)"
  by (simp_all add: drained_def relay_defs)

lemma feed_simps [simp]:
  "finished (feed Y p s) = finished s" "closed (feed Y p s) = closed s"
  "pending (feed Y p s) Z = (if Z = Y then pending s Y @ p else pending s Z)"
  by (simp_all add: feed_def)

lemma client_drains:
  assumes "\<not> finished (tn_client s) X" and "\<not> closed (tn_client s) (other X)"
  shows "tunnel_step\<^sup>*\<^sup>* s (s\<lparr>tn_client := drained X (tn_client s),
    tn_up := tn_up s @ (if X = SideB then pending (tn_client s) SideA else [])\<rparr>)"
  using assms
proof (induction "length (pending (tn_client s) (other X))" arbitrary: s rule: less_induct)
  case less
  let ?c = "tn_client s"
  show ?case
  proof (cases "pending ?c (other X) = []")
    case True
    then have "s\<lparr>tn_client := drained X ?c, tn_up := tn_up s @ (if X = SideB then pending ?c SideA else [])\<rparr> = s"
      by (cases X) (simp_all add: drained_nothing)
    then show ?thesis by simp
  next
    case False
    define n where "n = min copy_buf (length (pending ?c (other X)))"
    define c where "c = counting_write X (take n (pending ?c (other X))) (take_input (other X) n ?c)"
    note c = drain_step [OF less.prems False, folded n_def, folded c_def]
    let ?s = "s\<lparr>tn_client := c, tn_up := tn_up s @ round_wrote SideB ?c c\<rparr>"
    have "round_wrote SideB ?c c = (if X = SideB then take n (pending ?c SideA) else [])"
      by (cases X) (simp_all add: round_wrote_def c_def relay_defs)
    moreover have "pending c SideA = drop n (pending ?c SideA)" if "X = SideB"
      using that by (simp add: c_def relay_defs)
    ultimately have up: "round_wrote SideB ?c c @ (if X = SideB then pending c SideA else []) =
        (if X = SideB then pending ?c SideA else [])" by simp
    have "tunnel_step\<^sup>*\<^sup>* ?s (?s\<lparr>tn_client := drained X c, tn_up := tn_up ?s @ (if X = SideB then pending c SideA else [])\<rparr>)"
      using less.hyps [of ?s] c(2-4) by (cases X) simp_all
    then have "tunnel_step\<^sup>*\<^sup>* ?s (s\<lparr>tn_client := drained X ?c, tn_up := tn_up s @ (if X = SideB then pending ?c SideA else [])\<rparr>)"
      using up c(5) by (cases X) simp_all
    moreover have "tunnel_step s ?s" by (rule client_round [OF c(1)])
    ultimately show ?thesis by (rule converse_rtranclp_into_rtranclp [rotated])
  qed
qed

lemma server_drains:
  assumes "\<not> finished (tn_server s) X" and "\<not> closed (tn_server s) (other X)"
  shows "tunnel_step\<^sup>*\<^sup>* s (s\<lparr>tn_server := drained X (tn_server s),
    tn_down := tn_down s @ (if X = SideA then pending (tn_server s) SideB else [])\<rparr>)"
  using assms
proof (induction "length (pending (tn_server s) (other X))" arbitrary: s rule: less_induct)
  case less
  let ?v = "tn_server s"
  show ?case
  proof (cases "pending ?v (other X) = []")
    case True
    then have "s\<lparr>tn_server := drained X ?v, tn_down := tn_down s @ (if X = SideA then pending ?v SideB else [])\<rparr> = s"
      by (cases X) (simp_all add: drained_nothing)
    then show ?thesis by simp
  next
    case False
    define n where "n = min copy_buf (length (pending ?v (other X)))"
    define v where "v = counting_write X (take n (pending ?v (other X))) (take_input (other X) n ?v)"
    note v = drain_step [OF less.prems False, folded n_def, folded v_def]
    let ?s = "s\<lparr>tn_server := v, tn_down := tn_down s @ round_wrote SideA ?v v\<rparr>"
    have "round_wrote SideA ?v v = (if X = SideA then take n (pending ?v SideB) else [])"
      by (cases X) (simp_all add: round_wrote_def v_def relay_defs)
    moreover have "pending v SideB = drop n (pending ?v SideB)" if "X = SideA"
      using that by (simp add: v_def relay_defs)
    ultimately have down: "round_wrote SideA ?v v @ (if X = SideA then pending v SideB else []) =
        (if X = SideA then pending ?v SideB else [])" by simp
    have "tunnel_step\<^sup>*\<^sup>* ?s (?s\<lparr>tn_server := drained X v, tn_down := tn_down ?s @ (if X = SideA then pending v SideB else [])\<rparr>)"
      using less.hyps [of ?s] v(2-4) by (cases X) simp_all
    then have "tunnel_step\<^sup>*\<^sup>* ?s (s\<lparr>tn_server := drained X ?v, tn_down := tn_down s @ (if X = SideA then pending ?v SideB else [])\<rparr>)"
      using down v(5) by (cases X) simp_all
    moreover have "tunnel_step s ?s" by (rule server_round [OF v(1)])
    ultimately show ?thesis by (rule converse_rtranclp_into_rtranclp [rotated])
  qed
qed

text \<open>No copier of either relay has ended.\<close>

definition tunnel_open :: "tunnel_state \<Rightarrow> bool" where
  "tunnel_open s \<longleftrightarrow>
     (\<forall>X. \<not> finished (tn_client s) X \<and> \<not> closed (tn_client s) X \<and> \<not> finished (tn_server s) X \<and> \<not> closed (tn_server s) X)"

definition flush_up :: "tunnel_state \<Rightarrow> tunnel_state" where
  "flush_up s =
     s\<lparr>tn_client := drained SideB (tn_client s), tn_up := [],
       tn_server := drained SideB (feed SideA (tn_up s @ pending (tn_client s) SideA) (tn_server s))\<rparr>"

definition flush_down :: "tunnel_state \<Rightarrow> tunnel_state" where
  "flush_down s =
     s\<lparr>tn_server := drained SideA (tn_server s), tn_down := [],
       tn_client := drained SideA (feed SideB (tn_down s @ pending (tn_server s) SideB) (tn_client s))\<rparr>"

lemma flush_up_steps:
  assumes "tunnel_open s"
  shows "tunnel_step\<^sup>*\<^sup>* s (flush_up s)"
proof -
  define s1 where "s1 = s\<lparr>tn_client := drained SideB (tn_client s), tn_up := tn_up s @ pending (tn_client s) SideA\<rparr>"
  define s2 where "s2 = s1\<lparr>tn_up := [], tn_server := feed SideA (tn_up s1) (tn_server s1)\<rparr>"
  have "tunnel_step\<^sup>*\<^sup>* s s1" using client_drains [of s SideB] assms by (simp add: tunnel_open_def s1_def)
  moreover have "tunnel_step s1 s2" using up_link [of s1 "tn_up s1" "[]"] by (simp add: s2_def)
  moreover have "tunnel_step\<^sup>*\<^sup>* s2 (flush_up s)"
    using server_drains [of s2 SideB] assms by (simp add: tunnel_open_def flush_up_def s2_def s1_def)
  ultimately show ?thesis by (meson rtranclp.rtrancl_into_rtrancl rtranclp_trans)
qed

lemma flush_down_steps:
  assumes "tunnel_open s"
  shows "tunnel_step\<^sup>*\<^sup>* s (flush_down s)"
proof -
  define s1 where "s1 = s\<lparr>tn_server := drained SideA (tn_server s), tn_down := tn_down s @ pending (tn_server s) SideB\<rparr>"
  define s2 where "s2 = s1\<lparr>tn_down := [], tn_client := feed SideB (tn_down s1) (tn_client s1)\<rparr>"
  have "tunnel_step\<^sup>*\<^sup>* s s1" using server_drains [of s SideA] assms by (simp add: tunnel_open_def s1_def)
  moreover have "tunnel_step s1 s2" using down_link [of s1 "tn_down s1" "[]"] by (simp add: s2_def)
  moreover have "tunnel_step\<^sup>*\<^sup>* s2 (flush_down s)"
    using client_drains [of s2 SideA] assms by (simp add: tunnel_open_def flush_down_def s2_def s1_def)
  ultimately show ?thesis by (meson rtranclp.rtrancl_into_rtrancl rtranclp_trans)
qed

lemma flush_open: "tunnel_open s \<Longrightarrow> tunnel_open (flush_up s)"
  by (simp add: tunnel_open_def flush_up_def)

text \<open>What a whole tunnel holds, when no copier has ended.\<close>

lemma tunnel_open_accounts:
  assumes "tunnel_inv s" and "tunnel_open s"
  shows "tn_app_sent s = delivered (tn_server s) SideB @ pending (tn_server s) SideA @ tn_up s @ pending (tn_client s) SideA"
    and "tn_target_sent s = delivered (tn_client s) SideA @ pending (tn_client s) SideB @ tn_down s @ pending (tn_server s) SideB"
proof -
  obtain up down where
    c: "relay_inv (\<lambda>Y. case Y of SideA \<Rightarrow> tn_app_sent s | SideB \<Rightarrow> down) (tn_client s)" and
    v: "relay_inv (\<lambda>Y. case Y of SideA \<Rightarrow> up | SideB \<Rightarrow> tn_target_sent s) (tn_server s)" and
    l: "delivered (tn_client s) SideB = up @ tn_up s" "delivered (tn_server s) SideA = down @ tn_down s"
    using assms(1) unfolding tunnel_inv_def by blast
  have o: "\<not> finished (tn_client s) X" "\<not> finished (tn_server s) X" for X using assms(2) by (simp_all add: tunnel_open_def)
  show "tn_app_sent s = delivered (tn_server s) SideB @ pending (tn_server s) SideA @ tn_up s @ pending (tn_client s) SideA"
    using relay_inv_running [OF c o(1), of SideB] relay_inv_running [OF v o(2), of SideB] l(1) by simp
  show "tn_target_sent s = delivered (tn_client s) SideA @ pending (tn_client s) SideB @ tn_down s @ pending (tn_server s) SideB"
    using relay_inv_running [OF c o(1), of SideA] relay_inv_running [OF v o(2), of SideA] l(2) by simp
qed

lemma tunnel_can_flush:
  assumes "tunnel_inv s" and "tunnel_open s"
  shows "\<exists>t. tunnel_step\<^sup>*\<^sup>* s t \<and> delivered (tn_server t) SideB = tn_app_sent s \<and> delivered (tn_client t) SideA = tn_target_sent s"
proof (intro exI conjI)
  let ?t = "flush_down (flush_up s)"
  show "tunnel_step\<^sup>*\<^sup>* s ?t"
    by (rule rtranclp_trans [OF flush_up_steps [OF assms(2)] flush_down_steps [OF flush_open [OF assms(2)]]])
  show "delivered (tn_server ?t) SideB = tn_app_sent s" "delivered (tn_client ?t) SideA = tn_target_sent s"
    using tunnel_open_accounts [OF assms] by (simp_all add: flush_down_def flush_up_def)
qed

section \<open>Properties\<close>


definition demo_tunnel :: tunnel_state where
  "demo_tunnel = tunnel_init\<lparr>tn_app_sent := [1, 2], tn_client := feed SideA [1, 2] (tn_client tunnel_init)\<rparr>"


end
