(* ===== verification/Auth_Base.thy ===== *)
theory Auth_Base
  imports Go_Base
begin

text \<open>
  What the components of \<open>internal/auth\<close> share: the interface \<open>Authenticator\<close>, the data that
  JWTs and keys are made of, and the contract of the three background loops that reload
  credentials.

  The JWT library (golang-jwt) is not part of the repository: it is a record of functions, an
  argument of the definitions that use it. So are the PEM and X.509 parsers.
\<close>

section \<open>The interface of an authenticator\<close>

text \<open>
  \<open>authenticate w tok a\<close> returns the identity (\<open>None\<close> for \<open>ErrUnauthorized\<close>) and the
  authenticator's new state; \<open>w\<close> is what the outside world answers meanwhile. The contract that
  the chain and the server rely on: an accepted identity is never the empty string.
\<close>

locale authenticator =
  fixes authenticate :: "'w \<Rightarrow> string \<Rightarrow> 'a \<Rightarrow> string option \<times> 'a"
  assumes identity_nonempty: "fst (authenticate w tok a) = Some i \<Longrightarrow> i \<noteq> []"
begin

lemma never_empty: "fst (authenticate w tok a) \<noteq> Some []"
  using identity_nonempty by blast

end

section \<open>Reloading in the background\<close>

text \<open>
  A watcher waits for its ticker or for the stop signal. A tick carries the state of the world
  that the reload sees.
\<close>

datatype 'w watch_event = TickerFired 'w | Stopped

fun watch :: "('w \<Rightarrow> 's \<Rightarrow> 'e option \<times> 's) \<Rightarrow> 'w watch_event list \<Rightarrow> 's \<Rightarrow> 's" where
  "watch reload [] s = s"
| "watch reload (TickerFired w # es) s = watch reload es (snd (reload w s))"
| "watch reload (Stopped # es) s = s"

text \<open>
  The contract of a reload: \<open>load w\<close> is what the source provides (\<open>None\<close> when there is nothing
  to install), \<open>view\<close> the credentials in force. A failed reload leaves the state as it was.
\<close>

locale hot_reload =
  fixes reload :: "'w \<Rightarrow> 's \<Rightarrow> 'e option \<times> 's"
    and load :: "'s \<Rightarrow> 'w \<Rightarrow> 'd option"
    and view :: "'s \<Rightarrow> 'd"
  assumes reload_some: "load s w = Some d \<Longrightarrow> view (snd (reload w s)) = d"
    and reload_none: "load s w = None \<Longrightarrow> snd (reload w s) = s"
    and load_stable: "load (snd (reload w s)) w' = load s w'"
begin

text \<open>The worlds the watcher has seen when it stops.\<close>

fun ticks :: "'w watch_event list \<Rightarrow> 'w list" where
  "ticks [] = []"
| "ticks (TickerFired w # es) = w # ticks es"
| "ticks (Stopped # es) = []"

text \<open>The last load that succeeded is in force; when none did, the initial credentials are.\<close>

lemma watch_view:
  "view (watch reload es s) = fold (\<lambda>w d. case load s w of Some d' \<Rightarrow> d' | None \<Rightarrow> d) (ticks es) (view s)"
proof (induction es arbitrary: s)
  case (Cons e es)
  show ?case
  proof (cases e)
    case (TickerFired w)
    have "view (snd (reload w s)) = (case load s w of Some d' \<Rightarrow> d' | None \<Rightarrow> view s)"
      by (cases "load s w") (simp_all add: reload_some reload_none)
    then show ?thesis by (simp add: TickerFired Cons.IH load_stable)
  next
    case Stopped
    then show ?thesis by simp
  qed
qed simp

lemma watch_failed:
  "\<forall>w. TickerFired w \<in> set es \<longrightarrow> load s w = None \<Longrightarrow> view (watch reload es s) = view s"
proof (induction es arbitrary: s)
  case (Cons e es)
  then show ?case by (cases e) (auto simp: reload_none)
qed simp

lemma watch_last:
  assumes "load s w = Some d"
  shows "view (watch reload (map TickerFired ws @ [TickerFired w, Stopped]) s) = d"
proof -
  have "ticks (map TickerFired ws @ [TickerFired w, Stopped]) = ws @ [w]"
    by (induction ws) simp_all
  then show ?thesis using assms by (simp add: watch_view)
qed

end

section \<open>Claims, keys and tokens\<close>

datatype json = JStr string | JNum int | JBool bool | JNull | JArr "json list" | JObj "(string \<times> json) list"

type_synonym claims = "string \<rightharpoonup> json"

text \<open>The type assertion \<open>v.(string)\<close> on a claim; the flag says whether it held.\<close>

definition claim_string :: "claims \<Rightarrow> string \<Rightarrow> string \<times> bool" where
  "claim_string c k = (case c k of Some (JStr s) \<Rightarrow> (s, True) | _ \<Rightarrow> ([], False))"

datatype curve = P256 | P384 | P521

record rsa_public =
  rsa_n :: nat
  rsa_e :: int

record ec_public =
  ec_curve :: curve
  ec_x :: nat
  ec_y :: nat

datatype public_key = RSAPublic rsa_public | ECPublic ec_public | OtherPublic

record rsa_private =
  rsa_public_part :: rsa_public
  rsa_d :: nat

record ec_private =
  ec_public_part :: ec_public
  ec_d :: nat

datatype private_key = RSAPrivate rsa_private | ECPrivate ec_private | OtherPrivate

text \<open>The key that a key function hands to the library for verification.\<close>

datatype verify_key = SecretKey bytes | VerifyRSA rsa_public | VerifyEC ec_public | VerifyOther

text \<open>The Go type of \<open>t.Method\<close>, and the parts of a token's header that key functions read.\<close>

datatype method_type = MethodHMAC | MethodRSA | MethodRSAPSS | MethodECDSA | MethodEd25519 | MethodNone

record jwt_token =
  tok_method :: method_type
  tok_alg :: string
  tok_kid :: "json option"

datatype jwt_error = UnexpectedMethod string | MissingKid | UnknownKid string

type_synonym keyfunc = "jwt_token \<Rightarrow> (jwt_error, verify_key) outcome"

datatype signing_method = SignHS256 | SignRS256 | SignES256

datatype signing_key = SignSecret bytes | SignRSA rsa_private | SignEC ec_private

text \<open>
  The JWT library: \<open>jl_parse\<close> is \<open>ParseWithClaims\<close> (the token string, the key function, the list
  given with \<open>WithValidMethods\<close> if any; \<open>None\<close> on an error, else \<open>token.Valid\<close> and the claims),
  the getters return the empty value on an error, as the code ignores their error.
\<close>

record jwt_lib =
  jl_parse :: "string \<Rightarrow> keyfunc \<Rightarrow> string list option \<Rightarrow> (bool \<times> claims) option"
  jl_issuer :: "claims \<Rightarrow> string"
  jl_subject :: "claims \<Rightarrow> string"
  jl_audience :: "claims \<Rightarrow> string list"
  jl_sign :: "signing_method \<Rightarrow> claims \<Rightarrow> signing_key \<Rightarrow> string option"

record x509_lib =
  pem_decode :: "string \<Rightarrow> (string \<times> bytes) option"
  parse_pkcs1_public :: "bytes \<Rightarrow> rsa_public option"
  parse_pkix_public :: "bytes \<Rightarrow> public_key option"
  parse_pkcs1_private :: "bytes \<Rightarrow> rsa_private option"
  parse_pkcs8_private :: "bytes \<Rightarrow> private_key option"
  parse_ec_private :: "bytes \<Rightarrow> ec_private option"

definition valid_methods :: "string list" where
  "valid_methods = [''HS256'', ''HS384'', ''HS512'', ''RS256'', ''RS384'', ''RS512'',
                    ''ES256'', ''ES384'', ''ES512'']"

end
