(* ===== verification/Auth_Static.thy ===== *)
theory Auth_Static
  imports Auth_Base "HOL-Library.AList" "HOL-Library.Multiset"
begin

unbundle bit_operations_syntax

text \<open>
  \<open>internal/auth/static.go\<close>: bearer tokens from a fixed set of name and value pairs.

  The map from token values to names is an association list with distinct keys; its order is the
  order in which Go's \<open>range\<close> visits the map, which the language leaves open. A directory is the
  list of entries that \<open>os.ReadDir\<close> returns, each with the result of \<open>os.ReadFile\<close>.
\<close>

record static_auth =
  tokens :: "(string \<times> string) list" \<comment> \<open>token value, token name\<close>

record dir_entry =
  de_name :: string
  de_is_dir :: bool
  de_data :: "string option"

type_synonym directory = "dir_entry list option"

datatype static_error = ReadDirFailed | ReadFileFailed string

text \<open>\<open>NewStaticToken\<close>\<close>

definition NewStaticToken :: "string \<Rightarrow> static_auth" where
  "NewStaticToken token = \<lparr>tokens = [(token, ''anonymous'')]\<rparr>"

text \<open>The loop of \<open>reload\<close> over the entries; \<open>tokens[val] = e.Name()\<close> overwrites.\<close>

fun load_entries :: "dir_entry list \<Rightarrow> (string \<times> string) list \<Rightarrow> (static_error, (string \<times> string) list) outcome" where
  "load_entries [] toks = Ok toks"
| "load_entries (e # es) toks =
     (if de_is_dir e \<or> has_prefix (de_name e) ''.'' then load_entries es toks
      else case de_data e of
             None \<Rightarrow> Err (ReadFileFailed (de_name e))
           | Some d \<Rightarrow>
               let val = trim_space d
               in load_entries es (if val \<noteq> [] then AList.update val (de_name e) toks else toks))"

definition static_load :: "directory \<Rightarrow> (static_error, (string \<times> string) list) outcome" where
  "static_load d = (case d of None \<Rightarrow> Err ReadDirFailed | Some es \<Rightarrow> load_entries es [])"

definition static_reload :: "directory \<Rightarrow> static_auth \<Rightarrow> static_error option \<times> static_auth" where
  "static_reload d s =
     (case static_load d of
        Ok toks \<Rightarrow> (None, s\<lparr>tokens := toks\<rparr>)
      | Err e \<Rightarrow> (Some e, s)
      | Panic \<Rightarrow> (None, s))"

definition NewStaticDir :: "directory \<Rightarrow> (static_error, static_auth) outcome" where
  "NewStaticDir d =
     (case static_reload d \<lparr>tokens = []\<rparr> of
        (None, s) \<Rightarrow> Ok s
      | (Some e, s) \<Rightarrow> Err e)"

definition static_watchLoop :: "directory watch_event list \<Rightarrow> static_auth \<Rightarrow> static_auth" where
  "static_watchLoop = watch static_reload"

text \<open>
  \<open>subtle.ConstantTimeCompare\<close>: 0 for different lengths, else 1 when no byte differs.
\<close>

definition constant_time_compare :: "bytes \<Rightarrow> bytes \<Rightarrow> nat" where
  "constant_time_compare x y =
     (if length x \<noteq> length y then 0
      else if fold (\<lambda>(a, b) v. v OR (a XOR b)) (zip x y) 0 = 0 then 1 else 0)"

text \<open>\<open>Authenticate\<close>: the loop goes on after a match; the last one counts.\<close>

definition static_Authenticate :: "static_auth \<Rightarrow> string \<Rightarrow> string option" where
  "static_Authenticate s token =
     (let matched = fold (\<lambda>(val, name) m.
                       if constant_time_compare (bytes_of_string token) (bytes_of_string val) = 1
                       then name else m) (tokens s) []
      in if matched \<noteq> [] then Some matched else None)"

section \<open>Comparing in constant time is equality\<close>

lemma fold_or_xor_zero:
  "fold (\<lambda>(a, b) v. v OR (a XOR b)) ps v = 0 \<longleftrightarrow> v = (0 :: byte) \<and> (\<forall>(a, b) \<in> set ps. a = b)"
proof (induction ps arbitrary: v)
  case (Cons p ps)
  obtain a b where p: "p = (a, b)" by fastforce
  have "v OR (a XOR b) = 0 \<longleftrightarrow> v = 0 \<and> a = b"
    by (auto simp: bit_eq_iff bit_or_iff bit_xor_iff)
  with Cons p show ?case by auto
qed simp

lemma constant_time_compare_eq: "constant_time_compare x y = 1 \<longleftrightarrow> x = y"
proof -
  have "(\<forall>(a, b) \<in> set (zip x y). a = b) \<longleftrightarrow> x = y" if "length x = length y"
    using that by (induction x y rule: list_induct2) auto
  then show ?thesis by (auto simp: constant_time_compare_def fold_or_xor_zero)
qed

lemma bytes_of_string_inject [simp]: "bytes_of_string s = bytes_of_string t \<longleftrightarrow> s = t"
  by (metis string_bytes_inverse(2))

section \<open>The invariant and lookup\<close>

text \<open>The keys of the map are distinct and no name is empty (a file has a name).\<close>

definition static_inv :: "static_auth \<Rightarrow> bool" where
  "static_inv s \<longleftrightarrow> distinct (map fst (tokens s)) \<and> (\<forall>(v, n) \<in> set (tokens s). n \<noteq> [])"

definition dir_ok :: "directory \<Rightarrow> bool" where
  "dir_ok d \<longleftrightarrow> (\<forall>es. d = Some es \<longrightarrow> (\<forall>e \<in> set es. de_name e \<noteq> []))"

lemma static_inv_token [simp]: "static_inv (NewStaticToken t)"
  by (simp add: static_inv_def NewStaticToken_def)

lemma set_alist_update: "set (AList.update k v al) \<subseteq> insert (k, v) (set al)"
  by (induction al) auto

lemma load_entries_inv:
  assumes "load_entries es toks = Ok r" and "\<forall>e \<in> set es. de_name e \<noteq> []"
    and "distinct (map fst toks)" and "\<forall>(v, n) \<in> set toks. n \<noteq> []"
  shows "distinct (map fst r) \<and> (\<forall>(v, n) \<in> set r. n \<noteq> [])"
  using assms
proof (induction es toks rule: load_entries.induct)
  case (2 e es toks)
  have upd: "\<forall>(v, n) \<in> set (AList.update v0 (de_name e) toks). n \<noteq> []" for v0
    using "2.prems"(2,4) set_alist_update [of v0 "de_name e" toks] by auto
  show ?case
    using 2 upd by (auto simp: distinct_update Let_def split: if_splits option.splits)
qed simp

lemma load_entries_not_Panic: "load_entries es toks \<noteq> Panic"
  by (induction es toks rule: load_entries.induct) (simp_all add: Let_def split: option.split)

lemma static_reload_inv: "static_inv s \<Longrightarrow> dir_ok d \<Longrightarrow> static_inv (snd (static_reload d s))"
  by (auto simp: static_reload_def static_load_def static_inv_def dir_ok_def
      split: outcome.splits option.splits dest: load_entries_inv)

lemma fold_match:
  assumes "distinct (map fst ts)"
  shows "fold (\<lambda>(val, name) m. if tok = val then name else m) ts m0 =
    (case map_of ts tok of None \<Rightarrow> m0 | Some n \<Rightarrow> n)"
  using assms
proof (induction ts arbitrary: m0)
  case (Cons t ts)
  obtain v n where t: "t = (v, n)" by fastforce
  with Cons.prems have "tok = v \<Longrightarrow> map_of ts tok = None" by (auto simp: map_of_eq_None_iff)
  with Cons t show ?case by auto
qed simp

text \<open>
  The loop over the map finds the entry of the token and nothing else, in whichever order it
  visits the entries.
\<close>

lemma static_Authenticate_lookup:
  assumes "static_inv s"
  shows "static_Authenticate s tok = map_of (tokens s) tok"
proof -
  have "n \<noteq> []" if "map_of (tokens s) tok = Some n" for n
    using assms map_of_SomeD [OF that] by (auto simp: static_inv_def)
  moreover have "static_Authenticate s tok =
      (let matched = (case map_of (tokens s) tok of None \<Rightarrow> [] | Some n \<Rightarrow> n)
       in if matched \<noteq> [] then Some matched else None)"
    using assms by (simp only: static_Authenticate_def static_inv_def constant_time_compare_eq
        bytes_of_string_inject fold_match)
  ultimately show ?thesis by (auto split: option.splits)
qed

lemma static_Authenticate_nonempty: "static_Authenticate s tok = Some i \<Longrightarrow> i \<noteq> []"
  by (auto simp: static_Authenticate_def Let_def split: if_splits)

section \<open>What a directory grants\<close>

definition file_token :: "dir_entry \<Rightarrow> string option" where
  "file_token e =
     (if de_is_dir e \<or> has_prefix (de_name e) ''.'' then None
      else case de_data e of None \<Rightarrow> None
           | Some d \<Rightarrow> if trim_space d = [] then None else Some (trim_space d))"

lemma load_entries_lookup:
  assumes "load_entries es toks = Ok r"
  shows "map_of r tok =
    (case find (\<lambda>e. file_token e = Some tok) (rev es) of
       Some e \<Rightarrow> Some (de_name e) | None \<Rightarrow> map_of toks tok)"
  using assms
proof (induction es toks rule: load_entries.induct)
  case (2 e es toks)
  have find_snoc: "find P (xs @ [x]) = (case find P xs of Some y \<Rightarrow> Some y | None \<Rightarrow> if P x then Some x else None)"
    for P and xs :: "dir_entry list" and x by (induction xs) auto
  show ?case
  proof (cases "de_is_dir e \<or> has_prefix (de_name e) ''.''")
    case True
    with 2 show ?thesis by (auto simp: find_snoc file_token_def split: option.split)
  next
    case False
    with "2.prems" obtain d where d: "de_data e = Some d" by (auto split: option.splits)
    with False 2 show ?thesis
      by (auto simp: find_snoc file_token_def Let_def update_conv' split: option.split)
  qed
qed simp

text \<open>The watcher of the directory meets the contract of a reload.\<close>

definition static_source :: "static_auth \<Rightarrow> directory \<Rightarrow> (string \<times> string) list option" where
  "static_source s d = (case static_load d of Ok toks \<Rightarrow> Some toks | _ \<Rightarrow> None)"

interpretation dir: hot_reload static_reload static_source tokens
  by unfold_locales (auto simp: static_reload_def static_source_def split: outcome.splits)

interpretation static: authenticator "\<lambda>(w :: unit) tok s. (static_Authenticate s tok, s)"
  by unfold_locales (auto dest: static_Authenticate_nonempty)

lemma static_watch_inv:
  "static_inv s \<Longrightarrow> \<forall>d. TickerFired d \<in> set es \<longrightarrow> dir_ok d \<Longrightarrow> static_inv (static_watchLoop es s)"
  unfolding static_watchLoop_def
proof (induction es arbitrary: s)
  case (Cons e es)
  then show ?case by (cases e) (auto simp: static_reload_inv)
qed simp

section \<open>Properties\<close>

text \<open>C0: A directory of token files grants access to exactly the trimmed contents of its visible files:
  \<open>Authenticate\<close> returns the name of the last file, in directory order, that holds the token, and
  refuses every other token, the empty one included.\<close>

theorem static_dir_grants:
  assumes "NewStaticDir (Some es) = Ok s" and "\<forall>e \<in> set es. de_name e \<noteq> []"
  shows "static_Authenticate s tok = map_option de_name (find (\<lambda>e. file_token e = Some tok) (rev es))"
proof -
  have l: "load_entries es [] = Ok (tokens s)"
    using assms(1) load_entries_not_Panic [of es "[]"]
    by (auto simp: NewStaticDir_def static_reload_def static_load_def split: outcome.splits)
  have "static_inv s"
    using static_reload_inv [of "\<lparr>tokens = []\<rparr>" "Some es"] assms
    by (auto simp: NewStaticDir_def dir_ok_def static_inv_def split: prod.splits option.splits)
  then show ?thesis
    using load_entries_lookup [OF l, of tok] by (simp add: static_Authenticate_lookup split: option.splits)
qed

definition demo_dir :: "dir_entry list" where
  "demo_dir =
     [\<lparr>de_name = ''alice'', de_is_dir = False, de_data = Some '' s3cret ''\<rparr>,
      \<lparr>de_name = ''.hidden'', de_is_dir = False, de_data = Some ''other''\<rparr>,
      \<lparr>de_name = ''sub'', de_is_dir = True, de_data = None\<rparr>]"

lemma static_dir_grants_witness:
  "\<exists>s. NewStaticDir (Some demo_dir) = Ok s \<and> static_Authenticate s ''s3cret'' = Some ''alice'' \<and>
       static_Authenticate s ''other'' = None \<and> static_Authenticate s '''' = None"
proof -
  have n: "NewStaticDir (Some demo_dir) = Ok \<lparr>tokens = [(''s3cret'', ''alice'')]\<rparr>" by code_simp
  have "\<forall>e \<in> set demo_dir. de_name e \<noteq> []" by (simp add: demo_dir_def)
  note grants = static_dir_grants [OF n this]
  have "find (\<lambda>e. file_token e = Some ''s3cret'') (rev demo_dir) = Some (hd demo_dir)"
    "find (\<lambda>e. file_token e = Some ''other'') (rev demo_dir) = None"
    "find (\<lambda>e. file_token e = Some '''') (rev demo_dir) = None" by code_simp+
  then show ?thesis using n grants by (auto simp: demo_dir_def)
qed

text \<open>After the ticker's last reload before the stop, the tokens in force are those of the directory
  at that tick: whatever was loaded before, a token that is no longer there is refused.\<close>

lemma static_reload_replaces:
  assumes "static_load d = Ok toks" and "dir_ok d"
  shows "static_Authenticate (static_watchLoop (map TickerFired ds @ [TickerFired d, Stopped]) s) tok = map_of toks tok"
proof -
  let ?s = "static_watchLoop (map TickerFired ds @ [TickerFired d, Stopped]) s"
  have "static_source s' d = Some toks" for s' using assms(1) by (simp add: static_source_def)
  then have t: "tokens ?s = toks"
    unfolding static_watchLoop_def by (rule dir.watch_last)
  have "static_inv \<lparr>tokens = toks\<rparr>"
    using static_reload_inv [of "\<lparr>tokens = []\<rparr>" d] assms by (simp add: static_reload_def static_inv_def)
  then have "static_inv ?s" using t by (simp add: static_inv_def)
  then show ?thesis using t by (simp add: static_Authenticate_lookup)
qed

text \<open>A reload that fails (the directory or one file cannot be read) leaves the tokens in force.\<close>

lemma static_reload_failure_keeps:
  assumes "\<forall>d. TickerFired d \<in> set es \<longrightarrow> (\<forall>toks. static_load d \<noteq> Ok toks)"
  shows "static_Authenticate (static_watchLoop es s) tok = static_Authenticate s tok"
proof -
  have "\<forall>d. TickerFired d \<in> set es \<longrightarrow> static_source s d = None"
    using assms by (auto simp: static_source_def split: outcome.splits)
  then have "tokens (static_watchLoop es s) = tokens s"
    unfolding static_watchLoop_def by (rule dir.watch_failed)
  then show ?thesis by (simp add: static_Authenticate_def)
qed

end
