(* ===== verification/Go_Encoding.thy ===== *)
theory Go_Encoding
  imports Go_Base
begin

text \<open>
  Encodings of Go's standard library that the program calls: \<open>encoding/base64\<close> (the encoder of
  \<open>StdEncoding\<close>, the decoder of \<open>RawURLEncoding\<close>), \<open>big.Int.SetBytes\<close> and \<open>Int64\<close>, and the
  lines of \<open>bufio.Scanner\<close>, and \<open>utf8.ValidString\<close>.
\<close>

section \<open>Base64\<close>

definition b64_std_char :: "nat \<Rightarrow> char" where
  "b64_std_char n =
     char_of (if n < 26 then 65 + n else if n < 52 then 71 + n else if n < 62 then n - 4
              else if n = 62 then 43 else 47)"

fun b64_std_encode :: "bytes \<Rightarrow> string" where
  "b64_std_encode [] = []"
| "b64_std_encode [a] =
     (let n = 65536 * unat a
      in [b64_std_char (n div 262144), b64_std_char (n div 4096 mod 64), CHR ''='', CHR ''=''])"
| "b64_std_encode [a, b] =
     (let n = 65536 * unat a + 256 * unat b
      in [b64_std_char (n div 262144), b64_std_char (n div 4096 mod 64),
          b64_std_char (n div 64 mod 64), CHR ''=''])"
| "b64_std_encode (a # b # c # r) =
     (let n = 65536 * unat a + 256 * unat b + unat c
      in [b64_std_char (n div 262144), b64_std_char (n div 4096 mod 64),
          b64_std_char (n div 64 mod 64), b64_std_char (n mod 64)] @ b64_std_encode r)"

text \<open>The URL alphabet. The decoder skips carriage returns and newlines.\<close>

definition b64_url_val :: "char \<Rightarrow> nat option" where
  "b64_url_val c =
     (let n = of_char c :: nat
      in if 65 \<le> n \<and> n \<le> 90 then Some (n - 65)
         else if 97 \<le> n \<and> n \<le> 122 then Some (n - 71)
         else if 48 \<le> n \<and> n \<le> 57 then Some (n + 4)
         else if n = 45 then Some 62
         else if n = 95 then Some 63
         else None)"

fun b64_quads :: "nat list \<Rightarrow> bytes option" where
  "b64_quads [] = Some []"
| "b64_quads [w] = None"
| "b64_quads [w, x] = Some [of_nat (4 * w + x div 16)]"
| "b64_quads [w, x, y] = Some [of_nat (4 * w + x div 16), of_nat (16 * (x mod 16) + y div 4)]"
| "b64_quads (w # x # y # z # r) =
     map_option (\<lambda>bs. of_nat (4 * w + x div 16) # of_nat (16 * (x mod 16) + y div 4)
                       # of_nat (64 * (y mod 4) + z) # bs) (b64_quads r)"

definition b64_url_decode :: "string \<Rightarrow> bytes option" where
  "b64_url_decode s =
     (let vs = map b64_url_val (filter (\<lambda>c. c \<noteq> CHR 0x0D \<and> c \<noteq> CHR 0x0A) s)
      in if None \<in> set vs then None else b64_quads (map the vs))"

lemma length_b64_std_encode: "length (b64_std_encode bs) = 4 * ((length bs + 2) div 3)"
proof (induction bs rule: b64_std_encode.induct)
  case (4 a b c r)
  have "length (a # b # c # r) + 2 = (length r + 2) + 3" by simp
  then have "(length (a # b # c # r) + 2) div 3 = (length r + 2) div 3 + 1" by presburger
  with 4 show ?case by (simp add: Let_def)
qed (simp_all add: Let_def)

text \<open>The inverse of the alphabet on one character, and of the encoder on whole groups.\<close>

definition b64_std_val :: "char \<Rightarrow> nat" where
  "b64_std_val c =
     (let n = of_char c :: nat
      in if 65 \<le> n \<and> n \<le> 90 then n - 65
         else if 97 \<le> n \<and> n \<le> 122 then n - 71
         else if 48 \<le> n \<and> n \<le> 57 then n + 4
         else if n = 43 then 62 else 63)"

lemma of_char_b64_std_char:
  assumes "n < 64"
  shows "(of_char (b64_std_char n) :: nat) =
    (if n < 26 then 65 + n else if n < 52 then 71 + n else if n < 62 then n - 4
     else if n = 62 then 43 else 47)"
  using assms by (simp add: b64_std_char_def of_char_of)

lemma b64_std_val_char:
  assumes "n < 64"
  shows "b64_std_val (b64_std_char n) = n"
  unfolding b64_std_val_def of_char_b64_std_char [OF assms] using assms by (simp add: Let_def) linarith

lemma b64_std_char_inject: "m < 64 \<Longrightarrow> n < 64 \<Longrightarrow> b64_std_char m = b64_std_char n \<longleftrightarrow> m = n"
  by (metis b64_std_val_char)

lemma b64_std_char_not_pad:
  assumes "n < 64"
  shows "b64_std_char n \<noteq> CHR ''=''"
proof
  assume "b64_std_char n = CHR ''=''"
  then have "(of_char (b64_std_char n) :: nat) = 61" by simp
  then show False unfolding of_char_b64_std_char [OF assms] by (simp split: if_splits)
qed

text \<open>The encoding determines the bytes.\<close>

lemma sextets: "n = 262144 * (n div 262144) + 4096 * (n div 4096 mod 64) + 64 * (n div 64 mod 64) + n mod (64 :: nat)"
proof -
  have "n div 4096 div 64 = n div 262144" "n div 64 div 64 = n div 4096" by (simp_all add: div_mult2_eq [symmetric])
  then have "n div 4096 = 64 * (n div 262144) + n div 4096 mod 64" "n div 64 = 64 * (n div 4096) + n div 64 mod 64"
    "n = 64 * (n div 64) + n mod 64"
    by (metis mult_div_mod_eq)+
  then show ?thesis by linarith
qed

lemma octet_snoc:
  assumes "256 * x + y = 256 * x' + (y' :: nat)" and "y < 256" and "y' < 256"
  shows "x = x' \<and> y = y'"
proof -
  have "(256 * x + y) div 256 = x" "(256 * x' + y') div 256 = x'" using assms(2,3) by simp_all
  then show ?thesis using assms(1) by simp
qed

lemma octets:
  assumes "65536 * a + 256 * b + c = 65536 * a' + 256 * b' + (c' :: nat)"
    and "b < 256" "c < 256" "b' < 256" "c' < 256"
  shows "a = a' \<and> b = b' \<and> c = c'"
proof -
  have "256 * (256 * a + b) + c = 256 * (256 * a' + b') + c'" using assms(1) by simp
  then have "256 * a + b = 256 * a' + b'" "c = c'" using octet_snoc assms(3,5) by blast+
  then show ?thesis using octet_snoc assms(2,4) by blast
qed

definition word24 :: "byte \<Rightarrow> byte \<Rightarrow> byte \<Rightarrow> nat" where
  "word24 a b c = 65536 * unat a + 256 * unat b + unat c"

lemma byte_less: "unat (a :: byte) < 256"
  using unsigned_less [of a] by simp

lemma word24_less: "word24 a b c < 16777216"
  using byte_less [of a] byte_less [of b] byte_less [of c] by (simp add: word24_def)

lemma word24_inject: "word24 a b c = word24 a' b' c' \<longleftrightarrow> a = a' \<and> b = b' \<and> c = c'"
proof
  assume "word24 a b c = word24 a' b' c'"
  then show "a = a' \<and> b = b' \<and> c = c'"
    unfolding word24_def using octets [OF _ byte_less byte_less byte_less byte_less] word_unat_eq_iff by metis
qed simp

lemma quad_inject:
  assumes "b64_std_char (m div 262144) = b64_std_char (n div 262144)"
    and "b64_std_char (m div 4096 mod 64) = b64_std_char (n div 4096 mod 64)"
    and "b64_std_char (m div 64 mod 64) = b64_std_char (n div 64 mod 64)"
    and "b64_std_char (m mod 64) = b64_std_char (n mod 64)" and "m < 16777216" and "n < 16777216"
  shows "m = n"
proof -
  have "m div 262144 = n div 262144" "m div 4096 mod 64 = n div 4096 mod 64"
    "m div 64 mod 64 = n div 64 mod 64" "m mod 64 = n mod 64"
    using assms by (simp_all add: b64_std_char_inject)
  then show ?thesis using sextets [of m] sextets [of n] by simp
qed


lemma b64_std_encode_words:
  "b64_std_encode [a] =
     [b64_std_char (word24 a 0 0 div 262144), b64_std_char (word24 a 0 0 div 4096 mod 64), CHR ''='', CHR ''='']"
  "b64_std_encode [a, b] =
     [b64_std_char (word24 a b 0 div 262144), b64_std_char (word24 a b 0 div 4096 mod 64),
      b64_std_char (word24 a b 0 div 64 mod 64), CHR ''='']"
  "b64_std_encode (a # b # c # r) =
     [b64_std_char (word24 a b c div 262144), b64_std_char (word24 a b c div 4096 mod 64),
      b64_std_char (word24 a b c div 64 mod 64), b64_std_char (word24 a b c mod 64)] @ b64_std_encode r"
  by (simp_all add: word24_def Let_def)

lemma word24_low: "word24 a 0 0 div 64 mod 64 = 0" "word24 a b 0 mod 64 = 0" "word24 a 0 0 mod 64 = 0"
proof -
  have "word24 a b 0 = 64 * (1024 * unat a + 4 * unat b)" for b by (simp add: word24_def)
  moreover have "word24 a 0 0 = 64 * (64 * (16 * unat a))" by (simp add: word24_def)
  ultimately show "word24 a 0 0 div 64 mod 64 = 0" "word24 a b 0 mod 64 = 0" "word24 a 0 0 mod 64 = 0"
    by (metis mult_mod_right mod_mult_self1_is_0 nonzero_mult_div_cancel_left zero_neq_numeral)+
qed

lemma not_pad: "n < 64 \<Longrightarrow> b64_std_char n = CHR ''='' \<longleftrightarrow> False" "n < 64 \<Longrightarrow> CHR ''='' = b64_std_char n \<longleftrightarrow> False"
  using b64_std_char_not_pad by metis+

declare b64_std_encode.simps(2-) [simp del]

lemma word24_quad:
  assumes "b64_std_char (word24 a b c div 262144) = b64_std_char (word24 a' b' c' div 262144)"
    and "b64_std_char (word24 a b c div 4096 mod 64) = b64_std_char (word24 a' b' c' div 4096 mod 64)"
    and "b64_std_char (word24 a b c div 64 mod 64) = b64_std_char (word24 a' b' c' div 64 mod 64)"
    and "b64_std_char (word24 a b c mod 64) = b64_std_char (word24 a' b' c' mod 64)"
  shows "a = a' \<and> b = b' \<and> c = c'"
  using quad_inject [OF assms word24_less word24_less] by (simp only: word24_inject)

lemma b64_std_encode_inject: "b64_std_encode xs = b64_std_encode ys \<Longrightarrow> xs = ys"
proof (induction xs arbitrary: ys rule: b64_std_encode.induct)
  case 1
  then show ?case by (cases ys rule: b64_std_encode.cases) (simp_all add: b64_std_encode_words)
next
  case (2 a)
  show ?case
  proof (cases ys rule: b64_std_encode.cases)
    case [simp]: (2 a')
    show ?thesis using "2.prems" word24_quad [of a 0 0 a' 0 0] by (simp add: b64_std_encode_words word24_low)
  qed (use 2 in \<open>simp_all add: b64_std_encode_words not_pad\<close>)
next
  case (3 a b)
  show ?case
  proof (cases ys rule: b64_std_encode.cases)
    case [simp]: (3 a' b')
    show ?thesis using "3.prems" word24_quad [of a b 0 a' b' 0] by (simp add: b64_std_encode_words word24_low)
  qed (use 3 in \<open>simp_all add: b64_std_encode_words not_pad\<close>)
next
  case (4 a b c r)
  show ?case
  proof (cases ys rule: b64_std_encode.cases)
    case [simp]: (4 a' b' c' r')
    show ?thesis using "4.prems" "4.IH" [OF refl, of r'] word24_quad [of a b c a' b' c'] by (simp add: b64_std_encode_words)
  qed (use 4 in \<open>simp_all add: b64_std_encode_words not_pad\<close>)
qed

section \<open>Integers\<close>

definition set_bytes :: "bytes \<Rightarrow> nat" where
  "set_bytes = foldl (\<lambda>a b. 256 * a + unat b) 0"

text \<open>\<open>Int64\<close>: the low 64 bits in two's complement.\<close>

definition big_int64 :: "nat \<Rightarrow> int" where
  "big_int64 n = sint (of_nat n :: 64 word)"

lemma set_bytes_snoc [simp]: "set_bytes (bs @ [b]) = 256 * set_bytes bs + unat b"
  by (simp add: set_bytes_def)

lemma set_bytes_less: "set_bytes bs < 256 ^ length bs"
proof (induction bs rule: rev_induct)
  case (snoc b bs)
  have "unat b < 256" using unsigned_less [of b] by simp
  with snoc show ?case by simp
qed (simp add: set_bytes_def)

section \<open>Lines of a file\<close>

text \<open>
  \<open>bufio.Scanner\<close> with its default limit: a line of 65536 bytes or more is an error. The last
  line needs no newline; a carriage return before the newline is dropped.
\<close>

definition drop_cr :: "string \<Rightarrow> string" where
  "drop_cr s = trim_suffix s [CHR 0x0D]"

definition raw_lines :: "string \<Rightarrow> string list" where
  "raw_lines s =
     (let ls = split_on (CHR 0x0A) s in if last ls = [] then butlast ls else ls)"

definition scan_lines :: "string \<Rightarrow> string list option" where
  "scan_lines s =
     (if \<exists>l \<in> set (raw_lines s). length l \<ge> 65536 then None else Some (map drop_cr (raw_lines s)))"

section \<open>Valid UTF-8\<close>

text \<open>
  \<open>utf8.ValidString\<close>: no overlong form, no surrogate half and nothing above \<open>U+10FFFF\<close>.
\<close>

definition byte_within :: "nat \<Rightarrow> nat \<Rightarrow> char \<Rightarrow> bool" where
  "byte_within lo hi c \<longleftrightarrow> lo \<le> of_char c \<and> of_char c \<le> hi"

fun valid_utf8 :: "string \<Rightarrow> bool" where
  "valid_utf8 [] \<longleftrightarrow> True"
| "valid_utf8 (a # r) \<longleftrightarrow>
     (let n = of_char a :: nat
      in if n < 0x80 then valid_utf8 r
         else if n < 0xC2 \<or> 0xF4 < n then False
         else if n \<le> 0xDF then
           (case r of b # r' \<Rightarrow> byte_within 0x80 0xBF b \<and> valid_utf8 r' | _ \<Rightarrow> False)
         else if n \<le> 0xEF then
           (case r of b # c # r' \<Rightarrow>
                byte_within (if n = 0xE0 then 0xA0 else 0x80) (if n = 0xED then 0x9F else 0xBF) b \<and>
                byte_within 0x80 0xBF c \<and> valid_utf8 r'
            | _ \<Rightarrow> False)
         else
           (case r of b # c # d # r' \<Rightarrow>
                byte_within (if n = 0xF0 then 0x90 else 0x80) (if n = 0xF4 then 0x8F else 0xBF) b \<and>
                byte_within 0x80 0xBF c \<and> byte_within 0x80 0xBF d \<and> valid_utf8 r'
            | _ \<Rightarrow> False))"

lemma valid_utf8_ascii: "list_all (\<lambda>c. of_char c < (128 :: nat)) s \<Longrightarrow> valid_utf8 s"
  by (induction s) simp_all

end
