(* ===== verification/Auth_JWT.thy ===== *)
theory Auth_JWT
  imports Auth_Base Go_Encoding
begin

text \<open>
  \<open>internal/auth/jwt.go\<close> and \<open>internal/auth/issuer.go\<close>: the authenticator for tokens of the
  built-in issuer with its revocation list, the choice of the key function from a key file, and
  \<open>IssueToken\<close> and \<open>VerifyToken\<close>. The JWT library and the key parsers are the arguments \<open>lib\<close>
  and \<open>x\<close>.
\<close>

section \<open>Key functions\<close>

definition rsaKeyFunc :: "rsa_public \<Rightarrow> keyfunc" where
  "rsaKeyFunc pub t =
     (if tok_method t = MethodRSA then Ok (VerifyRSA pub) else Err (UnexpectedMethod (tok_alg t)))"

definition ecdsaKeyFunc :: "ec_public \<Rightarrow> keyfunc" where
  "ecdsaKeyFunc pub t =
     (if tok_method t = MethodECDSA then Ok (VerifyEC pub) else Err (UnexpectedMethod (tok_alg t)))"

definition secretKeyFunc :: "bytes \<Rightarrow> keyfunc" where
  "secretKeyFunc secret t = Ok (SecretKey secret)"

datatype key_error =
    KeyFileUnreadable | UnsupportedPEM string | NoPEMBlock | NotRSA | NotECDSA | UnparsableKey
  | UnsupportedAlgorithm string | SigningFailed

fun first_some :: "'a option list \<Rightarrow> 'a option" where
  "first_some [] = None"
| "first_some (Some x # xs) = Some x"
| "first_some (None # xs) = first_some xs"

definition public_keyfunc :: "public_key \<Rightarrow> keyfunc option" where
  "public_keyfunc k =
     (case k of RSAPublic p \<Rightarrow> Some (rsaKeyFunc p) | ECPublic p \<Rightarrow> Some (ecdsaKeyFunc p) | OtherPublic \<Rightarrow> None)"

definition private_keyfunc :: "private_key \<Rightarrow> keyfunc option" where
  "private_keyfunc k =
     (case k of RSAPrivate p \<Rightarrow> Some (rsaKeyFunc (rsa_public_part p))
              | ECPrivate p \<Rightarrow> Some (ecdsaKeyFunc (ec_public_part p)) | OtherPrivate \<Rightarrow> None)"

text \<open>\<open>buildKeyFunc\<close>: the parsers are tried in the order of the code; the first key counts.\<close>

definition buildKeyFunc :: "x509_lib \<Rightarrow> string \<Rightarrow> (key_error, keyfunc) outcome" where
  "buildKeyFunc x keyData =
     (case pem_decode x keyData of
        None \<Rightarrow> Ok (secretKeyFunc (bytes_of_string (trim_space keyData)))
      | Some (block_type, b) \<Rightarrow>
          (case first_some
                  [map_option rsaKeyFunc (parse_pkcs1_public x b),
                   Option.bind (parse_pkix_public x b) public_keyfunc,
                   map_option (\<lambda>k. rsaKeyFunc (rsa_public_part k)) (parse_pkcs1_private x b),
                   Option.bind (parse_pkcs8_private x b) private_keyfunc,
                   map_option (\<lambda>k. ecdsaKeyFunc (ec_public_part k)) (parse_ec_private x b)] of
             Some kf \<Rightarrow> Ok kf
           | None \<Rightarrow> Err (UnsupportedPEM block_type)))"

section \<open>The authenticator\<close>

record jwt_auth =
  ja_keyFunc :: keyfunc
  ja_revokeFile :: string
  ja_revoked :: "string set"

text \<open>The revocation file as \<open>os.Open\<close> and the scanner see it.\<close>

datatype file_state = FileMissing | FileUnreadable | FileData string

datatype revoke_error = OpenFailed | ScanFailed

definition revoked_of_lines :: "string list \<Rightarrow> string set" where
  "revoked_of_lines ls =
     set (filter (\<lambda>l. l \<noteq> [] \<and> \<not> has_prefix l ''#'') (map trim_space ls))"

definition loadRevocations :: "file_state \<Rightarrow> jwt_auth \<Rightarrow> revoke_error option \<times> jwt_auth" where
  "loadRevocations f a =
     (case f of
        FileMissing \<Rightarrow> (None, a)
      | FileUnreadable \<Rightarrow> (Some OpenFailed, a)
      | FileData d \<Rightarrow>
          (case scan_lines d of
             None \<Rightarrow> (Some ScanFailed, a)
           | Some ls \<Rightarrow> (None, a\<lparr>ja_revoked := revoked_of_lines ls\<rparr>)))"

datatype new_jwt_error = KeyError key_error | RevocationError revoke_error

definition NewJWTAuthenticator ::
    "x509_lib \<Rightarrow> string option \<Rightarrow> string \<Rightarrow> file_state \<Rightarrow> (new_jwt_error, jwt_auth) outcome" where
  "NewJWTAuthenticator x key_file revokeFile rf =
     (case key_file of
        None \<Rightarrow> Err (KeyError KeyFileUnreadable)
      | Some keyData \<Rightarrow>
          (case buildKeyFunc x keyData of
             Err e \<Rightarrow> Err (KeyError e)
           | Panic \<Rightarrow> Panic
           | Ok kf \<Rightarrow>
               let a = \<lparr>ja_keyFunc = kf, ja_revokeFile = revokeFile, ja_revoked = {}\<rparr>
               in if revokeFile \<noteq> [] then
                    (case loadRevocations rf a of
                       (Some e, _) \<Rightarrow> Err (RevocationError e)
                     | (None, a') \<Rightarrow> Ok a')
                  else Ok a))"

definition watchRevocations :: "file_state watch_event list \<Rightarrow> jwt_auth \<Rightarrow> jwt_auth" where
  "watchRevocations = watch loadRevocations"

definition jwt_revoked :: "jwt_auth \<Rightarrow> string \<Rightarrow> string \<Rightarrow> bool" where
  "jwt_revoked a sub jti \<longleftrightarrow> sub \<in> ja_revoked a \<or> jti \<noteq> [] \<and> jti \<in> ja_revoked a"

definition jwt_Authenticate :: "jwt_lib \<Rightarrow> jwt_auth \<Rightarrow> string \<Rightarrow> string option" where
  "jwt_Authenticate lib a tokenStr =
     (case jl_parse lib tokenStr (ja_keyFunc a) (Some valid_methods) of
        None \<Rightarrow> None
      | Some (valid, claims) \<Rightarrow>
          if \<not> valid then None
          else if jl_issuer lib claims \<noteq> ''longsocks'' then None
          else
            let sub = jl_subject lib claims
            in if sub = [] then None
               else if ja_revokeFile a \<noteq> [] \<and> jwt_revoked a sub (fst (claim_string claims ''jti''))
               then None
               else Some sub)"

section \<open>The issuer\<close>

definition parseRSAPrivateKey :: "x509_lib \<Rightarrow> string \<Rightarrow> (key_error, rsa_private) outcome" where
  "parseRSAPrivateKey x data =
     (case pem_decode x data of
        None \<Rightarrow> Err NoPEMBlock
      | Some (_, b) \<Rightarrow>
          (case parse_pkcs1_private x b of
             Some k \<Rightarrow> Ok k
           | None \<Rightarrow>
               (case parse_pkcs8_private x b of
                  Some (RSAPrivate k) \<Rightarrow> Ok k
                | Some _ \<Rightarrow> Err NotRSA
                | None \<Rightarrow> Err UnparsableKey)))"

definition parseECPrivateKey :: "x509_lib \<Rightarrow> string \<Rightarrow> (key_error, ec_private) outcome" where
  "parseECPrivateKey x data =
     (case pem_decode x data of
        None \<Rightarrow> Err NoPEMBlock
      | Some (_, b) \<Rightarrow>
          (case parse_ec_private x b of
             Some k \<Rightarrow> Ok k
           | None \<Rightarrow>
               (case parse_pkcs8_private x b of
                  Some (ECPrivate k) \<Rightarrow> Ok k
                | Some _ \<Rightarrow> Err NotECDSA
                | None \<Rightarrow> Err UnparsableKey)))"

text \<open>\<open>now\<close> and \<open>expires\<close> are in nanoseconds; \<open>Time.Unix\<close> is the floor in seconds.\<close>

definition unix_seconds :: "int \<Rightarrow> int" where
  "unix_seconds t = t div 1000000000"

definition issue_claims :: "string \<Rightarrow> int \<Rightarrow> int \<Rightarrow> string \<Rightarrow> claims" where
  "issue_claims name now expires uuid =
     [''sub'' \<mapsto> JStr name, ''iss'' \<mapsto> JStr ''longsocks'', ''iat'' \<mapsto> JNum (unix_seconds now),
      ''exp'' \<mapsto> JNum (unix_seconds (now + expires)), ''jti'' \<mapsto> JStr uuid]"

definition select_signer :: "x509_lib \<Rightarrow> string \<Rightarrow> string \<Rightarrow> (key_error, signing_method \<times> signing_key) outcome" where
  "select_signer x algorithm keyData =
     (let alg = to_lower algorithm
      in if alg = ''hs256'' \<or> alg = [] then Ok (SignHS256, SignSecret (bytes_of_string (trim_space keyData)))
         else if alg = ''rs256'' then obind (parseRSAPrivateKey x keyData) (\<lambda>k. Ok (SignRS256, SignRSA k))
         else if alg = ''es256'' then obind (parseECPrivateKey x keyData) (\<lambda>k. Ok (SignES256, SignEC k))
         else Err (UnsupportedAlgorithm algorithm))"

definition IssueToken ::
    "jwt_lib \<Rightarrow> x509_lib \<Rightarrow> string option \<Rightarrow> string \<Rightarrow> int \<Rightarrow> string \<Rightarrow> int \<Rightarrow> string \<Rightarrow> (key_error, string) outcome" where
  "IssueToken lib x key_file name expires algorithm now uuid =
     (case key_file of
        None \<Rightarrow> Err KeyFileUnreadable
      | Some keyData \<Rightarrow>
          obind (select_signer x algorithm keyData) (\<lambda>(meth, key).
            case jl_sign lib meth (issue_claims name now expires uuid) key of
              None \<Rightarrow> Err SigningFailed
            | Some t \<Rightarrow> Ok t))"

datatype verify_error = VerifyKeyError key_error | InvalidToken | ValidationFailed

definition VerifyToken ::
    "jwt_lib \<Rightarrow> x509_lib \<Rightarrow> string option \<Rightarrow> string \<Rightarrow> (verify_error, claims) outcome" where
  "VerifyToken lib x key_file tokenStr =
     (case key_file of
        None \<Rightarrow> Err (VerifyKeyError KeyFileUnreadable)
      | Some keyData \<Rightarrow>
          (case buildKeyFunc x keyData of
             Err e \<Rightarrow> Err (VerifyKeyError e)
           | Panic \<Rightarrow> Panic
           | Ok kf \<Rightarrow>
               (case jl_parse lib tokenStr kf (Some valid_methods) of
                  None \<Rightarrow> Err InvalidToken
                | Some (valid, claims) \<Rightarrow> if valid then Ok claims else Err ValidationFailed)))"

section \<open>Facts about key functions\<close>

text \<open>A key function that only ever returns a public key, and only for its own kind of method.\<close>

definition asymmetric :: "keyfunc \<Rightarrow> bool" where
  "asymmetric kf \<longleftrightarrow>
     (\<forall>t k. kf t = Ok k \<longrightarrow>
        tok_method t = MethodRSA \<and> (\<exists>p. k = VerifyRSA p) \<or>
        tok_method t = MethodECDSA \<and> (\<exists>p. k = VerifyEC p))"

lemma asymmetric_keyfuncs [simp]: "asymmetric (rsaKeyFunc p)" "asymmetric (ecdsaKeyFunc q)"
  by (auto simp: asymmetric_def rsaKeyFunc_def ecdsaKeyFunc_def)

lemma first_some_mem: "first_some xs = Some x \<Longrightarrow> Some x \<in> set xs"
  by (induction xs rule: first_some.induct) auto

lemma public_keyfunc_asymmetric: "public_keyfunc k = Some kf \<Longrightarrow> asymmetric kf"
  by (auto simp: public_keyfunc_def split: public_key.splits)

lemma private_keyfunc_asymmetric: "private_keyfunc k = Some kf \<Longrightarrow> asymmetric kf"
  by (auto simp: private_keyfunc_def split: private_key.splits)

lemma bind_SomeD: "Option.bind m f = Some y \<Longrightarrow> \<exists>x. m = Some x \<and> f x = Some y"
  by (cases m) auto

lemma map_option_SomeD: "Some y = map_option f m \<Longrightarrow> \<exists>x. m = Some x \<and> y = f x"
  by (cases m) auto

lemma buildKeyFunc_pem:
  assumes "buildKeyFunc x d = Ok kf" and "pem_decode x d = Some blk"
  shows "asymmetric kf"
proof -
  obtain ty b where blk: "blk = (ty, b)" by fastforce
  from assms blk have "first_some
                  [map_option rsaKeyFunc (parse_pkcs1_public x b),
                   Option.bind (parse_pkix_public x b) public_keyfunc,
                   map_option (\<lambda>k. rsaKeyFunc (rsa_public_part k)) (parse_pkcs1_private x b),
                   Option.bind (parse_pkcs8_private x b) private_keyfunc,
                   map_option (\<lambda>k. ecdsaKeyFunc (ec_public_part k)) (parse_ec_private x b)] = Some kf"
    by (auto simp: buildKeyFunc_def split: option.splits)
  from first_some_mem [OF this] show ?thesis
    by (auto dest!: bind_SomeD [OF sym] map_option_SomeD public_keyfunc_asymmetric
        private_keyfunc_asymmetric)
qed

lemma buildKeyFunc_secret:
  "pem_decode x d = None \<Longrightarrow> buildKeyFunc x d = Ok (secretKeyFunc (bytes_of_string (trim_space d)))"
  by (simp add: buildKeyFunc_def)

lemma asymmetric_HMAC: "asymmetric kf \<Longrightarrow> tok_method t = MethodHMAC \<Longrightarrow> kf t \<noteq> Ok k"
  unfolding asymmetric_def by (metis method_type.distinct(1) method_type.distinct(5))

section \<open>Facts about Authenticate\<close>

lemma jwt_Authenticate_iff:
  "jwt_Authenticate lib a tok = Some i \<longleftrightarrow>
     (\<exists>c. jl_parse lib tok (ja_keyFunc a) (Some valid_methods) = Some (True, c) \<and>
          jl_issuer lib c = ''longsocks'' \<and> jl_subject lib c = i \<and> i \<noteq> [] \<and>
          \<not> (ja_revokeFile a \<noteq> [] \<and> jwt_revoked a i (fst (claim_string c ''jti''))))"
  by (auto simp: jwt_Authenticate_def Let_def split: option.splits prod.splits if_splits)

interpretation jwt: authenticator "\<lambda>lib tok a. (jwt_Authenticate lib a tok, a)"
  by unfold_locales (auto simp: jwt_Authenticate_iff)

text \<open>The watcher of the revocation file. A missing file counts as nothing to install.\<close>

definition revoke_source :: "jwt_auth \<Rightarrow> file_state \<Rightarrow> string set option" where
  "revoke_source a f = (case f of FileData d \<Rightarrow> map_option revoked_of_lines (scan_lines d) | _ \<Rightarrow> None)"

interpretation rev: hot_reload loadRevocations revoke_source ja_revoked
  by unfold_locales
    (auto simp: loadRevocations_def revoke_source_def split: file_state.splits option.splits)

lemma loadRevocations_frame [simp]:
  "ja_keyFunc (snd (loadRevocations f a)) = ja_keyFunc a"
  "ja_revokeFile (snd (loadRevocations f a)) = ja_revokeFile a"
  by (simp_all add: loadRevocations_def split: file_state.split option.split)

lemma loadRevocations_frameD: "loadRevocations f a = (r, a') \<Longrightarrow> ja_keyFunc a' = ja_keyFunc a"
  by (metis loadRevocations_frame(1) snd_conv)

section \<open>What the code relies on in the JWT library\<close>

text \<open>
  Documented behaviour of golang-jwt for HS256 at time \<open>now\<close> (in seconds): a token signed with a
  secret, when the key function returns the same secret for its header and HS256 is among the valid
  methods, is accepted with its claims before the time of its \<open>exp\<close> claim and refused from then on; and
  the getters read the string claims they are named after.
\<close>

definition hs256_header :: jwt_token where
  "hs256_header = \<lparr>tok_method = MethodHMAC, tok_alg = ''HS256'', tok_kid = None\<rparr>"

definition lib_hs256 :: "jwt_lib \<Rightarrow> int \<Rightarrow> bool" where
  "lib_hs256 lib now \<longleftrightarrow>
     (\<forall>c k t kf ms e.
        jl_sign lib SignHS256 c (SignSecret k) = Some t \<longrightarrow> kf hs256_header = Ok (SecretKey k) \<longrightarrow>
        ''HS256'' \<in> set ms \<longrightarrow> c ''exp'' = Some (JNum e) \<longrightarrow>
        jl_parse lib t kf (Some ms) = (if now < e then Some (True, c) else None)) \<and>
     (\<forall>c. jl_issuer lib c = fst (claim_string c ''iss'')) \<and>
     (\<forall>c. jl_subject lib c = fst (claim_string c ''sub''))"

text \<open>A token whose key function refuses its header is not accepted.\<close>

definition lib_needs_key :: "jwt_lib \<Rightarrow> bool" where
  "lib_needs_key lib \<longleftrightarrow>
     (\<forall>c k t kf ms. jl_sign lib SignHS256 c (SignSecret k) = Some t \<longrightarrow>
        (\<forall>vk. kf hs256_header \<noteq> Ok vk) \<longrightarrow> jl_parse lib t kf ms = None)"

lemma issue_claims_simps [simp]:
  "issue_claims n t e u ''exp'' = Some (JNum (unix_seconds (t + e)))"
  "fst (claim_string (issue_claims n t e u) ''iss'') = ''longsocks''"
  "fst (claim_string (issue_claims n t e u) ''sub'') = n"
  "fst (claim_string (issue_claims n t e u) ''jti'') = u"
  by (simp_all add: issue_claims_def claim_string_def)

lemma issue_parse_hs256:
  assumes "lib_hs256 lib now'" and "pem_decode x key = None"
    and "IssueToken lib x (Some key) name expires alg now uuid = Ok t"
    and "to_lower alg \<in> {''hs256'', []}" and "buildKeyFunc x key = Ok kf"
  shows "jl_parse lib t kf (Some valid_methods) =
    (if now' < unix_seconds (now + expires) then Some (True, issue_claims name now expires uuid) else None)"
proof -
  let ?k = "bytes_of_string (trim_space key)"
  have sign: "jl_sign lib SignHS256 (issue_claims name now expires uuid) (SignSecret ?k) = Some t"
    using assms(3,4) by (auto simp: IssueToken_def select_signer_def split: option.splits)
  have "kf hs256_header = Ok (SecretKey ?k)"
    using assms(2,5) by (auto simp: buildKeyFunc_secret secretKeyFunc_def)
  moreover have "''HS256'' \<in> set valid_methods" by (simp add: valid_methods_def)
  ultimately show ?thesis
    using sign assms(1) issue_claims_simps(1) unfolding lib_hs256_def by blast
qed

section \<open>Properties\<close>

text \<open>C25: With a key file in PEM format the key function never hands out a symmetric secret: it yields an
  RSA key for RSA tokens only and an ECDSA key for ECDSA tokens only, so a token signed with the
  public key as an HMAC secret is refused.\<close>

theorem pem_key_asymmetric:
  assumes "buildKeyFunc x d = Ok kf" and "pem_decode x d = Some blk" and "kf t = Ok k"
  shows "tok_method t = MethodRSA \<and> (\<exists>p. k = VerifyRSA p) \<or> tok_method t = MethodECDSA \<and> (\<exists>p. k = VerifyEC p)"
  using buildKeyFunc_pem [OF assms(1,2)] assms(3) unfolding asymmetric_def by blast

definition demo_x509 :: x509_lib where
  "demo_x509 =
     \<lparr>pem_decode = (\<lambda>d. if has_prefix d ''-----BEGIN'' then Some (''PUBLIC KEY'', []) else None),
      parse_pkcs1_public = (\<lambda>_. None),
      parse_pkix_public = (\<lambda>_. Some (RSAPublic \<lparr>rsa_n = 33, rsa_e = 3\<rparr>)),
      parse_pkcs1_private = (\<lambda>_. None), parse_pkcs8_private = (\<lambda>_. None), parse_ec_private = (\<lambda>_. None)\<rparr>"

definition demo_pem :: string where
  "demo_pem = ''-----BEGIN PUBLIC KEY-----''"

lemma demo_pem_keyfunc: "buildKeyFunc demo_x509 demo_pem = Ok (rsaKeyFunc \<lparr>rsa_n = 33, rsa_e = 3\<rparr>)"
  by (simp add: buildKeyFunc_def demo_x509_def demo_pem_def public_keyfunc_def)

lemma pem_key_asymmetric_witness:
  "\<exists>k. rsaKeyFunc \<lparr>rsa_n = 33, rsa_e = 3\<rparr> \<lparr>tok_method = MethodRSA, tok_alg = ''RS256'', tok_kid = None\<rparr> = Ok k \<and>
       (\<exists>p. k = VerifyRSA p)"
  using pem_key_asymmetric [OF demo_pem_keyfunc, of "(''PUBLIC KEY'', [])"
      "\<lparr>tok_method = MethodRSA, tok_alg = ''RS256'', tok_kid = None\<rparr>"]
  by (simp add: rsaKeyFunc_def demo_x509_def demo_pem_def)

text \<open>C26: Once the revocation file has been read, a token of the issuer is accepted exactly when it
  verifies, its issuer is longsocks, its subject is not empty, and neither its subject nor its jti is
  among the trimmed lines of the file that are not empty and not comments.\<close>

theorem jwt_after_revocation:
  assumes "scan_lines d = Some ls" and "ja_revokeFile a \<noteq> []"
  shows "(jwt_Authenticate lib (snd (loadRevocations (FileData d) a)) tok = Some i) =
    (\<exists>c. jl_parse lib tok (ja_keyFunc a) (Some valid_methods) = Some (True, c) \<and>
         jl_issuer lib c = ''longsocks'' \<and> jl_subject lib c = i \<and> i \<noteq> [] \<and>
         \<not> (\<exists>l \<in> set ls. trim_space l \<noteq> [] \<and> \<not> has_prefix (trim_space l) ''#'' \<and>
              trim_space l \<in> {i, fst (claim_string c ''jti'')}))"
proof -
  have "ja_revoked (snd (loadRevocations (FileData d) a)) = revoked_of_lines ls"
    using assms(1) by (simp add: loadRevocations_def)
  then have r: "jwt_revoked (snd (loadRevocations (FileData d) a)) i j =
      (\<exists>l \<in> set ls. trim_space l \<noteq> [] \<and> \<not> has_prefix (trim_space l) ''#'' \<and> trim_space l \<in> {i, j})"
    if "i \<noteq> []" for j
    using that by (auto simp: jwt_revoked_def revoked_of_lines_def)
  show ?thesis
    unfolding jwt_Authenticate_iff using assms(2) by (simp add: r cong: conj_cong)
qed

text \<open>A library that knows one token: it signs one set of claims with one secret.\<close>

definition demo_claims :: claims where
  "demo_claims = issue_claims ''alice'' 0 3600000000000 ''id-1''"

definition demo_lib :: jwt_lib where
  "demo_lib =
     \<lparr>jl_parse = (\<lambda>t kf ms. if t = ''tok'' \<and> kf hs256_header = Ok (SecretKey (bytes_of_string ''k3y''))
                            then Some (True, demo_claims) else None),
      jl_issuer = (\<lambda>c. fst (claim_string c ''iss'')),
      jl_subject = (\<lambda>c. fst (claim_string c ''sub'')),
      jl_audience = (\<lambda>c. []),
      jl_sign = (\<lambda>m c k. if m = SignHS256 \<and> c = demo_claims \<and> k = SignSecret (bytes_of_string ''k3y'')
                         then Some ''tok'' else None)\<rparr>"

definition demo_jwt :: jwt_auth where
  "demo_jwt = \<lparr>ja_keyFunc = secretKeyFunc (bytes_of_string ''k3y''), ja_revokeFile = ''revoked'', ja_revoked = {}\<rparr>"

lemma demo_claim_strings:
  "fst (claim_string demo_claims ''iss'') = ''longsocks''" "fst (claim_string demo_claims ''sub'') = ''alice''"
  "fst (claim_string demo_claims ''jti'') = ''id-1''"
  by (simp_all add: demo_claims_def)

lemma demo_parse: "jl_parse demo_lib ''tok'' (ja_keyFunc demo_jwt) ms = Some (True, demo_claims)"
  by (simp add: demo_lib_def demo_jwt_def secretKeyFunc_def)

lemma demo_getters:
  "jl_issuer demo_lib demo_claims = ''longsocks''" "jl_subject demo_lib demo_claims = ''alice''"
  by (simp_all add: demo_lib_def demo_claim_strings)

lemma jwt_after_revocation_witness:
  "jwt_Authenticate demo_lib (snd (loadRevocations (FileData ''bob'') demo_jwt)) ''tok'' = Some ''alice'' \<and>
   jwt_Authenticate demo_lib (snd (loadRevocations (FileData '' id-1 '') demo_jwt)) ''tok'' \<noteq> Some ''alice''"
proof -
  have l: "scan_lines ''bob'' = Some [''bob'']" "scan_lines '' id-1 '' = Some ['' id-1 '']"
    by (simp_all add: scan_lines_def raw_lines_def drop_cr_def trim_suffix_def has_suffix_def)
  have t: "trim_space ''bob'' = ''bob''" "trim_space '' id-1 '' = ''id-1''" by code_simp+
  have r: "ja_revokeFile demo_jwt \<noteq> []" by (simp add: demo_jwt_def)
  note simps = demo_parse demo_getters demo_claim_strings t
  show ?thesis
    unfolding jwt_after_revocation [OF l(1) r] jwt_after_revocation [OF l(2) r] by (simp add: simps)
qed

text \<open>A token that \<open>IssueToken\<close> signs with HS256 (the default) and a secret in a file is accepted by the
  authenticator built from the same file exactly until it expires, as the name it was issued for, unless the
  name or the token's id is revoked; and \<open>VerifyToken\<close> shows the claims it was issued with until then. The
  library is assumed to verify what it signed.\<close>

lemma issued_token_accepted:
  assumes "lib_hs256 lib now'" and "pem_decode x key = None" and "name \<noteq> []"
    and "IssueToken lib x (Some key) name expires alg now uuid = Ok t"
    and "to_lower alg \<in> {''hs256'', []}"
    and "NewJWTAuthenticator x (Some key) revokeFile rf = Ok a"
  shows "jwt_Authenticate lib a t =
      (if now' < unix_seconds (now + expires) \<and> \<not> (ja_revokeFile a \<noteq> [] \<and> jwt_revoked a name uuid)
       then Some name else None) \<and>
    VerifyToken lib x (Some key) t =
      (if now' < unix_seconds (now + expires) then Ok (issue_claims name now expires uuid) else Err InvalidToken)"
proof -
  let ?kf = "secretKeyFunc (bytes_of_string (trim_space key))"
  have kf: "buildKeyFunc x key = Ok ?kf" by (rule buildKeyFunc_secret [OF assms(2)])
  note parse = issue_parse_hs256 [OF assms(1,2,4,5) kf]
  have "ja_keyFunc a = ?kf"
    using assms(6)
    by (auto simp: NewJWTAuthenticator_def kf Let_def dest: loadRevocations_frameD
        split: if_splits prod.splits option.splits)
  moreover have "jl_issuer lib c = fst (claim_string c ''iss'')" "jl_subject lib c = fst (claim_string c ''sub'')" for c
    using assms(1) by (simp_all add: lib_hs256_def)
  ultimately show ?thesis
    using parse assms(3) by (simp add: jwt_Authenticate_def VerifyToken_def kf)
qed

text \<open>With a PEM key file the default algorithm still signs, with the file's text as an HMAC secret, and
  the token that comes out is refused by \<open>VerifyToken\<close> and by the authenticator of the same file.\<close>

lemma pem_default_token_refused:
  assumes "lib_needs_key lib" and "pem_decode x key = Some blk" and "to_lower alg \<in> {''hs256'', []}"
    and "IssueToken lib x (Some key) name expires alg now uuid = Ok t" and "buildKeyFunc x key = Ok kf"
  shows "VerifyToken lib x (Some key) t = Err InvalidToken \<and>
    (\<forall>revokeFile revoked. jwt_Authenticate lib \<lparr>ja_keyFunc = kf, ja_revokeFile = revokeFile, ja_revoked = revoked\<rparr> t = None)"
proof -
  have "kf hs256_header \<noteq> Ok vk" for vk
    by (rule asymmetric_HMAC [OF buildKeyFunc_pem [OF assms(5,2)]]) (simp add: hs256_header_def)
  moreover have "jl_sign lib SignHS256 (issue_claims name now expires uuid) (SignSecret (bytes_of_string (trim_space key))) = Some t"
    using assms(3,4) by (auto simp: IssueToken_def select_signer_def split: option.splits)
  ultimately have "jl_parse lib t kf ms = None" for ms
    using assms(1) unfolding lib_needs_key_def by blast
  then show ?thesis using assms(5) by (simp add: VerifyToken_def jwt_Authenticate_def)
qed

end
