(* ===== verification/Auth_OIDC.thy ===== *)
theory Auth_OIDC
  imports Auth_Base Go_Encoding
begin

text \<open>
  \<open>internal/auth/oidc.go\<close>: tokens of an external OpenID Connect provider, verified against the
  provider's key set, which is fetched at startup, every hour, and when a token does not verify.

  The network is the argument \<open>get\<close>: the status and the JSON body (\<open>None\<close> for a body that is not
  JSON) that \<open>http.Get\<close> returns for a URL. Decoding a JSON value into a struct is modelled as
  \<open>encoding/json\<close> does it: a member whose name equals the field's up to case sets the field, null
  leaves it, a value of another type is an error, and the last member counts (a document that
  repeats the member \<open>keys\<close> is outside the model: Go then merges the two arrays).
\<close>

section \<open>The documents of the provider\<close>

type_synonym http_get = "string \<Rightarrow> (nat \<times> json option) option"

datatype oidc_error = TransportError | BadStatus nat | BadBody

fun decode_string :: "string \<Rightarrow> (string \<times> json) list \<Rightarrow> string \<Rightarrow> string option" where
  "decode_string field [] acc = Some acc"
| "decode_string field ((k, v) # ms) acc =
     (if equal_fold k field
      then (case v of JStr s \<Rightarrow> decode_string field ms s
                    | JNull \<Rightarrow> decode_string field ms acc
                    | _ \<Rightarrow> None)
      else decode_string field ms acc)"

record oidc_discovery =
  od_issuer :: string
  od_jwks_uri :: string

definition decode_discovery :: "json \<Rightarrow> oidc_discovery option" where
  "decode_discovery j =
     (case j of
        JObj ms \<Rightarrow>
          Option.bind (decode_string ''issuer'' ms []) (\<lambda>i.
            Option.bind (decode_string ''jwks_uri'' ms []) (\<lambda>u.
              Some \<lparr>od_issuer = i, od_jwks_uri = u\<rparr>))
      | JNull \<Rightarrow> Some \<lparr>od_issuer = [], od_jwks_uri = []\<rparr>
      | _ \<Rightarrow> None)"

record jwk_key =
  jk_kty :: string
  jk_kid :: string
  jk_alg :: string
  jk_use :: string
  jk_n :: string
  jk_e :: string
  jk_crv :: string
  jk_x :: string
  jk_y :: string

definition decode_jwk :: "json \<Rightarrow> jwk_key option" where
  "decode_jwk j =
     (let obj = (\<lambda>ms.
        case those (map (\<lambda>f. decode_string f ms [])
               [''kty'', ''kid'', ''alg'', ''use'', ''n'', ''e'', ''crv'', ''x'', ''y'']) of
          Some [kty, kid, alg, use, n, e, crv, x, y] \<Rightarrow>
            Some \<lparr>jk_kty = kty, jk_kid = kid, jk_alg = alg, jk_use = use, jk_n = n, jk_e = e,
                  jk_crv = crv, jk_x = x, jk_y = y\<rparr>
        | _ \<Rightarrow> None)
      in case j of JObj ms \<Rightarrow> obj ms | JNull \<Rightarrow> obj [] | _ \<Rightarrow> None)"

fun decode_keys :: "(string \<times> json) list \<Rightarrow> jwk_key list \<Rightarrow> jwk_key list option" where
  "decode_keys [] acc = Some acc"
| "decode_keys ((k, v) # ms) acc =
     (if equal_fold k ''keys''
      then (case v of
              JArr js \<Rightarrow> Option.bind (those (map decode_jwk js)) (decode_keys ms)
            | JNull \<Rightarrow> decode_keys ms []
            | _ \<Rightarrow> None)
      else decode_keys ms acc)"

definition decode_jwks :: "json \<Rightarrow> jwk_key list option" where
  "decode_jwks j = (case j of JObj ms \<Rightarrow> decode_keys ms [] | JNull \<Rightarrow> Some [] | _ \<Rightarrow> None)"

definition fetch :: "http_get \<Rightarrow> (json \<Rightarrow> 'a option) \<Rightarrow> string \<Rightarrow> (oidc_error, 'a) outcome" where
  "fetch get decode url =
     (case get url of
        None \<Rightarrow> Err TransportError
      | Some (status, body) \<Rightarrow>
          if status \<noteq> 200 then Err (BadStatus status)
          else (case Option.bind body decode of None \<Rightarrow> Err BadBody | Some d \<Rightarrow> Ok d))"

definition fetchDiscovery :: "http_get \<Rightarrow> string \<Rightarrow> (oidc_error, oidc_discovery) outcome" where
  "fetchDiscovery get issuer =
     fetch get decode_discovery (issuer @ ''/.well-known/openid-configuration'')"

definition fetchJWKS :: "http_get \<Rightarrow> string \<Rightarrow> (oidc_error, jwk_key list) outcome" where
  "fetchJWKS get uri = fetch get decode_jwks uri"

section \<open>Public keys of the key set\<close>

definition parseRSAJWK :: "jwk_key \<Rightarrow> rsa_public option" where
  "parseRSAJWK k =
     (case b64_url_decode (jk_n k) of
        None \<Rightarrow> None
      | Some nBytes \<Rightarrow>
          (case b64_url_decode (jk_e k) of
             None \<Rightarrow> None
           | Some eBytes \<Rightarrow> Some \<lparr>rsa_n = set_bytes nBytes, rsa_e = big_int64 (set_bytes eBytes)\<rparr>))"

definition curveFromName :: "string \<Rightarrow> curve option" where
  "curveFromName name =
     (if name = ''P-256'' then Some P256
      else if name = ''P-384'' then Some P384
      else if name = ''P-521'' then Some P521
      else None)"

definition parseECJWK :: "jwk_key \<Rightarrow> ec_public option" where
  "parseECJWK k =
     (case b64_url_decode (jk_x k) of
        None \<Rightarrow> None
      | Some xBytes \<Rightarrow>
          (case b64_url_decode (jk_y k) of
             None \<Rightarrow> None
           | Some yBytes \<Rightarrow>
               (case curveFromName (jk_crv k) of
                  None \<Rightarrow> None
                | Some c \<Rightarrow> Some \<lparr>ec_curve = c, ec_x = set_bytes xBytes, ec_y = set_bytes yBytes\<rparr>)))"

definition parseJWK :: "jwk_key \<Rightarrow> verify_key option" where
  "parseJWK k =
     (if jk_kty k = ''RSA'' then map_option VerifyRSA (parseRSAJWK k)
      else if jk_kty k = ''EC'' then map_option VerifyEC (parseECJWK k)
      else None)"

section \<open>The authenticator\<close>

record oidc_auth =
  oa_issuer :: string
  oa_audience :: string
  oa_claimName :: string
  oa_jwks :: "string \<rightharpoonup> verify_key"

text \<open>The loop of \<open>refreshJWKS\<close>: a key that does not parse is skipped, a later key of the same id
  replaces an earlier one.\<close>

definition jwks_of :: "jwk_key list \<Rightarrow> string \<rightharpoonup> verify_key" where
  "jwks_of ks =
     fold (\<lambda>k m. case parseJWK k of None \<Rightarrow> m | Some pub \<Rightarrow> m(jk_kid k \<mapsto> pub)) ks Map.empty"

definition refreshJWKS :: "http_get \<Rightarrow> oidc_auth \<Rightarrow> oidc_error option \<times> oidc_auth" where
  "refreshJWKS get a =
     (case obind (fetchDiscovery get (oa_issuer a)) (\<lambda>disc. fetchJWKS get (od_jwks_uri disc)) of
        Ok ks \<Rightarrow> (None, a\<lparr>oa_jwks := jwks_of ks\<rparr>)
      | Err e \<Rightarrow> (Some e, a)
      | Panic \<Rightarrow> (None, a))"

definition trim_right_char :: "char \<Rightarrow> string \<Rightarrow> string" where
  "trim_right_char c s = rev (dropWhile (\<lambda>d. d = c) (rev s))"

definition NewOIDCAuthenticator ::
    "http_get \<Rightarrow> string \<Rightarrow> string \<Rightarrow> string \<Rightarrow> (oidc_error, oidc_auth) outcome" where
  "NewOIDCAuthenticator get issuer audience claimName =
     (case refreshJWKS get \<lparr>oa_issuer = trim_right_char CHR ''/'' issuer, oa_audience = audience,
                            oa_claimName = claimName, oa_jwks = Map.empty\<rparr> of
        (Some e, _) \<Rightarrow> Err e
      | (None, a) \<Rightarrow> Ok a)"

definition oidc_watchLoop :: "http_get watch_event list \<Rightarrow> oidc_auth \<Rightarrow> oidc_auth" where
  "oidc_watchLoop = watch refreshJWKS"

definition keyFuncFromJWKS :: "oidc_auth \<Rightarrow> keyfunc" where
  "keyFuncFromJWKS a t =
     (case tok_kid t of
        Some (JStr kid) \<Rightarrow>
          (case oa_jwks a kid of None \<Rightarrow> Err (UnknownKid kid) | Some key \<Rightarrow> Ok key)
      | _ \<Rightarrow> Err MissingKid)"

fun containsString :: "string list \<Rightarrow> string \<Rightarrow> bool" where
  "containsString [] target = False"
| "containsString (s # ss) target = (if s = target then True else containsString ss target)"

text \<open>The checks of \<open>Authenticate\<close> on the claims of a token that verified.\<close>

definition oidc_identity :: "jwt_lib \<Rightarrow> oidc_auth \<Rightarrow> claims \<Rightarrow> string option" where
  "oidc_identity lib a c =
     (if jl_issuer lib c \<noteq> oa_issuer a then None
      else if \<not> containsString (jl_audience lib c) (oa_audience a) then None
      else let (identity, ok) = claim_string c (oa_claimName a)
           in if \<not> ok \<or> identity = [] then None else Some identity)"

definition oidc_parse :: "jwt_lib \<Rightarrow> oidc_auth \<Rightarrow> string \<Rightarrow> claims option" where
  "oidc_parse lib a tokenStr =
     (case jl_parse lib tokenStr (keyFuncFromJWKS a) None of
        Some (True, c) \<Rightarrow> Some c
      | _ \<Rightarrow> None)"

definition oidc_Authenticate ::
    "jwt_lib \<times> http_get \<Rightarrow> string \<Rightarrow> oidc_auth \<Rightarrow> string option \<times> oidc_auth" where
  "oidc_Authenticate w tokenStr a =
     (case oidc_parse (fst w) a tokenStr of
        Some c \<Rightarrow> (oidc_identity (fst w) a c, a)
      | None \<Rightarrow>
          (case refreshJWKS (snd w) a of
             (None, a') \<Rightarrow>
               (case oidc_parse (fst w) a' tokenStr of
                  Some c \<Rightarrow> (oidc_identity (fst w) a' c, a')
                | None \<Rightarrow> (None, a'))
           | (Some e, a') \<Rightarrow> (None, a')))"

section \<open>The key set\<close>

lemma jwks_of_map_of:
  "jwks_of ks = map_of (rev (List.map_filter (\<lambda>k. map_option (Pair (jk_kid k)) (parseJWK k)) ks))"
proof -
  have "fold (\<lambda>k m. case parseJWK k of None \<Rightarrow> m | Some pub \<Rightarrow> m(jk_kid k \<mapsto> pub)) ks m =
        m ++ map_of (rev (List.map_filter (\<lambda>k. map_option (Pair (jk_kid k)) (parseJWK k)) ks))" for m
    by (induction ks arbitrary: m) (auto simp: List.map_filter_simps split: option.splits)
  then show ?thesis by (simp add: jwks_of_def)
qed

lemma jwks_of_SomeD:
  "jwks_of ks kid = Some pub \<Longrightarrow> \<exists>k \<in> set ks. jk_kid k = kid \<and> parseJWK k = Some pub"
  unfolding jwks_of_map_of by (drule map_of_SomeD) (auto simp: List.map_filter_def)

lemma jwks_of_None: "kid \<notin> jk_kid ` set ks \<Longrightarrow> jwks_of ks kid = None"
  by (metis image_eqI jwks_of_SomeD not_Some_eq)

lemma jwks_of_snoc:
  "jwks_of (ks @ [k]) = (case parseJWK k of None \<Rightarrow> jwks_of ks | Some pub \<Rightarrow> (jwks_of ks)(jk_kid k \<mapsto> pub))"
  by (simp add: jwks_of_def cong: option.case_cong)

text \<open>The key set holds public keys only, so a key function of it never yields a secret.\<close>

lemma parseJWK_public: "parseJWK k = Some pub \<Longrightarrow> (\<exists>p. pub = VerifyRSA p) \<or> (\<exists>p. pub = VerifyEC p)"
  by (auto simp: parseJWK_def split: if_splits)

section \<open>Reloading\<close>

definition oidc_source :: "oidc_auth \<Rightarrow> http_get \<Rightarrow> (string \<rightharpoonup> verify_key) option" where
  "oidc_source a get =
     (case obind (fetchDiscovery get (oa_issuer a)) (\<lambda>disc. fetchJWKS get (od_jwks_uri disc)) of
        Ok ks \<Rightarrow> Some (jwks_of ks) | _ \<Rightarrow> None)"

lemma refreshJWKS_frame [simp]:
  "oa_issuer (snd (refreshJWKS get a)) = oa_issuer a"
  "oa_audience (snd (refreshJWKS get a)) = oa_audience a"
  "oa_claimName (snd (refreshJWKS get a)) = oa_claimName a"
  by (simp_all add: refreshJWKS_def split: outcome.split)

lemma refreshJWKS_frameD:
  "refreshJWKS get a = (r, a') \<Longrightarrow>
     oa_issuer a' = oa_issuer a \<and> oa_audience a' = oa_audience a \<and> oa_claimName a' = oa_claimName a"
  by (metis refreshJWKS_frame snd_conv)

lemma fetch_not_Panic [simp]: "fetch get dec url \<noteq> Panic"
  by (simp add: fetch_def split: option.split prod.split)

lemma refreshJWKS_source:
  "refreshJWKS get a = (None, a') \<longleftrightarrow> (\<exists>m. oidc_source a get = Some m \<and> a' = a\<lparr>oa_jwks := m\<rparr>)"
  by (auto simp: refreshJWKS_def oidc_source_def fetchDiscovery_def fetchJWKS_def outcome_simps
      split: outcome.splits)

interpretation jwks: hot_reload refreshJWKS oidc_source oa_jwks
  by unfold_locales
    (auto simp: refreshJWKS_def oidc_source_def fetchDiscovery_def fetchJWKS_def outcome_simps
      split: outcome.splits)

section \<open>Authenticate\<close>

lemma containsString_iff [simp]: "containsString ss t \<longleftrightarrow> t \<in> set ss"
  by (induction ss) auto

lemma oidc_identity_iff:
  "oidc_identity lib a c = Some i \<longleftrightarrow>
     jl_issuer lib c = oa_issuer a \<and> oa_audience a \<in> set (jl_audience lib c) \<and>
     claim_string c (oa_claimName a) = (i, True) \<and> i \<noteq> []"
  by (auto simp: oidc_identity_def split: prod.splits)

lemma oidc_parse_iff:
  "oidc_parse lib a tok = Some c \<longleftrightarrow> jl_parse lib tok (keyFuncFromJWKS a) None = Some (True, c)"
  by (auto simp: oidc_parse_def split: option.splits prod.splits bool.splits)

text \<open>An accepted token verified with the keys of the final state, which are the cached ones or
  those of a refresh.\<close>

lemma oidc_Authenticate_SomeD:
  assumes "oidc_Authenticate (lib, get) tok a = (Some i, a')"
  shows "\<exists>c. oidc_parse lib a' tok = Some c \<and> oidc_identity lib a' c = Some i \<and>
             (a' = a \<or> refreshJWKS get a = (None, a'))"
  using assms by (auto simp: oidc_Authenticate_def split: option.splits prod.splits)

interpretation oidc: authenticator oidc_Authenticate
  by unfold_locales
    (auto simp: oidc_Authenticate_def oidc_identity_iff split: option.splits prod.splits)

lemma oidc_Authenticate_frame [simp]:
  "oa_issuer (snd (oidc_Authenticate w tok a)) = oa_issuer a"
  by (auto simp: oidc_Authenticate_def dest: refreshJWKS_frameD split: option.splits prod.splits)

lemma trim_right_char_last: "trim_right_char c s \<noteq> [] \<Longrightarrow> last (trim_right_char c s) \<noteq> c"
  by (metis (mono_tags, lifting) hd_dropWhile hd_rev rev_is_Nil_conv rev_rev_ident trim_right_char_def)

lemma NewOIDC_issuer:
  assumes "NewOIDCAuthenticator get issuer aud cl = Ok a"
  shows "oa_issuer a = trim_right_char CHR ''/'' issuer"
  using assms by (auto simp: NewOIDCAuthenticator_def dest: refreshJWKS_frameD split: prod.splits option.splits)

section \<open>Properties\<close>

text \<open>C28: A token that the OpenID Connect authenticator accepts verified with a key of the provider's set
  (the cached one, or the one of a refresh that succeeded), names the configured issuer and audience,
  and carries the configured claim as a string that is not empty, which is the identity.\<close>

theorem oidc_accepts_only:
  assumes "oidc_Authenticate (lib, get) tok a = (Some i, a')"
  shows "\<exists>c. jl_parse lib tok (keyFuncFromJWKS a') None = Some (True, c) \<and>
           jl_issuer lib c = oa_issuer a \<and> oa_audience a \<in> set (jl_audience lib c) \<and>
           claim_string c (oa_claimName a) = (i, True) \<and> i \<noteq> [] \<and>
           (a' = a \<or> oidc_source a get = Some (oa_jwks a'))"
proof -
  obtain c where c: "oidc_parse lib a' tok = Some c" "oidc_identity lib a' c = Some i"
    "a' = a \<or> refreshJWKS get a = (None, a')"
    using oidc_Authenticate_SomeD [OF assms] by blast
  have "oa_issuer a' = oa_issuer a" "oa_audience a' = oa_audience a" "oa_claimName a' = oa_claimName a"
    using c(3) refreshJWKS_frameD by blast+
  then show ?thesis
    using c by (auto simp: oidc_parse_iff oidc_identity_iff refreshJWKS_source)
qed

text \<open>A provider with one RSA key, a library that accepts the token \<open>t\<close> with that key, and an
  authenticator that has not fetched the key yet.\<close>

definition demo_jwks :: json where
  "demo_jwks =
     JObj [(''keys'', JArr [JObj [(''kty'', JStr ''RSA''), (''kid'', JStr ''k1''), (''n'', JStr ''IQ''), (''e'', JStr ''Aw'')]])]"

definition demo_get :: http_get where
  "demo_get url =
     (if url = ''https://idp/.well-known/openid-configuration''
      then Some (200, Some (JObj [(''issuer'', JStr ''https://idp''), (''jwks_uri'', JStr ''https://idp/keys'')]))
      else if url = ''https://idp/keys'' then Some (200, Some demo_jwks)
      else None)"

definition demo_oidc_claims :: claims where
  "demo_oidc_claims = [''iss'' \<mapsto> JStr ''https://idp'', ''sub'' \<mapsto> JStr ''carol'', ''aud'' \<mapsto> JStr ''longsocks'']"

definition demo_oidc_lib :: jwt_lib where
  "demo_oidc_lib =
     \<lparr>jl_parse = (\<lambda>t kf ms.
        if t = ''t'' \<and> kf \<lparr>tok_method = MethodRSA, tok_alg = ''RS256'', tok_kid = Some (JStr ''k1'')\<rparr> =
                       Ok (VerifyRSA \<lparr>rsa_n = 33, rsa_e = 3\<rparr>)
        then Some (True, demo_oidc_claims) else None),
      jl_issuer = (\<lambda>c. fst (claim_string c ''iss'')), jl_subject = (\<lambda>c. fst (claim_string c ''sub'')),
      jl_audience = (\<lambda>c. [fst (claim_string c ''aud'')]), jl_sign = (\<lambda>_ _ _. None)\<rparr>"

definition demo_oidc :: oidc_auth where
  "demo_oidc = \<lparr>oa_issuer = ''https://idp'', oa_audience = ''longsocks'', oa_claimName = ''sub'', oa_jwks = Map.empty\<rparr>"

lemma demo_fetch:
  "fetchDiscovery demo_get ''https://idp'' = Ok \<lparr>od_issuer = ''https://idp'', od_jwks_uri = ''https://idp/keys''\<rparr>"
  "fetchJWKS demo_get ''https://idp/keys'' =
     Ok [\<lparr>jk_kty = ''RSA'', jk_kid = ''k1'', jk_alg = [], jk_use = [], jk_n = ''IQ'', jk_e = ''Aw'',
          jk_crv = [], jk_x = [], jk_y = []\<rparr>]"
  by code_simp+

lemma demo_parse_jwk:
  "parseJWK \<lparr>jk_kty = ''RSA'', jk_kid = ''k1'', jk_alg = [], jk_use = [], jk_n = ''IQ'', jk_e = ''Aw'',
             jk_crv = [], jk_x = [], jk_y = []\<rparr> = Some (VerifyRSA \<lparr>rsa_n = 33, rsa_e = 3\<rparr>)"
proof -
  have "b64_url_decode ''IQ'' = Some [33]" "b64_url_decode ''Aw'' = Some [3]" by code_simp+
  then show ?thesis by (simp add: parseJWK_def parseRSAJWK_def set_bytes_def big_int64_def)
qed

definition demo_keys :: "string \<rightharpoonup> verify_key" where
  "demo_keys = [''k1'' \<mapsto> VerifyRSA \<lparr>rsa_n = 33, rsa_e = 3\<rparr>]"

lemma demo_refresh: "refreshJWKS demo_get demo_oidc = (None, demo_oidc\<lparr>oa_jwks := demo_keys\<rparr>)"
  by (simp add: refreshJWKS_def demo_oidc_def demo_fetch jwks_of_def demo_parse_jwk demo_keys_def)

lemma demo_oidc_accepts:
  "oidc_Authenticate (demo_oidc_lib, demo_get) ''t'' demo_oidc = (Some ''carol'', demo_oidc\<lparr>oa_jwks := demo_keys\<rparr>)"
proof -
  have "oidc_parse demo_oidc_lib demo_oidc ''t'' = None"
    by (simp add: oidc_parse_def demo_oidc_lib_def keyFuncFromJWKS_def demo_oidc_def)
  moreover have "oidc_parse demo_oidc_lib (demo_oidc\<lparr>oa_jwks := demo_keys\<rparr>) ''t'' = Some demo_oidc_claims"
    by (simp add: oidc_parse_def demo_oidc_lib_def keyFuncFromJWKS_def demo_keys_def)
  moreover have "oidc_identity demo_oidc_lib (demo_oidc\<lparr>oa_jwks := demo_keys\<rparr>) demo_oidc_claims = Some ''carol''"
    by (simp add: oidc_identity_def demo_oidc_lib_def demo_oidc_def demo_oidc_claims_def claim_string_def)
  ultimately show ?thesis by (simp add: oidc_Authenticate_def demo_refresh)
qed

lemma oidc_accepts_only_witness:
  "oidc_Authenticate (demo_oidc_lib, demo_get) ''t'' demo_oidc = (Some ''carol'', demo_oidc\<lparr>oa_jwks := demo_keys\<rparr>) \<and>
   (\<exists>c. jl_issuer demo_oidc_lib c = oa_issuer demo_oidc \<and> claim_string c ''sub'' = (''carol'', True))"
  using oidc_accepts_only [OF demo_oidc_accepts] demo_oidc_accepts by (auto simp: demo_oidc_def)

text \<open>C29: The key function hands out public keys only, for key ids of the set: after a refresh that
  succeeded, a key is there exactly when the last parsable key of that id in the provider's document
  is this key; a key id that the document no longer lists is refused.\<close>

theorem oidc_keys_after_refresh:
  assumes "refreshJWKS get a = (None, a')"
    and "obind (fetchDiscovery get (oa_issuer a)) (\<lambda>d. fetchJWKS get (od_jwks_uri d)) = Ok ks"
  shows "keyFuncFromJWKS a' \<lparr>tok_method = m, tok_alg = al, tok_kid = Some (JStr kid)\<rparr> =
    (case find (\<lambda>k. jk_kid k = kid \<and> parseJWK k \<noteq> None) (rev ks) of
       None \<Rightarrow> Err (UnknownKid kid)
     | Some k \<Rightarrow> Ok (the (parseJWK k)))"
proof -
  have m: "oa_jwks a' = jwks_of ks" using assms by (auto simp: refreshJWKS_def split: outcome.splits)
  have "map_of (rev (List.map_filter (\<lambda>k. map_option (Pair (jk_kid k)) (parseJWK k)) ks)) kid =
      map_option (\<lambda>k. the (parseJWK k)) (find (\<lambda>k. jk_kid k = kid \<and> parseJWK k \<noteq> None) (rev ks))"
  proof (induction ks rule: rev_induct)
    case (snoc k ks)
    have "List.map_filter f (xs @ [x]) = List.map_filter f xs @ (case f x of None \<Rightarrow> [] | Some y \<Rightarrow> [y])"
      for f :: "jwk_key \<Rightarrow> (string \<times> verify_key) option" and xs x
      by (simp add: List.map_filter_def split: option.split)
    then show ?case using snoc by (cases "parseJWK k") auto
  qed (simp add: List.map_filter_simps)
  then show ?thesis
    by (simp add: keyFuncFromJWKS_def m jwks_of_map_of split: option.split)
qed

lemma oidc_keys_after_refresh_witness:
  "keyFuncFromJWKS (demo_oidc\<lparr>oa_jwks := demo_keys\<rparr>)
     \<lparr>tok_method = MethodRSA, tok_alg = ''RS256'', tok_kid = Some (JStr ''gone'')\<rparr> = Err (UnknownKid ''gone'')"
  using oidc_keys_after_refresh [OF demo_refresh, of _ MethodRSA "''RS256''" "''gone''"]
  by (simp add: demo_oidc_def demo_fetch)

text \<open>The configured issuer loses its trailing slashes, and the comparison with the token's issuer is
  exact: a token whose issuer ends with a slash (as some providers write it) is never accepted,
  whatever issuer was configured.\<close>

lemma oidc_slash_issuer_refused:
  assumes "NewOIDCAuthenticator get0 issuer aud cl = Ok a"
    and "\<forall>c. jl_issuer lib c = base @ ''/''"
  shows "fst (oidc_Authenticate (lib, get) tok a) = None"
proof (rule ccontr)
  assume "fst (oidc_Authenticate (lib, get) tok a) \<noteq> None"
  then obtain i a' where "oidc_Authenticate (lib, get) tok a = (Some i, a')" by (metis not_Some_eq prod.collapse)
  from oidc_Authenticate_SomeD [OF this] obtain c where c: "oidc_identity lib a' c = Some i"
    and a': "a' = a \<or> refreshJWKS get a = (None, a')" by blast
  have "oa_issuer a' = oa_issuer a" using a' refreshJWKS_frameD by blast
  also have "\<dots> = trim_right_char CHR ''/'' issuer" by (rule NewOIDC_issuer [OF assms(1)])
  finally have "trim_right_char CHR ''/'' issuer = base @ ''/''"
    using c assms(2) by (simp add: oidc_identity_iff)
  then show False using trim_right_char_last [of "CHR ''/''" issuer] by simp
qed

end
