(* ===== verification/Auth_Chain.thy ===== *)
theory Auth_Chain
  imports Auth_Static Auth_JWT Auth_OIDC
begin

text \<open>
  \<open>internal/auth/auth.go\<close>: the chain of authenticators. The interface \<open>Authenticator\<close> has three
  implementations in the program, so a chain is a list of their states; authenticating returns the
  chain with the states that the calls leave (only the OpenID Connect one changes).
\<close>

datatype auth_method = AStatic static_auth | AJwt jwt_auth | AOidc oidc_auth

type_synonym auth_world = "jwt_lib \<times> http_get"

fun method_Authenticate :: "auth_world \<Rightarrow> string \<Rightarrow> auth_method \<Rightarrow> string option \<times> auth_method" where
  "method_Authenticate w tok (AStatic s) = (static_Authenticate s tok, AStatic s)"
| "method_Authenticate w tok (AJwt a) = (jwt_Authenticate (fst w) a tok, AJwt a)"
| "method_Authenticate w tok (AOidc a) = (case oidc_Authenticate w tok a of (r, a') \<Rightarrow> (r, AOidc a'))"

fun chain_Authenticate ::
    "auth_world \<Rightarrow> string \<Rightarrow> auth_method list \<Rightarrow> string option \<times> auth_method list" where
  "chain_Authenticate w tok [] = (None, [])"
| "chain_Authenticate w tok (a # as) =
     (case method_Authenticate w tok a of
        (Some i, a') \<Rightarrow> (Some i, a' # as)
      | (None, a') \<Rightarrow>
          (case chain_Authenticate w tok as of (r, as') \<Rightarrow> (r, a' # as')))"

definition Enabled :: "auth_method list \<Rightarrow> bool" where
  "Enabled as \<longleftrightarrow> length as > 0"

text \<open>A nil chain: \<open>cfg.AuthChain != nil\<close> is tested before \<open>Enabled\<close>.\<close>

definition chain_active :: "auth_method list option \<Rightarrow> bool" where
  "chain_active ch = (case ch of None \<Rightarrow> False | Some as \<Rightarrow> Enabled as)"

interpretation auth_method: authenticator method_Authenticate
proof unfold_locales
  fix w tok a i
  assume *: "fst (method_Authenticate w tok a) = Some i"
  show "i \<noteq> []"
  proof (cases a)
    case (AStatic s)
    with * show ?thesis by (auto dest: static_Authenticate_nonempty)
  next
    case (AJwt j)
    with * show ?thesis by (auto simp: jwt_Authenticate_iff)
  next
    case (AOidc ao)
    with * show ?thesis using oidc.identity_nonempty [where w = w and tok = tok and a = ao] by (auto split: prod.splits)
  qed
qed

text \<open>The result is that of the first authenticator that accepts.\<close>

lemma chain_first:
  "fst (chain_Authenticate w tok as) =
     first_some (map (\<lambda>a. fst (method_Authenticate w tok a)) as)"
  by (induction as) (auto split: prod.splits option.splits)

lemma chain_state:
  "snd (chain_Authenticate w tok as) =
     (let p = takeWhile (\<lambda>a. fst (method_Authenticate w tok a) = None) as;
          r = drop (length p) as
      in map (\<lambda>a. snd (method_Authenticate w tok a)) (p @ take 1 r) @ drop 1 r)"
  by (induction as) (auto simp: Let_def split: prod.splits option.splits)

text \<open>The same as a split of the chain: the ones before it reject, the ones after it are not asked.\<close>

lemma chain_accepts_split:
  assumes "fst (chain_Authenticate w tok as) = Some i"
  shows "\<exists>ps a qs. as = ps @ a # qs \<and> (\<forall>p \<in> set ps. fst (method_Authenticate w tok p) = None) \<and>
    fst (method_Authenticate w tok a) = Some i \<and>
    snd (chain_Authenticate w tok as) =
      map (\<lambda>p. snd (method_Authenticate w tok p)) ps @ snd (method_Authenticate w tok a) # qs"
  using assms
proof (induction as)
  case (Cons a as)
  show ?case
  proof (cases "fst (method_Authenticate w tok a)")
    case None
    with Cons.prems have "fst (chain_Authenticate w tok as) = Some i"
      by (auto split: prod.splits option.splits)
    from Cons.IH [OF this] obtain ps b qs where "as = ps @ b # qs"
      "\<forall>p \<in> set ps. fst (method_Authenticate w tok p) = None"
      "fst (method_Authenticate w tok b) = Some i"
      "snd (chain_Authenticate w tok as) =
        map (\<lambda>p. snd (method_Authenticate w tok p)) ps @ snd (method_Authenticate w tok b) # qs"
      by blast
    with None show ?thesis
      by (intro exI [of _ "a # ps"] exI [of _ b] exI [of _ qs]) (auto split: prod.splits option.splits)
  next
    case (Some j)
    with Cons.prems show ?thesis
      by (intro exI [of _ "[]"] exI [of _ a] exI [of _ as]) (auto split: prod.splits option.splits)
  qed
qed simp

lemma chain_accepts_mem:
  "fst (chain_Authenticate w tok as) = Some i \<Longrightarrow> \<exists>a. a \<in> set as \<and> fst (method_Authenticate w tok a) = Some i"
  by (drule chain_accepts_split) (force simp: in_set_conv_decomp)

lemma length_chain [simp]: "length (snd (chain_Authenticate w tok as)) = length as"
  by (induction as) (auto split: prod.splits option.splits)

interpretation chain: authenticator chain_Authenticate
proof unfold_locales
  fix w tok as i
  assume "fst (chain_Authenticate w tok as) = Some i"
  then show "i \<noteq> []"
    using auth_method.identity_nonempty by (blast dest: chain_accepts_split)
qed

section \<open>Properties\<close>

text \<open>C23: The chain returns the identity of the first authenticator that accepts the token; the ones before
  it rejected it, the ones after it are not asked (their state does not change), and the identity is
  never empty. If none accepts, the token is refused.\<close>

theorem chain_first_success:
  "case chain_Authenticate w tok as of
     (Some i, as') \<Rightarrow>
       i \<noteq> [] \<and>
       (\<exists>ps a qs. as = ps @ a # qs \<and> (\<forall>p. p \<in> set ps \<longrightarrow> fst (method_Authenticate w tok p) = None) \<and>
          fst (method_Authenticate w tok a) = Some i \<and>
          as' = map (\<lambda>p. snd (method_Authenticate w tok p)) ps @ snd (method_Authenticate w tok a) # qs)
   | (None, as') \<Rightarrow>
       (\<forall>a. a \<in> set as \<longrightarrow> fst (method_Authenticate w tok a) = None) \<and>
       as' = map (\<lambda>a. snd (method_Authenticate w tok a)) as"
proof -
  obtain r as' where c: "chain_Authenticate w tok as = (r, as')" by fastforce
  show ?thesis
  proof (cases r)
    case None
    have "(\<forall>a \<in> set as. fst (method_Authenticate w tok a) = None) \<and> as' = map (\<lambda>a. snd (method_Authenticate w tok a)) as"
      using c None by (induction as arbitrary: as') (auto split: prod.splits option.splits)
    then show ?thesis using c None by simp
  next
    case (Some i)
    then show ?thesis
      using chain_accepts_split [of w tok as i] chain.identity_nonempty [of w tok as i] c by auto
  qed
qed

definition demo_chain :: "auth_method list" where
  "demo_chain = [AStatic (NewStaticToken ''a''), AStatic (NewStaticToken ''b'')]"

lemma chain_first_success_witness:
  "\<exists>ps a qs. demo_chain = ps @ a # qs \<and> fst (method_Authenticate (demo_lib, demo_get) ''b'' a) = Some ''anonymous'' \<and>
     (\<exists>p. p \<in> set ps \<and> fst (method_Authenticate (demo_lib, demo_get) ''b'' p) = None)"
proof -
  have "static_Authenticate (NewStaticToken ''a'') ''b'' = None"
    "static_Authenticate (NewStaticToken ''b'') ''b'' = Some ''anonymous''" by code_simp+
  then have c: "chain_Authenticate (demo_lib, demo_get) ''b'' demo_chain = (Some ''anonymous'', demo_chain)"
    and first: "fst (method_Authenticate (demo_lib, demo_get) ''b'' (AStatic (NewStaticToken ''a''))) = None"
    by (simp_all add: demo_chain_def)
  from chain_first_success [where w = "(demo_lib, demo_get)" and tok = "''b''" and as = demo_chain] obtain ps a qs where
    *: "demo_chain = ps @ a # qs" "fst (method_Authenticate (demo_lib, demo_get) ''b'' a) = Some ''anonymous''"
    unfolding c by auto
  then have "ps \<noteq> []" using first by (auto simp: demo_chain_def)
  then have "AStatic (NewStaticToken ''a'') \<in> set ps" using *(1) by (cases ps) (simp_all add: demo_chain_def)
  then show ?thesis using * first by blast
qed

end
