(* ===== verification/Auth_MTLS.thy ===== *)
theory Auth_MTLS
  imports Go_Base
begin

text \<open>
  \<open>internal/auth/mtls.go\<close>: the identity of a verified client certificate, and the pool of CA
  certificates. Of a parsed certificate only what the code reads is kept: the subject's common
  name, the DNS names and the printed subject.
\<close>

record certificate =
  ce_common_name :: string
  ce_dns_names :: "string list"
  ce_subject :: string

text \<open>\<open>r.TLS\<close>: \<open>None\<close> on a plain connection, else \<open>PeerCertificates\<close>, leaf first.\<close>

type_synonym tls_state = "certificate list option"

fun MTLSIdentity :: "tls_state \<Rightarrow> string" where
  "MTLSIdentity None = []"
| "MTLSIdentity (Some []) = []"
| "MTLSIdentity (Some (cert # _)) =
     (if ce_common_name cert \<noteq> [] then ''mtls:'' @ ce_common_name cert
      else case ce_dns_names cert of
             d # _ \<Rightarrow> ''mtls:'' @ d
           | [] \<Rightarrow> ''mtls:'' @ ce_subject cert)"

datatype ca_error = CAUnreadable | NoCertificates

text \<open>
  \<open>LoadCACertPool\<close>. The argument \<open>certs\<close> stands for the parser of \<open>crypto/x509\<close>: the CA
  certificates in a PEM bundle, the ones that do not parse left out.
\<close>

definition LoadCACertPool :: "(string \<Rightarrow> 'c list) \<Rightarrow> string option \<Rightarrow> (ca_error, 'c list) outcome" where
  "LoadCACertPool certs file =
     (case file of
        None \<Rightarrow> Err CAUnreadable
      | Some d \<Rightarrow> if certs d = [] then Err NoCertificates else Ok (certs d))"

lemma MTLSIdentity_empty: "MTLSIdentity t = [] \<longleftrightarrow> t = None \<or> t = Some []"
  by (cases t rule: MTLSIdentity.cases) (auto split: list.split)

lemma MTLSIdentity_prefix: "MTLSIdentity t \<noteq> [] \<Longrightarrow> has_prefix (MTLSIdentity t) ''mtls:''"
  by (cases t rule: MTLSIdentity.cases) (auto split: list.split)

lemma LoadCACertPool_Ok: "LoadCACertPool certs file = Ok p \<Longrightarrow> p \<noteq> []"
  by (auto simp: LoadCACertPool_def split: option.splits if_splits)

end
