(* ===== verification/Go_Num.thy ===== *)
theory Go_Num
  imports Go_Base
begin

text \<open>
  Decimal numbers as Go prints and reads them: the \<open>%d\<close> verb of \<open>fmt.Sprintf\<close> and of
  \<open>fmt.Sscanf\<close>, and \<open>strconv.Atoi\<close>, with the range of \<open>int\<close> (64 bits) written out.
\<close>

definition is_digit :: "char \<Rightarrow> bool" where
  "is_digit c \<longleftrightarrow> (let n = of_char c :: nat in 48 \<le> n \<and> n \<le> 57)"

definition digit_val :: "char \<Rightarrow> nat" where
  "digit_val c = of_char c - 48"

definition digit_char :: "nat \<Rightarrow> char" where
  "digit_char n = char_of (48 + n)"

lemma digit_char [simp]:
  assumes "n < 10"
  shows "is_digit (digit_char n)" "digit_val (digit_char n) = n"
proof -
  have "(of_char (char_of (48 + n) :: char) :: nat) = 48 + n"
    using assms by (simp add: of_char_of)
  then show "is_digit (digit_char n)" "digit_val (digit_char n) = n"
    using assms by (simp_all add: is_digit_def digit_val_def digit_char_def)
qed

text \<open>\<open>fmt.Sprintf("%d", n)\<close> for a value that is not negative.\<close>

fun itoa :: "nat \<Rightarrow> string" where
  "itoa n = (if n < 10 then [digit_char n] else itoa (n div 10) @ [digit_char (n mod 10)])"

declare itoa.simps [simp del]

definition dec_value :: "string \<Rightarrow> nat" where
  "dec_value = foldl (\<lambda>a c. 10 * a + digit_val c) 0"

lemma dec_value_snoc [simp]: "dec_value (s @ [c]) = 10 * dec_value s + digit_val c"
  by (simp add: dec_value_def)

lemma dec_value_Nil [simp]: "dec_value [] = 0"
  by (simp add: dec_value_def)

lemma itoa_small: "n < 10 \<Longrightarrow> itoa n = [digit_char n]"
  by (subst itoa.simps) simp

lemma itoa_digits: "c \<in> set (itoa n) \<Longrightarrow> is_digit c"
proof (induction n rule: itoa.induct)
  case (1 n)
  show ?case
  proof (cases "n < 10")
    case True
    with "1.prems" show ?thesis by (simp add: itoa_small)
  next
    case False
    then show ?thesis using 1 by (auto simp: itoa.simps [of n])
  qed
qed

lemma itoa_nonempty [simp]: "itoa n \<noteq> []"
  by (subst itoa.simps) simp

lemma dec_value_itoa [simp]: "dec_value (itoa n) = n"
proof (induction n rule: itoa.induct)
  case (1 n)
  show ?case
  proof (cases "n < 10")
    case True
    then show ?thesis using dec_value_snoc [of "[]" "digit_char n"] by (simp add: itoa_small)
  next
    case False
    with 1 show ?thesis by (simp add: itoa.simps [of n])
  qed
qed

lemma itoa_inject [simp]: "itoa m = itoa n \<longleftrightarrow> m = n"
  by (metis dec_value_itoa)

lemma takeWhile_itoa [simp]: "takeWhile is_digit (itoa n) = itoa n"
  by (simp add: takeWhile_eq_all_conv itoa_digits)

lemma takeWhile_itoa_append [simp]:
  "r = [] \<or> \<not> is_digit (hd r) \<Longrightarrow> takeWhile is_digit (itoa n @ r) = itoa n"
  by (cases r) (auto simp: takeWhile_append itoa_digits)

text \<open>A digit is not white space, a sign or a separator of an address.\<close>

lemma not_is_digit [simp]:
  "\<not> is_digit (CHR ''+'')" "\<not> is_digit (CHR ''-'')" "\<not> is_digit (CHR '':'')" "\<not> is_digit (CHR ''.'')"
  "\<not> is_digit (CHR ''['')" "\<not> is_digit (CHR '']'')" "\<not> is_digit (CHR ''%'')"
  by (simp_all add: is_digit_def)

lemma itoa_no_sep [simp]:
  "CHR '':'' \<notin> set (itoa n)" "CHR ''['' \<notin> set (itoa n)" "CHR '']'' \<notin> set (itoa n)"
  "CHR ''.'' \<notin> set (itoa n)" "CHR ''%'' \<notin> set (itoa n)"
  using itoa_digits not_is_digit by blast+

section \<open>Reading integers\<close>

text \<open>
  Scanning skips white space, and stops with an error at a newline (the \<open>Sscanf\<close> mode of
  \<open>fmt\<close>); then an optional sign and at least one decimal digit. What follows the digits stays
  unread. A value outside \<open>int64\<close> is an error.
\<close>

function scan_space :: "string \<Rightarrow> string option" where
  "scan_space s =
     (case lead_rune space_runes s of
        None \<Rightarrow> Some s
      | Some r \<Rightarrow> if r = [CHR 0x0A] then None else scan_space (drop (length r) s))"
  by pat_completeness auto
termination
  by (relation "measure length") (auto dest: lead_rune_shorter)

declare scan_space.simps [simp del]

definition scan_sign :: "string \<Rightarrow> int \<times> string" where
  "scan_sign s =
     (case s of
        [] \<Rightarrow> (1, s)
      | c # r \<Rightarrow> if c = CHR ''+'' then (1, r) else if c = CHR ''-'' then (- 1, r) else (1, s))"

definition in_int64 :: "int \<Rightarrow> bool" where
  "in_int64 v \<longleftrightarrow> - (2 ^ 63) \<le> v \<and> v < 2 ^ 63"

definition sscanf_d :: "string \<Rightarrow> int option" where
  "sscanf_d s =
     (case scan_space s of
        None \<Rightarrow> None
      | Some s1 \<Rightarrow>
          let (sg, s2) = scan_sign s1; ds = takeWhile is_digit s2; v = sg * int (dec_value ds)
          in if ds = [] then None else if in_int64 v then Some v else None)"

text \<open>\<open>strconv.Atoi\<close>: the whole string must be a number. The value comes with a flag: on a
  range error Go returns the nearest \<open>int\<close>, on a syntax error 0.\<close>

definition atoi :: "string \<Rightarrow> int \<times> bool" where
  "atoi s =
     (let (sg, ds) = scan_sign s; v = sg * int (dec_value ds)
      in if ds = [] \<or> \<not> list_all is_digit ds then (0, False)
         else if v < - (2 ^ 63) then (- (2 ^ 63), False)
         else if v \<ge> 2 ^ 63 then (2 ^ 63 - 1, False)
         else (v, True))"

lemma lead_rune_digit:
  assumes "is_digit c"
  shows "lead_rune space_runes (c # s) = None"
proof (rule lead_rune_head)
  have "\<forall>r \<in> set space_runes. \<not> is_digit (hd r)"
    by (simp add: space_runes_def is_digit_def)
  then show "hd r \<noteq> c" if "r \<in> set space_runes" for r
    using that assms by blast
qed

lemma scan_space_digit: "is_digit c \<Longrightarrow> scan_space (c # s) = Some (c # s)"
  by (subst scan_space.simps) (simp add: lead_rune_digit)

lemma scan_sign_digit: "is_digit c \<Longrightarrow> scan_sign (c # s) = (1, c # s)"
  by (auto simp: scan_sign_def)

lemma itoa_Cons: "\<exists>c s. itoa n = c # s \<and> is_digit c"
  using itoa_nonempty [of n] itoa_digits [of _ n] by (cases "itoa n") auto

lemma sscanf_itoa:
  assumes "n < 2 ^ 63" and "r = [] \<or> \<not> is_digit (hd r)"
  shows "sscanf_d (itoa n @ r) = Some (int n)"
proof -
  obtain c s where c: "itoa n = c # s" "is_digit c" using itoa_Cons by blast
  have "takeWhile is_digit (itoa n @ r) = itoa n" using assms(2) by simp
  moreover have "int n < 2 ^ 63" using assms(1) by (simp add: of_nat_less_iff [symmetric] del: of_nat_less_iff)
  moreover have "scan_space (itoa n @ r) = Some (itoa n @ r)" "scan_sign (itoa n @ r) = (1, itoa n @ r)"
    using c by (simp_all add: scan_space_digit scan_sign_digit)
  ultimately show ?thesis
    by (simp add: sscanf_d_def in_int64_def)
qed

lemma atoi_itoa:
  assumes "n < 2 ^ 63"
  shows "atoi (itoa n) = (int n, True)"
proof -
  obtain c s where c: "itoa n = c # s" "is_digit c" using itoa_Cons by blast
  have "int n < 2 ^ 63" using assms by (simp add: of_nat_less_iff [symmetric] del: of_nat_less_iff)
  moreover have "list_all is_digit (itoa n)" by (auto simp: list_all_iff itoa_digits)
  moreover have "scan_sign (itoa n) = (1, itoa n)" using c by (simp add: scan_sign_digit)
  ultimately show ?thesis by (simp add: atoi_def)
qed

end
