(* ===== verification/Audit_Log.thy ===== *)
theory Audit_Log
  imports Go_Num Go_Encoding "HOL-Library.Multiset"
begin

text \<open>
  \<open>internal/audit\<close>: the structured log records of the audit events (\<open>audit.go\<close>), the fan-out
  handler, the handler that turns records into Prometheus calls (\<open>metrics.go\<close>) and the periodic
  statistics (\<open>stats.go\<close>).

  A \<open>slog.Record\<close> is a level, a message and a list of attributes. The Prometheus library is not
  part of the repository: the metrics handler is modelled by the calls it makes on the collectors,
  in their order. The counters of \<open>StatsAggregator\<close> are 64-bit words.
\<close>

section \<open>Levels and records\<close>

datatype level = LDebug | LInfo | LWarn | LError

fun level_num :: "level \<Rightarrow> int" where
  "level_num LDebug = - 4"
| "level_num LInfo = 0"
| "level_num LWarn = 4"
| "level_num LError = 8"

instantiation level :: linorder
begin

definition less_eq_level :: "level \<Rightarrow> level \<Rightarrow> bool" where
  "less_eq_level a b \<longleftrightarrow> level_num a \<le> level_num b"

definition less_level :: "level \<Rightarrow> level \<Rightarrow> bool" where
  "less_level a b \<longleftrightarrow> level_num a < level_num b"

instance
proof
  fix a b c :: level
  show "a < b \<longleftrightarrow> a \<le> b \<and> \<not> b \<le> a" by (auto simp: less_eq_level_def less_level_def)
  show "a \<le> a" by (simp add: less_eq_level_def)
  show "a \<le> b \<Longrightarrow> b \<le> c \<Longrightarrow> a \<le> c" by (simp add: less_eq_level_def)
  show "a \<le> b \<Longrightarrow> b \<le> a \<Longrightarrow> a = b" by (cases a; cases b) (simp_all add: less_eq_level_def)
  show "a \<le> b \<or> b \<le> a" by (auto simp: less_eq_level_def)
qed

end

datatype attr_value = AStr string | AInt int | ABool bool

record log_record =
  lr_level :: level
  lr_message :: string
  lr_attrs :: "(string \<times> attr_value) list"

text \<open>Go's integer division truncates towards zero.\<close>

definition go_quot :: "int \<Rightarrow> int \<Rightarrow> int" where
  "go_quot a b = sgn a * sgn b * (\<bar>a\<bar> div \<bar>b\<bar>)"

definition milliseconds :: "int \<Rightarrow> int" where
  "milliseconds d = go_quot d 1000000"

definition LogOpen :: "string \<Rightarrow> string \<Rightarrow> string \<Rightarrow> log_record" where
  "LogOpen tokenName sourceIP target =
     \<lparr>lr_level = LInfo, lr_message = ''connection.open'',
      lr_attrs = [(''token'', AStr tokenName), (''source'', AStr sourceIP), (''target'', AStr target)]\<rparr>"

definition LogClose :: "string \<Rightarrow> string \<Rightarrow> int \<Rightarrow> int \<Rightarrow> int \<Rightarrow> log_record" where
  "LogClose tokenName target duration bytesTx bytesRx =
     \<lparr>lr_level = LInfo, lr_message = ''connection.close'',
      lr_attrs = [(''token'', AStr tokenName), (''target'', AStr target),
        (''duration_ms'', AInt (milliseconds duration)), (''bytes_tx'', AInt bytesTx),
        (''bytes_rx'', AInt bytesRx)]\<rparr>"

definition LogAuthFailure :: "string \<Rightarrow> log_record" where
  "LogAuthFailure sourceIP =
     \<lparr>lr_level = LWarn, lr_message = ''auth.failure'', lr_attrs = [(''source'', AStr sourceIP)]\<rparr>"

section \<open>The metrics handler\<close>

text \<open>The calls on the collectors of \<open>Metrics\<close>.\<close>

datatype metric_call =
    TotalInc string
  | ActiveInc string
  | ActiveDec string
  | BytesAdd string string int
  | DurationObserve string int \<comment> \<open>milliseconds; the code observes this divided by 1000\<close>
  | AuthFailureInc

text \<open>\<open>Value.String\<close> prints any value; \<open>Value.Int64\<close> panics on a value that is not an integer.\<close>

definition int_string :: "int \<Rightarrow> string" where
  "int_string i = (if i < 0 then CHR ''-'' # itoa (nat (- i)) else itoa (nat i))"

fun value_string :: "attr_value \<Rightarrow> string" where
  "value_string (AStr s) = s"
| "value_string (AInt i) = int_string i"
| "value_string (ABool b) = (if b then ''true'' else ''false'')"

fun value_int64 :: "attr_value \<Rightarrow> ('e, int) outcome" where
  "value_int64 (AInt i) = Ok i"
| "value_int64 (AStr s) = Panic"
| "value_int64 (ABool b) = Panic"

record metric_fields =
  f_token :: string
  f_direction :: string
  f_tx :: int
  f_rx :: int
  f_duration :: int

definition no_fields :: metric_fields where
  "no_fields = \<lparr>f_token = [], f_direction = [], f_tx = 0, f_rx = 0, f_duration = 0\<rparr>"

definition metric_attr :: "string \<times> attr_value \<Rightarrow> metric_fields \<Rightarrow> (unit, metric_fields) outcome" where
  "metric_attr a f =
     (if fst a = ''token'' then Ok (f\<lparr>f_token := value_string (snd a)\<rparr>)
      else if fst a = ''direction'' then Ok (f\<lparr>f_direction := value_string (snd a)\<rparr>)
      else if fst a = ''bytes_tx'' then obind (value_int64 (snd a)) (\<lambda>i. Ok (f\<lparr>f_tx := i\<rparr>))
      else if fst a = ''bytes_rx'' then obind (value_int64 (snd a)) (\<lambda>i. Ok (f\<lparr>f_rx := i\<rparr>))
      else if fst a = ''duration_ms'' then obind (value_int64 (snd a)) (\<lambda>i. Ok (f\<lparr>f_duration := i\<rparr>))
      else Ok f)"

fun metric_attrs :: "(string \<times> attr_value) list \<Rightarrow> metric_fields \<Rightarrow> (unit, metric_fields) outcome" where
  "metric_attrs [] f = Ok f"
| "metric_attrs (a # as) f = obind (metric_attr a f) (metric_attrs as)"

definition metrics_handle :: "log_record \<Rightarrow> (unit, metric_call list) outcome" where
  "metrics_handle r =
     obind (metric_attrs (lr_attrs r) no_fields) (\<lambda>f.
       let tok = (if f_token f = [] then ''unknown'' else f_token f)
       in if lr_message r = ''connection.open'' then Ok [TotalInc tok, ActiveInc tok]
          else if lr_message r = ''connection.close'' then
            Ok [ActiveDec tok, BytesAdd tok ''tx'' (f_tx f), BytesAdd tok ''rx'' (f_rx f),
                DurationObserve tok (f_duration f)]
          else if lr_message r = ''auth.failure'' then Ok [AuthFailureInc]
          else Ok [])"

definition metrics_enabled :: "level \<Rightarrow> bool" where
  "metrics_enabled l \<longleftrightarrow> LInfo \<le> l"

section \<open>The collectors\<close>

text \<open>
  The collectors that \<open>NewMetrics\<close> makes, by kind, name and label names (help texts and buckets are
  left out). \<open>MustRegister\<close> panics on a name that the registry has; \<open>WithLabelValues\<close> panics unless
  it gets one value for each label, and \<open>Add\<close> on a counter panics on a negative number.
\<close>

datatype collector_kind = Counter | Gauge | Histogram

record collector =
  co_kind :: collector_kind
  co_name :: string
  co_labels :: "string list"

record metrics =
  ConnectionsTotal :: collector
  ConnectionsActive :: collector
  BytesTransmitted :: collector
  AuthFailuresTotal :: collector
  ConnectionDuration :: collector

definition new_collectors :: metrics where
  "new_collectors =
     \<lparr>ConnectionsTotal =
        \<lparr>co_kind = Counter, co_name = ''longsocks_connections_total'', co_labels = [''token_name'']\<rparr>,
      ConnectionsActive =
        \<lparr>co_kind = Gauge, co_name = ''longsocks_connections_active'', co_labels = [''token_name'']\<rparr>,
      BytesTransmitted =
        \<lparr>co_kind = Counter, co_name = ''longsocks_bytes_transmitted_total'',
         co_labels = [''token_name'', ''direction'']\<rparr>,
      AuthFailuresTotal =
        \<lparr>co_kind = Counter, co_name = ''longsocks_auth_failures_total'', co_labels = []\<rparr>,
      ConnectionDuration =
        \<lparr>co_kind = Histogram, co_name = ''longsocks_connection_duration_seconds'',
         co_labels = [''token_name'']\<rparr>\<rparr>"

fun MustRegister :: "collector list \<Rightarrow> string set \<Rightarrow> (unit, string set) outcome" where
  "MustRegister [] reg = Ok reg"
| "MustRegister (c # cs) reg =
     (if co_name c \<in> reg then Panic else MustRegister cs (insert (co_name c) reg))"

definition NewMetrics :: "string set \<Rightarrow> (unit, metrics \<times> string set) outcome" where
  "NewMetrics reg =
     (let m = new_collectors
      in obind (MustRegister [ConnectionsTotal m, ConnectionsActive m, BytesTransmitted m,
                              AuthFailuresTotal m, ConnectionDuration m] reg)
           (\<lambda>reg'. Ok (m, reg')))"

text \<open>The collector of a call, its label values and the number that it adds.\<close>

fun call_target :: "metrics \<Rightarrow> metric_call \<Rightarrow> collector \<times> string list \<times> int" where
  "call_target m (TotalInc t) = (ConnectionsTotal m, [t], 1)"
| "call_target m (ActiveInc t) = (ConnectionsActive m, [t], 1)"
| "call_target m (ActiveDec t) = (ConnectionsActive m, [t], - 1)"
| "call_target m (BytesAdd t d i) = (BytesTransmitted m, [t, d], i)"
| "call_target m (DurationObserve t ms) = (ConnectionDuration m, [t], ms)"
| "call_target m AuthFailureInc = (AuthFailuresTotal m, [], 1)"

text \<open>
  The library is a parameter: when \<open>WithLabelValues\<close> panics for label values and when adding a
  number to a collector panics. Its documentation says: the values must be as many as the labels and
  valid UTF-8, and a counter does not go down.
\<close>

record prometheus =
  labels_panic :: "collector \<Rightarrow> string list \<Rightarrow> bool"
  add_panics :: "collector \<Rightarrow> int \<Rightarrow> bool"

definition prometheus_documented :: "prometheus \<Rightarrow> bool" where
  "prometheus_documented p \<longleftrightarrow>
     (\<forall>co ls. labels_panic p co ls \<longleftrightarrow> length ls \<noteq> length (co_labels co) \<or> \<not> list_all valid_utf8 ls) \<and>
     (\<forall>co n. add_panics p co n \<longleftrightarrow> co_kind co = Counter \<and> n < 0)"

definition call_panics :: "prometheus \<Rightarrow> metrics \<Rightarrow> metric_call \<Rightarrow> bool" where
  "call_panics p m c =
     (case call_target m c of (co, ls, n) \<Rightarrow> labels_panic p co ls \<or> add_panics p co n)"

section \<open>Sinks and the fan-out handler\<close>

text \<open>
  The handlers that the server composes: JSON lines on a stream (of package \<open>slog\<close>, enabled from
  \<open>Info\<close>; the flag says whether the stream accepts writes) and the metrics handler. A JSON handler
  keeps the attributes and groups that \<open>WithAttrs\<close> and \<open>WithGroup\<close> gave it.
\<close>

datatype scope = Attrs "(string \<times> attr_value) list" | Group string

datatype sink =
    JsonSink (scopes: "scope list") (lines: "(scope list \<times> log_record) list") (writable: bool)
  | MetricsSink (calls: "metric_call list")

fun sink_enabled :: "sink \<Rightarrow> level \<Rightarrow> bool" where
  "sink_enabled (JsonSink sc ls w) l \<longleftrightarrow> LInfo \<le> l"
| "sink_enabled (MetricsSink cs) l \<longleftrightarrow> metrics_enabled l"

text \<open>
  A handler returns an error value (here a flag) and may have changed its sink. \<open>bad\<close> says which
  calls of the Prometheus library panic; the handler does not recover from it.
\<close>

fun sink_handle :: "(metric_call \<Rightarrow> bool) \<Rightarrow> log_record \<Rightarrow> sink \<Rightarrow> (unit, bool \<times> sink) outcome" where
  "sink_handle bad r (JsonSink sc ls w) =
     (if w then Ok (True, JsonSink sc (ls @ [(sc, r)]) w) else Ok (False, JsonSink sc ls w))"
| "sink_handle bad r (MetricsSink cs) =
     obind (metrics_handle r)
       (\<lambda>m. if list_ex bad m then Panic else Ok (True, MetricsSink (cs @ m)))"

fun sink_with_attrs :: "(string \<times> attr_value) list \<Rightarrow> sink \<Rightarrow> sink" where
  "sink_with_attrs as (JsonSink sc ls w) = JsonSink (sc @ [Attrs as]) ls w"
| "sink_with_attrs as (MetricsSink cs) = MetricsSink cs"

fun sink_with_group :: "string \<Rightarrow> sink \<Rightarrow> sink" where
  "sink_with_group g (JsonSink sc ls w) = JsonSink (sc @ [Group g]) ls w"
| "sink_with_group g (MetricsSink cs) = MetricsSink cs"

definition fan_enabled :: "sink list \<Rightarrow> level \<Rightarrow> bool" where
  "fan_enabled hs l \<longleftrightarrow> list_ex (\<lambda>h. sink_enabled h l) hs"

fun fan_handle :: "(metric_call \<Rightarrow> bool) \<Rightarrow> log_record \<Rightarrow> sink list \<Rightarrow> (unit, sink list) outcome" where
  "fan_handle bad r [] = Ok []"
| "fan_handle bad r (h # hs) =
     (if sink_enabled h (lr_level r)
      then obind (sink_handle bad r h) (\<lambda>(ok, h'). obind (fan_handle bad r hs) (\<lambda>hs'. Ok (h' # hs')))
      else obind (fan_handle bad r hs) (\<lambda>hs'. Ok (h # hs')))"

definition fan_with_attrs :: "(string \<times> attr_value) list \<Rightarrow> sink list \<Rightarrow> sink list" where
  "fan_with_attrs as hs = map (sink_with_attrs as) hs"

definition fan_with_group :: "string \<Rightarrow> sink list \<Rightarrow> sink list" where
  "fan_with_group g hs = map (sink_with_group g) hs"

text \<open>\<open>Logger.Info\<close> and its kin: the logger asks \<open>Enabled\<close> first, then calls \<open>Handle\<close>.\<close>

definition log_to :: "(metric_call \<Rightarrow> bool) \<Rightarrow> sink list \<Rightarrow> log_record \<Rightarrow> (unit, sink list) outcome" where
  "log_to bad hs r = (if fan_enabled hs (lr_level r) then fan_handle bad r hs else Ok hs)"

fun log_all :: "(metric_call \<Rightarrow> bool) \<Rightarrow> sink list \<Rightarrow> log_record list \<Rightarrow> (unit, sink list) outcome" where
  "log_all bad hs [] = Ok hs"
| "log_all bad hs (r # rs) = obind (log_to bad hs r) (\<lambda>hs'. log_all bad hs' rs)"

section \<open>The statistics aggregator\<close>

record stats =
  activeConns :: "64 word"
  totalConns :: "64 word"
  bytesTx :: "64 word"
  bytesRx :: "64 word"

definition new_stats :: stats where
  "new_stats = \<lparr>activeConns = 0, totalConns = 0, bytesTx = 0, bytesRx = 0\<rparr>"

text \<open>Each method is a sequence of atomic additions.\<close>

datatype stat_op = AddActive int | AddTotal int | AddTx int | AddRx int

fun stat_apply :: "stat_op \<Rightarrow> stats \<Rightarrow> stats" where
  "stat_apply (AddActive i) s = s\<lparr>activeConns := activeConns s + of_int i\<rparr>"
| "stat_apply (AddTotal i) s = s\<lparr>totalConns := totalConns s + of_int i\<rparr>"
| "stat_apply (AddTx i) s = s\<lparr>bytesTx := bytesTx s + of_int i\<rparr>"
| "stat_apply (AddRx i) s = s\<lparr>bytesRx := bytesRx s + of_int i\<rparr>"

definition ConnectionOpened :: "stat_op list" where
  "ConnectionOpened = [AddActive 1, AddTotal 1]"

definition ConnectionClosed :: "int \<Rightarrow> int \<Rightarrow> stat_op list" where
  "ConnectionClosed tx rx = [AddActive (- 1), AddTx tx, AddRx rx]"

definition stat_run :: "stat_op list \<Rightarrow> stats \<Rightarrow> stats" where
  "stat_run ops s = fold stat_apply ops s"

text \<open>\<open>Run\<close>: one record for each tick of the timer until the context is cancelled.\<close>

datatype timer_event = Tick stats | Cancelled

definition stats_record :: "stats \<Rightarrow> log_record" where
  "stats_record s =
     \<lparr>lr_level = LInfo, lr_message = ''stats.periodic'',
      lr_attrs = [(''active_connections'', AInt (sint (activeConns s))),
        (''total_connections'', AInt (sint (totalConns s))),
        (''bytes_tx_total'', AInt (sint (bytesTx s))), (''bytes_rx_total'', AInt (sint (bytesRx s)))]\<rparr>"

fun stats_loop :: "timer_event list \<Rightarrow> log_record list" where
  "stats_loop [] = []"
| "stats_loop (Tick s # es) = stats_record s # stats_loop es"
| "stats_loop (Cancelled # es) = []"

definition stats_Run :: "int \<Rightarrow> timer_event list \<Rightarrow> log_record list" where
  "stats_Run interval es = (if interval \<le> 0 then [] else stats_loop es)"

section \<open>Facts about the metrics handler\<close>

lemma metrics_handle_open:
  "metrics_handle (LogOpen tok src tgt) =
     (let t = (if tok = [] then ''unknown'' else tok) in Ok [TotalInc t, ActiveInc t])"
  by (simp add: metrics_handle_def LogOpen_def metric_attr_def no_fields_def Let_def)

lemma metrics_handle_close:
  "metrics_handle (LogClose tok tgt d tx rx) =
     (let t = (if tok = [] then ''unknown'' else tok)
      in Ok [ActiveDec t, BytesAdd t ''tx'' tx, BytesAdd t ''rx'' rx, DurationObserve t (milliseconds d)])"
  by (simp add: metrics_handle_def LogClose_def metric_attr_def no_fields_def Let_def)

lemma metrics_handle_auth_failure: "metrics_handle (LogAuthFailure src) = Ok [AuthFailureInc]"
  by (simp add: metrics_handle_def LogAuthFailure_def metric_attr_def no_fields_def)

lemmas metrics_handle_simps = metrics_handle_open metrics_handle_close metrics_handle_auth_failure

text \<open>A record on which \<open>Value.Int64\<close> is only called on integers.\<close>

definition typed_attr :: "string \<times> attr_value \<Rightarrow> bool" where
  "typed_attr a \<longleftrightarrow>
     (fst a \<in> {''bytes_tx'', ''bytes_rx'', ''duration_ms''} \<longrightarrow> (\<exists>i. snd a = AInt i))"

definition typed_record :: "log_record \<Rightarrow> bool" where
  "typed_record r \<longleftrightarrow> list_all typed_attr (lr_attrs r)"

lemma metric_attr_ok: "typed_attr a \<Longrightarrow> \<exists>f'. metric_attr a f = Ok f'"
  by (auto simp: typed_attr_def metric_attr_def)

lemma metric_attrs_ok: "list_all typed_attr as \<Longrightarrow> \<exists>f'. metric_attrs as f = Ok f'"
proof (induction as arbitrary: f)
  case (Cons a as)
  then obtain f1 where "metric_attr a f = Ok f1" using metric_attr_ok [of a f] by auto
  with Cons show ?case by simp
qed simp

lemma metrics_handle_ok: "typed_record r \<Longrightarrow> \<exists>cs. metrics_handle r = Ok cs"
  using metric_attrs_ok [of "lr_attrs r" no_fields]
  by (auto simp: typed_record_def metrics_handle_def Let_def)

lemma typed_records [simp]:
  "typed_record (LogOpen tok src tgt)" "typed_record (LogClose tok tgt d tx rx)"
  "typed_record (LogAuthFailure src)" "typed_record (stats_record s)"
  by (simp_all add: typed_record_def typed_attr_def LogOpen_def LogClose_def LogAuthFailure_def
      stats_record_def)

lemma NewMetrics_Ok: "NewMetrics reg = Ok (m, reg') \<Longrightarrow> m = new_collectors"
  by (auto simp: NewMetrics_def obind_eq_Ok)

section \<open>Facts about the fan-out\<close>

text \<open>What one sink makes of a record, alone.\<close>

definition emitted :: "log_record \<Rightarrow> metric_call list" where
  "emitted r = (case metrics_handle r of Ok cs \<Rightarrow> cs | _ \<Rightarrow> [])"

fun deliver :: "log_record \<Rightarrow> sink \<Rightarrow> sink" where
  "deliver r (JsonSink sc ls w) =
     JsonSink sc (if LInfo \<le> lr_level r \<and> w then ls @ [(sc, r)] else ls) w"
| "deliver r (MetricsSink cs) =
     MetricsSink (if LInfo \<le> lr_level r then cs @ emitted r else cs)"

text \<open>The records of which the metrics handler makes a call that panics.\<close>

definition breaks :: "(metric_call \<Rightarrow> bool) \<Rightarrow> log_record \<Rightarrow> bool" where
  "breaks bad r \<longleftrightarrow> LInfo \<le> lr_level r \<and> list_ex bad (emitted r)"

definition is_metrics :: "sink \<Rightarrow> bool" where
  "is_metrics h \<longleftrightarrow> (\<exists>cs. h = MetricsSink cs)"

lemma is_metrics_simps [simp]: "is_metrics (MetricsSink cs)" "\<not> is_metrics (JsonSink sc ls w)"
  by (simp_all add: is_metrics_def)

lemma is_metrics_deliver [simp]: "is_metrics (deliver r h) = is_metrics h"
  by (cases h) simp_all

lemma sink_handle_deliver:
  assumes "typed_record r" and "sink_enabled h (lr_level r)"
  shows "\<exists>ok. sink_handle bad r h = (if is_metrics h \<and> breaks bad r then Panic else Ok (ok, deliver r h))"
proof (cases h)
  case (JsonSink sc ls w)
  then show ?thesis using assms by (intro exI [of _ w]) simp
next
  case (MetricsSink cs)
  then show ?thesis using assms metrics_handle_ok [OF assms(1)]
    by (auto simp: metrics_enabled_def emitted_def breaks_def)
qed

lemma deliver_disabled: "\<not> sink_enabled h (lr_level r) \<Longrightarrow> deliver r h = h"
  by (cases h) (simp_all add: metrics_enabled_def)

lemma breaks_enabled: "is_metrics h \<Longrightarrow> breaks bad r \<Longrightarrow> sink_enabled h (lr_level r)"
  by (auto simp: is_metrics_def breaks_def metrics_enabled_def)

lemma fan_handle_deliver:
  "typed_record r \<Longrightarrow>
   fan_handle bad r hs = (if list_ex is_metrics hs \<and> breaks bad r then Panic else Ok (map (deliver r) hs))"
proof (induction hs)
  case (Cons h hs)
  show ?case
  proof (cases "sink_enabled h (lr_level r)")
    case True
    then obtain ok where
      "sink_handle bad r h = (if is_metrics h \<and> breaks bad r then Panic else Ok (ok, deliver r h))"
      using sink_handle_deliver Cons.prems by blast
    with True Cons show ?thesis by auto
  next
    case False
    with Cons breaks_enabled [of h bad r] show ?thesis by (auto simp: deliver_disabled)
  qed
qed simp

lemma fan_disabled: "\<not> fan_enabled hs (lr_level r) \<Longrightarrow> map (deliver r) hs = hs"
  by (induction hs) (auto simp: fan_enabled_def deliver_disabled)

lemma log_to_deliver:
  "typed_record r \<Longrightarrow>
   log_to bad hs r = (if list_ex is_metrics hs \<and> breaks bad r then Panic else Ok (map (deliver r) hs))"
  using breaks_enabled [of _ bad r]
  by (auto simp: log_to_def fan_handle_deliver fan_disabled fan_enabled_def list_ex_iff)

lemma log_all_deliver:
  "\<forall>r \<in> set rs. typed_record r \<Longrightarrow>
   log_all bad hs rs =
     (if list_ex is_metrics hs \<and> list_ex (breaks bad) rs then Panic else Ok (map (fold deliver rs) hs))"
proof (induction rs arbitrary: hs)
  case (Cons r rs)
  then show ?case by (auto simp: log_to_deliver comp_def list.pred_map list_ex_iff)
qed simp

section \<open>Which calls panic\<close>

fun call_token :: "metric_call \<Rightarrow> string" where
  "call_token (TotalInc t) = t"
| "call_token (ActiveInc t) = t"
| "call_token (ActiveDec t) = t"
| "call_token (BytesAdd t d i) = t"
| "call_token (DurationObserve t ms) = t"
| "call_token AuthFailureInc = []"

text \<open>Every call of the handler has its token as the label, a byte count the direction as well.\<close>

lemma emitted_direction: "BytesAdd t d i \<in> set (emitted r) \<Longrightarrow> d = ''tx'' \<or> d = ''rx''"
  by (auto simp: emitted_def metrics_handle_def Let_def obind_def split: outcome.splits if_splits)

lemma emitted_panics:
  assumes "prometheus_documented p" and "c \<in> set (emitted r)"
  shows "call_panics p new_collectors c \<longleftrightarrow>
    \<not> valid_utf8 (call_token c) \<or> (\<exists>t d i. c = BytesAdd t d i \<and> i < 0)"
proof -
  have "valid_utf8 d" if "c = BytesAdd t d i" for t d i
    using emitted_direction [of t d i r] assms(2) that by (auto intro: valid_utf8_ascii)
  then show ?thesis using assms(1)
    by (cases c) (auto simp: call_panics_def new_collectors_def prometheus_documented_def)
qed

lemma fold_deliver_metrics:
  "\<forall>r \<in> set rs. LInfo \<le> lr_level r \<Longrightarrow>
   fold deliver rs (MetricsSink cs) = MetricsSink (cs @ concat (map emitted rs))"
  by (induction rs arbitrary: cs) simp_all

section \<open>The gauge of active connections\<close>

definition gauge :: "string \<Rightarrow> metric_call list \<Rightarrow> int" where
  "gauge t cs = int (count_list cs (ActiveInc t)) - int (count_list cs (ActiveDec t))"

lemma gauge_append [simp]: "gauge t (a @ b) = gauge t a + gauge t b"
  by (simp add: gauge_def)

lemma gauge_Nil [simp]: "gauge t [] = 0"
  by (simp add: gauge_def)

definition token_label :: "string \<Rightarrow> string" where
  "token_label tok = (if tok = [] then ''unknown'' else tok)"

lemma emitted_simps:
  "emitted (LogOpen tok src tgt) = [TotalInc (token_label tok), ActiveInc (token_label tok)]"
  "emitted (LogClose tok tgt d tx rx) =
     [ActiveDec (token_label tok), BytesAdd (token_label tok) ''tx'' tx,
      BytesAdd (token_label tok) ''rx'' rx, DurationObserve (token_label tok) (milliseconds d)]"
  "emitted (LogAuthFailure src) = [AuthFailureInc]"
  by (simp_all add: emitted_def metrics_handle_simps token_label_def Let_def)

lemma gauge_emitted:
  "gauge t (emitted (LogOpen tok src tgt)) = (if t = token_label tok then 1 else 0)"
  "gauge t (emitted (LogClose tok tgt d tx rx)) = (if t = token_label tok then - 1 else 0)"
  "gauge t (emitted (LogAuthFailure src)) = 0"
  by (simp_all add: emitted_simps gauge_def)

lemma lr_level_simps [simp]:
  "LInfo \<le> lr_level (LogOpen tok src tgt)" "LInfo \<le> lr_level (LogClose tok tgt d tx rx)"
  "LInfo \<le> lr_level (LogAuthFailure src)"
  by (simp_all add: LogOpen_def LogClose_def LogAuthFailure_def less_eq_level_def)

section \<open>The statistics do not depend on the interleaving\<close>

fun total_active :: "stat_op \<Rightarrow> int" where
  "total_active (AddActive i) = i" | "total_active _ = 0"

fun total_total :: "stat_op \<Rightarrow> int" where
  "total_total (AddTotal i) = i" | "total_total _ = 0"

fun total_tx :: "stat_op \<Rightarrow> int" where
  "total_tx (AddTx i) = i" | "total_tx _ = 0"

fun total_rx :: "stat_op \<Rightarrow> int" where
  "total_rx (AddRx i) = i" | "total_rx _ = 0"

definition stats_plus :: "stat_op list \<Rightarrow> stats \<Rightarrow> stats" where
  "stats_plus ops s =
     \<lparr>activeConns = activeConns s + of_int (sum_list (map total_active ops)),
      totalConns = totalConns s + of_int (sum_list (map total_total ops)),
      bytesTx = bytesTx s + of_int (sum_list (map total_tx ops)),
      bytesRx = bytesRx s + of_int (sum_list (map total_rx ops))\<rparr>"

lemma stat_run_sums: "stat_run ops s = stats_plus ops s"
proof (induction ops arbitrary: s)
  case Nil
  show ?case by (simp add: stat_run_def stats_plus_def)
next
  case (Cons x ops)
  have "stat_run (x # ops) s = stats_plus ops (stat_apply x s)"
    using Cons by (simp add: stat_run_def)
  then show ?case by (cases x) (simp_all add: stats_plus_def)
qed

lemma stat_run_mset: "mset ops = mset ops' \<Longrightarrow> stat_run ops s = stat_run ops' s"
proof -
  assume "mset ops = mset ops'"
  then have "sum_list (map f ops) = sum_list (map f ops')" for f :: "stat_op \<Rightarrow> int"
    using sum_mset_sum_list [of "map f ops"] sum_mset_sum_list [of "map f ops'"] by simp
  then show ?thesis by (simp add: stat_run_sums stats_plus_def)
qed

lemma stat_op_sums:
  "sum_list (map total_active ConnectionOpened) = 1" "sum_list (map total_total ConnectionOpened) = 1"
  "sum_list (map total_tx ConnectionOpened) = 0" "sum_list (map total_rx ConnectionOpened) = 0"
  "sum_list (map total_active (ConnectionClosed tx rx)) = - 1"
  "sum_list (map total_total (ConnectionClosed tx rx)) = 0"
  "sum_list (map total_tx (ConnectionClosed tx rx)) = tx"
  "sum_list (map total_rx (ConnectionClosed tx rx)) = rx"
  by (simp_all add: ConnectionOpened_def ConnectionClosed_def)

end
