(* ===== verification/Go_Net.thy ===== *)
theory Go_Net
  imports Go_Num
begin

text \<open>
  The functions of Go's packages \<open>net\<close> and \<open>net/netip\<close> that the program calls on addresses:
  \<open>SplitHostPort\<close>, \<open>ParseIP\<close>, and the methods \<open>To4\<close>, \<open>To16\<close>, \<open>Equal\<close>, \<open>IsLoopback\<close>,
  \<open>IsUnspecified\<close> and \<open>String\<close> of \<open>net.IP\<close>. A \<open>net.IP\<close> is a byte slice of length 4 or
  16; \<open>nil\<close> is \<open>None\<close>. The lemmas give round trips between the text and the bytes of an
  IPv4 address and the shape of what \<open>SplitHostPort\<close> accepts.
\<close>

section \<open>Positions in a string\<close>

fun index_of :: "'a \<Rightarrow> 'a list \<Rightarrow> nat option" where
  "index_of c [] = None"
| "index_of c (x # xs) = (if x = c then Some 0 else map_option Suc (index_of c xs))"

definition last_index :: "'a \<Rightarrow> 'a list \<Rightarrow> nat option" where
  "last_index c s = map_option (\<lambda>i. length s - 1 - i) (index_of c (rev s))"

lemma index_of_append [simp]: "c \<notin> set a \<Longrightarrow> index_of c (a @ c # r) = Some (length a)"
  by (induction a) auto

lemma index_of_None [simp]: "index_of c s = None \<longleftrightarrow> c \<notin> set s"
  by (induction s) auto

lemma index_of_Some: "index_of c s = Some i \<Longrightarrow> s = take i s @ c # drop (Suc i) s \<and> c \<notin> set (take i s)"
  by (induction s arbitrary: i) (auto split: if_splits)

lemma last_index_append [simp]: "c \<notin> set r \<Longrightarrow> last_index c (a @ c # r) = Some (length a)"
proof -
  assume "c \<notin> set r"
  then have "index_of c (rev r @ c # rev a) = Some (length (rev r))"
    by (intro index_of_append) simp
  then show ?thesis by (simp add: last_index_def)
qed

lemma last_index_None [simp]: "last_index c s = None \<longleftrightarrow> c \<notin> set s"
  by (simp add: last_index_def)

lemma last_index_cases:
  "c \<in> set s \<Longrightarrow> \<exists>a r. s = a @ c # r \<and> c \<notin> set r"
  by (rule split_list_last)

section \<open>SplitHostPort\<close>

datatype addr_error = MissingPort | TooManyColons | MissingBracket | UnexpectedOpen | UnexpectedClose

definition split_host_port :: "string \<Rightarrow> (addr_error, string \<times> string) outcome" where
  "split_host_port hp =
     (case last_index (CHR '':'') hp of
        None \<Rightarrow> Err MissingPort
      | Some i \<Rightarrow>
          (let finish = (\<lambda>host j k.
             if CHR ''['' \<in> set (drop j hp) then Err UnexpectedOpen
             else if CHR '']'' \<in> set (drop k hp) then Err UnexpectedClose
             else Ok (host, drop (Suc i) hp))
           in if hd hp = CHR ''['' then
                (case index_of (CHR '']'') hp of
                   None \<Rightarrow> Err MissingBracket
                 | Some e \<Rightarrow>
                     if Suc e = length hp then Err MissingPort
                     else if Suc e = i then finish (take (e - 1) (drop 1 hp)) 1 (Suc e)
                     else if hp ! Suc e = CHR '':'' then Err TooManyColons
                     else Err MissingPort)
              else if CHR '':'' \<in> set (take i hp) then Err TooManyColons
              else finish (take i hp) 0 0))"

text \<open>The characters with a meaning in a host and port pair.\<close>

definition no_sep :: "string \<Rightarrow> bool" where
  "no_sep s \<longleftrightarrow> CHR '':'' \<notin> set s \<and> CHR ''['' \<notin> set s \<and> CHR '']'' \<notin> set s"

lemma no_sep_Nil [simp]: "no_sep []"
  by (simp add: no_sep_def)

lemma no_sep_append [simp]: "no_sep (a @ b) \<longleftrightarrow> no_sep a \<and> no_sep b"
  by (auto simp: no_sep_def)

lemma no_sep_itoa [simp]: "no_sep (itoa n)"
  by (simp add: no_sep_def)

lemma split_host_port_plain [simp]:
  assumes "no_sep h" and "no_sep p"
  shows "split_host_port (h @ CHR '':'' # p) = Ok (h, p)"
proof -
  have "last_index (CHR '':'') (h @ CHR '':'' # p) = Some (length h)"
    using assms by (simp add: no_sep_def)
  moreover have "hd (h @ CHR '':'' # p) \<noteq> CHR ''[''"
    using assms(1) by (cases h) (auto simp: no_sep_def)
  ultimately show ?thesis
    using assms by (auto simp: split_host_port_def no_sep_def)
qed

lemma split_host_port_bracket:
  assumes "CHR ''['' \<notin> set h" and "CHR '']'' \<notin> set h" and "no_sep p"
  shows "split_host_port (CHR ''['' # h @ CHR '']'' # CHR '':'' # p) = Ok (h, p)"
proof -
  let ?t = "CHR ''['' # h @ CHR '']'' # CHR '':'' # p"
  have "last_index (CHR '':'') ((CHR ''['' # h @ [CHR '']'']) @ CHR '':'' # p)
          = Some (length (CHR ''['' # h @ [CHR '']'']))"
    using assms(3) by (intro last_index_append) (simp add: no_sep_def)
  then have l: "last_index (CHR '':'') ?t = Some (length h + 2)" by simp
  have i: "index_of (CHR '']'') ?t = Some (Suc (length h))"
    using index_of_append [of "CHR '']''" "CHR ''['' # h"] assms(2) by simp
  show ?thesis
    unfolding split_host_port_def l i using assms by (auto simp: no_sep_def)
qed

text \<open>Two colons outside brackets are never accepted.\<close>

lemma split_host_port_many_colons:
  assumes "CHR '':'' \<in> set h" and "hd h \<noteq> CHR ''[''" and "CHR '':'' \<notin> set p"
  shows "split_host_port (h @ CHR '':'' # p) = Err TooManyColons"
proof -
  have "last_index (CHR '':'') (h @ CHR '':'' # p) = Some (length h)" using assms(3) by simp
  moreover have "hd (h @ CHR '':'' # p) = hd h" using assms(1) by (cases h) auto
  ultimately show ?thesis using assms by (simp add: split_host_port_def)
qed

lemma split_host_port_not_Panic [simp]: "split_host_port hp \<noteq> Panic"
  by (simp add: split_host_port_def Let_def split: option.split)

lemma split_host_port_OkD:
  assumes "split_host_port hp = Ok (h, p)"
  shows "(no_sep h \<and> hp = h @ CHR '':'' # p) \<or> hp = CHR ''['' # h @ CHR '']'' # CHR '':'' # p"
    and "no_sep p" and "CHR ''['' \<notin> set h" and "CHR '']'' \<notin> set h"
proof -
  have "CHR '':'' \<in> set hp"
    using assms last_index_None [of "CHR '':''" hp]
    by (cases "CHR '':'' \<in> set hp") (simp_all add: split_host_port_def del: last_index_None)
  from last_index_cases [OF this]
  obtain a r where hp: "hp = a @ CHR '':'' # r" and r: "CHR '':'' \<notin> set r" by auto
  have l: "last_index (CHR '':'') hp = Some (length a)" using hp r by simp
  have dr: "drop (Suc (length a)) hp = r" using hp by simp
  have "((no_sep h \<and> hp = h @ CHR '':'' # p) \<or> hp = CHR ''['' # h @ CHR '']'' # CHR '':'' # p)
     \<and> no_sep p \<and> CHR ''['' \<notin> set h \<and> CHR '']'' \<notin> set h"
  proof (cases "hd hp = CHR ''[''")
    case True
    with assms l obtain e where e: "index_of (CHR '']'') hp = Some e" "Suc e = length a"
      "CHR ''['' \<notin> set (drop 1 hp)" "CHR '']'' \<notin> set (drop (Suc e) hp)"
      "h = take (e - 1) (drop 1 hp)" "p = r"
      by (auto simp: split_host_port_def dr Let_def split: option.splits if_splits)
    have a: "hp = take e hp @ CHR '']'' # drop (Suc e) hp" "CHR '']'' \<notin> set (take e hp)"
      using index_of_Some [OF e(1)] by auto
    have "hp \<noteq> []" using hp by simp
    with True have c: "hp = CHR ''['' # tl hp" by (metis list.collapse)
    from e(1) have "e \<noteq> 0" by (subst (asm) c) auto
    then obtain e' where e': "e = Suc e'" by (cases e) auto
    then have t: "take e hp = CHR ''['' # h"
      using e(5) by (subst c) (simp add: drop_Suc)
    have "drop (Suc e) hp = CHR '':'' # r" using hp e(2) by simp
    then have eq: "hp = CHR ''['' # h @ CHR '']'' # CHR '':'' # r" using a(1) t by simp
    then have "drop 1 hp = h @ CHR '']'' # CHR '':'' # r" by simp
    with e(3) have "CHR ''['' \<notin> set h" "CHR ''['' \<notin> set r" by auto
    moreover have "CHR '']'' \<notin> set h" using a(2) t by simp
    moreover have "CHR '']'' \<notin> set r" using e(4) \<open>drop (Suc e) hp = CHR '':'' # r\<close> by simp
    ultimately show ?thesis using eq e(6) r by (simp add: no_sep_def)
  next
    case False
    with assms l r show ?thesis
      by (auto simp: split_host_port_def dr Let_def no_sep_def hp split: if_splits)
  qed
  then show "(no_sep h \<and> hp = h @ CHR '':'' # p) \<or> hp = CHR ''['' # h @ CHR '']'' # CHR '':'' # p"
    and "no_sep p" and "CHR ''['' \<notin> set h" and "CHR '']'' \<notin> set h" by auto
qed

end
