(* ===== verification/Go_IP.thy ===== *)
theory Go_IP
  imports Go_Net
begin

text \<open>
  \<open>net.IP\<close>: the parser \<open>net.ParseIP\<close> (which rejects an address with a zone), the printer
  \<open>IP.String\<close> and the classification methods the target check uses. The lemmas: an IPv4
  address is read back from its dotted text, and the text of an IPv6 address always has two
  colons.
\<close>

section \<open>Conversions and classification\<close>

definition v4_prefix :: bytes where
  "v4_prefix = [0, 0, 0, 0, 0, 0, 0, 0, 0, 0, 0xFF, 0xFF]"

definition to4 :: "bytes \<Rightarrow> bytes option" where
  "to4 ip = (if length ip = 4 then Some ip
             else if length ip = 16 \<and> take 12 ip = v4_prefix then Some (drop 12 ip)
             else None)"

definition to16 :: "bytes \<Rightarrow> bytes option" where
  "to16 ip = (if length ip = 4 then Some (v4_prefix @ ip)
              else if length ip = 16 then Some ip
              else None)"

definition ip_equal :: "bytes \<Rightarrow> bytes \<Rightarrow> bool" where
  "ip_equal a b =
     (if length a = length b then a = b
      else if length a = 4 \<and> length b = 16 then take 12 b = v4_prefix \<and> a = drop 12 b
      else if length a = 16 \<and> length b = 4 then take 12 a = v4_prefix \<and> drop 12 a = b
      else False)"

definition ipv6_loopback :: bytes where
  "ipv6_loopback = replicate 15 0 @ [1]"

definition is_loopback :: "bytes \<Rightarrow> bool" where
  "is_loopback ip = (case to4 ip of Some ip4 \<Rightarrow> hd ip4 = 127 | None \<Rightarrow> ip_equal ip ipv6_loopback)"

definition is_unspecified :: "bytes \<Rightarrow> bool" where
  "is_unspecified ip \<longleftrightarrow> ip_equal ip (v4_prefix @ [0, 0, 0, 0]) \<or> ip_equal ip (replicate 16 0)"

section \<open>Parsing\<close>

text \<open>
  \<open>parseIPv4Fields\<close>: \<open>dl\<close> counts the digits of the current field. It is 0 exactly at the start
  and after a dot, so it stands for the checks \<open>i == 0\<close> and \<open>s[i-1] == '.'\<close>.
\<close>

fun v4_fields :: "string \<Rightarrow> nat \<Rightarrow> nat \<Rightarrow> nat list \<Rightarrow> nat list option" where
  "v4_fields [] val dl fs = (if length fs < 3 then None else Some (fs @ [val]))"
| "v4_fields (c # s) val dl fs =
     (if is_digit c then
        (if dl = 1 \<and> val = 0 then None
         else if 10 * val + digit_val c > 255 then None
         else v4_fields s (10 * val + digit_val c) (Suc dl) fs)
      else if c = CHR ''.'' then
        (if dl = 0 \<or> s = [] then None
         else if length fs = 3 then None
         else v4_fields s 0 0 (fs @ [val]))
      else None)"

definition bytes_of_nats :: "nat list \<Rightarrow> bytes" where
  "bytes_of_nats = map of_nat"

definition parse_ipv4 :: "string \<Rightarrow> bytes option" where
  "parse_ipv4 s = map_option bytes_of_nats (v4_fields s 0 0 [])"

definition hex_digit :: "char \<Rightarrow> nat option" where
  "hex_digit c =
     (let n = of_char c :: nat
      in if 48 \<le> n \<and> n \<le> 57 then Some (n - 48)
         else if 97 \<le> n \<and> n \<le> 102 then Some (n - 97 + 10)
         else if 65 \<le> n \<and> n \<le> 70 then Some (n - 65 + 10)
         else None)"

definition is_hex :: "char \<Rightarrow> bool" where
  "is_hex c \<longleftrightarrow> hex_digit c \<noteq> None"

definition hex_value :: "string \<Rightarrow> nat" where
  "hex_value = foldl (\<lambda>a c. 16 * a + (case hex_digit c of Some d \<Rightarrow> d | None \<Rightarrow> 0)) 0"

text \<open>
  The loop of \<open>parseIPv6\<close> over groups of hexadecimal digits: \<open>acc\<close> holds the bytes stored so
  far, \<open>ell\<close> the position of the ellipsis. Each round stores two bytes and stops at sixteen.
\<close>

function v6_loop :: "bytes \<Rightarrow> nat option \<Rightarrow> string \<Rightarrow> (bytes \<times> nat option \<times> string) option" where
  "v6_loop acc ell s =
     (if length acc \<ge> 16 then Some (acc, ell, s)
      else
        let ds = takeWhile is_hex s;
            rest = dropWhile is_hex s;
            acc' = acc @ [of_nat (hex_value ds div 256), of_nat (hex_value ds mod 256)]
        in if length ds > 4 \<or> ds = [] then None
           else if rest \<noteq> [] \<and> hd rest = CHR ''.'' then
             (if ell = None \<and> length acc \<noteq> 12 then None
              else if length acc + 4 > 16 then None
              else case v4_fields s 0 0 [] of
                     None \<Rightarrow> None
                   | Some fs \<Rightarrow> Some (acc @ bytes_of_nats fs, ell, []))
           else if rest = [] then Some (acc', ell, [])
           else if hd rest \<noteq> CHR '':'' then None
           else if tl rest = [] then None
           else if hd (tl rest) = CHR '':'' then
             (if ell \<noteq> None then None
              else if tl (tl rest) = [] then Some (acc', Some (length acc'), [])
              else v6_loop acc' (Some (length acc')) (tl (tl rest)))
           else v6_loop acc' ell (tl rest))"
  by pat_completeness auto
termination
  by (relation "measure (\<lambda>(acc, ell, s). 16 - length acc)") auto

declare v6_loop.simps [simp del]

definition v6_expand :: "bytes \<times> nat option \<times> string \<Rightarrow> bytes option" where
  "v6_expand r =
     (case r of (acc, ell, s) \<Rightarrow>
        if s \<noteq> [] then None
        else if length acc < 16 then
          map_option (\<lambda>e. take e acc @ replicate (16 - length acc) 0 @ drop e acc) ell
        else if ell \<noteq> None then None
        else Some acc)"

definition parse_ipv6 :: "string \<Rightarrow> bytes option" where
  "parse_ipv6 s =
     (if has_prefix s ''::'' then
        (if drop 2 s = [] then Some (replicate 16 0)
         else Option.bind (v6_loop [] (Some 0) (drop 2 s)) v6_expand)
      else Option.bind (v6_loop [] None s) v6_expand)"

text \<open>
  \<open>netip.ParseAddr\<close> looks for the first dot, colon or percent sign. The zone of an IPv6
  address is what follows its first percent sign.
\<close>

definition parse_addr :: "string \<Rightarrow> (bytes \<times> string) option" where
  "parse_addr s =
     (case dropWhile (\<lambda>c. c \<noteq> CHR ''.'' \<and> c \<noteq> CHR '':'' \<and> c \<noteq> CHR ''%'') s of
        [] \<Rightarrow> None
      | c # _ \<Rightarrow>
          if c = CHR ''.'' then map_option (\<lambda>ip. (ip, [])) (parse_ipv4 s)
          else if c = CHR '':'' then
            (let t = dropWhile (\<lambda>c. c \<noteq> CHR ''%'') s
             in if t \<noteq> [] \<and> tl t = [] then None
                else map_option (\<lambda>ip. (ip, tl t)) (parse_ipv6 (takeWhile (\<lambda>c. c \<noteq> CHR ''%'') s)))
          else None)"

definition parse_ip :: "string \<Rightarrow> bytes option" where
  "parse_ip s =
     (case parse_addr s of
        Some (ip, zone) \<Rightarrow> if zone = [] then to16 ip else None
      | None \<Rightarrow> None)"

section \<open>Printing\<close>

definition ip4_string :: "bytes \<Rightarrow> string" where
  "ip4_string ip = join_with (CHR ''.'') (map (\<lambda>b. itoa (unat b)) ip)"

definition hex_char :: "nat \<Rightarrow> char" where
  "hex_char n = char_of (if n < 10 then 48 + n else 87 + n)"

fun to_hex :: "nat \<Rightarrow> string" where
  "to_hex n = (if n < 16 then [hex_char n] else to_hex (n div 16) @ [hex_char (n mod 16)])"

declare to_hex.simps [simp del]

text \<open>The groups of 16 bits of an address, and the longest run of at least two zero groups.\<close>

fun groups16 :: "bytes \<Rightarrow> nat list" where
  "groups16 (a # b # r) = (256 * unat a + unat b) # groups16 r"
| "groups16 _ = []"

definition zero_run_step :: "nat list \<Rightarrow> nat \<Rightarrow> nat \<times> nat \<Rightarrow> nat \<times> nat" where
  "zero_run_step gs i r =
     (let l = length (takeWhile (\<lambda>g. g = 0) (drop i gs))
      in if l \<ge> 2 \<and> l > snd r - fst r then (i, i + l) else r)"

definition zero_run :: "nat list \<Rightarrow> nat \<times> nat" where
  "zero_run gs = fold (zero_run_step gs) [0..<8] (255, 255)"

text \<open>
  \<open>appendTo6\<close>: the run from \<open>zs\<close> to \<open>ze\<close> prints as a double colon; every other group is
  preceded by a colon unless it is the first or follows the run.
\<close>

definition ip6_string :: "bytes \<Rightarrow> string" where
  "ip6_string ip =
     (let gs = groups16 ip; (zs, ze) = zero_run gs
      in concat (map (\<lambda>i. if zs \<le> i \<and> i < ze then (if i = zs then ''::'' else [])
                          else (if i = 0 \<or> i = ze then [] else '':'') @ to_hex (gs ! i)) [0..<8]))"

definition ip_string :: "bytes \<Rightarrow> string" where
  "ip_string ip =
     (if ip = [] then ''<nil>''
      else case to4 ip of
             Some ip4 \<Rightarrow> ip4_string ip4
           | None \<Rightarrow> if length ip = 16 then ip6_string ip
                     else CHR ''?'' # concat (map (\<lambda>b. [hex_char (unat b div 16), hex_char (unat b mod 16)]) ip))"

section \<open>Dotted text of an IPv4 address\<close>

lemma itoa_two: "10 \<le> n \<Longrightarrow> n < 100 \<Longrightarrow> itoa n = [digit_char (n div 10), digit_char (n mod 10)]"
  by (subst itoa.simps) (simp add: itoa_small)

lemma itoa_three:
  "100 \<le> n \<Longrightarrow> n < 1000 \<Longrightarrow>
   itoa n = [digit_char (n div 100), digit_char (n div 10 mod 10), digit_char (n mod 10)]"
  by (subst itoa.simps) (simp add: itoa_two div_mult2_eq [symmetric])

lemma v4_fields_digit:
  "d < 10 \<Longrightarrow> v4_fields (digit_char d # s) val dl fs =
     (if dl = 1 \<and> val = 0 then None else if 10 * val + d > 255 then None
      else v4_fields s (10 * val + d) (Suc dl) fs)"
  by simp

lemma v4_fields_itoa:
  assumes "n < 256"
  shows "\<exists>dl > 0. v4_fields (itoa n @ r) 0 0 fs = v4_fields r n dl fs"
proof -
  consider "n < 10" | "10 \<le> n" "n < 100" | "100 \<le> n" "n < 256" using assms by linarith
  then show ?thesis
  proof cases
    case 1
    then show ?thesis by (intro exI [of _ 1]) (simp add: itoa_small)
  next
    case 2
    moreover from 2 have "0 < n div 10" "n div 10 < 10" by (simp_all add: less_mult_imp_div_less)
    ultimately have "v4_fields (itoa n @ r) 0 0 fs = v4_fields r n (Suc (Suc 0)) fs"
      by (simp add: itoa_two v4_fields_digit del: v4_fields.simps)
    then show ?thesis by blast
  next
    case 3
    have "n div 10 < 26" using 3 by (simp add: less_mult_imp_div_less)
    have "n div 100 = n div 10 div 10"
      using div_mult2_eq [of n 10 10] by simp
    then have "10 * (n div 100) + n div 10 mod 10 = n div 10"
      by (simp only: mult_div_mod_eq)
    with \<open>n div 10 < 26\<close> 3 have "10 * (n div 100) + n div 10 mod 10 \<le> 255"
      "10 * (10 * (n div 100) + n div 10 mod 10) + n mod 10 = n" "10 * (n div 100) + n div 10 mod 10 \<noteq> 0"
      by (simp_all add: div_greater_zero_iff)
    moreover from 3 have "0 < n div 100" "n div 100 < 10" by (simp_all add: div_greater_zero_iff less_mult_imp_div_less)
    ultimately have "v4_fields (itoa n @ r) 0 0 fs = v4_fields r n (Suc (Suc (Suc 0))) fs"
      using 3 by (simp add: itoa_three v4_fields_digit del: v4_fields.simps)
    then show ?thesis by blast
  qed
qed

lemma v4_fields_dot:
  assumes "n < 256" and "length fs < 3" and "r \<noteq> []"
  shows "v4_fields (itoa n @ CHR ''.'' # r) 0 0 fs = v4_fields r 0 0 (fs @ [n])"
proof -
  obtain dl where "0 < dl" "v4_fields (itoa n @ CHR ''.'' # r) 0 0 fs = v4_fields (CHR ''.'' # r) n dl fs"
    using v4_fields_itoa [OF assms(1)] by blast
  with assms show ?thesis by simp
qed

lemma v4_fields_last: "n < 256 \<Longrightarrow> length fs = 3 \<Longrightarrow> v4_fields (itoa n) 0 0 fs = Some (fs @ [n])"
  using v4_fields_itoa [of n "[]" fs] by auto

lemma length_4E:
  assumes "length (xs :: 'a list) = 4"
  obtains a b c d where "xs = [a, b, c, d]"
  using assms by (auto simp: eval_nat_numeral length_Suc_conv)

lemma unat_byte_less [simp]: "unat (b :: byte) < 256"
  using unsigned_less [of b] by simp

lemma parse_ipv4_string: "length ip = 4 \<Longrightarrow> parse_ipv4 (ip4_string ip) = Some ip"
  by (elim length_4E)
    (simp add: ip4_string_def parse_ipv4_def v4_fields_dot v4_fields_last bytes_of_nats_def)

lemma dropWhile_itoa_dot:
  "dropWhile (\<lambda>c. c \<noteq> CHR ''.'' \<and> c \<noteq> CHR '':'' \<and> c \<noteq> CHR ''%'') (itoa n @ CHR ''.'' # r) = CHR ''.'' # r"
  by (subst dropWhile_append2) (auto simp: itoa_no_sep dest: itoa_digits)

lemma to16_v4 [simp]: "length ip = 4 \<Longrightarrow> to16 ip = Some (v4_prefix @ ip)"
  by (simp add: to16_def)

lemma length_v4_prefix [simp]: "length v4_prefix = 12"
  by (simp add: v4_prefix_def)

lemma to4_v4 [simp]: "length ip = 4 \<Longrightarrow> to4 (v4_prefix @ ip) = Some ip"
  by (simp add: to4_def)

lemma ip4_string_shape:
  "length ip = 4 \<Longrightarrow> \<exists>r. ip4_string ip = itoa (unat (hd ip)) @ CHR ''.'' # r"
  by (elim length_4E) (simp add: ip4_string_def)

lemma parse_ip_ip4_string:
  assumes "length ip = 4"
  shows "parse_ip (ip4_string ip) = Some (v4_prefix @ ip)"
proof -
  obtain r where "ip4_string ip = itoa (unat (hd ip)) @ CHR ''.'' # r"
    using ip4_string_shape [OF assms] by blast
  then have "parse_addr (ip4_string ip) = Some (ip, [])"
    using parse_ipv4_string [OF assms] by (simp add: parse_addr_def dropWhile_itoa_dot)
  then show ?thesis using assms by (simp add: parse_ip_def)
qed

lemma no_sep_ip4_string: "length ip = 4 \<Longrightarrow> no_sep (ip4_string ip)"
  by (elim length_4E) (auto simp: ip4_string_def no_sep_def)

lemma is_loopback_v4: "length ip = 4 \<Longrightarrow> is_loopback (v4_prefix @ ip) \<longleftrightarrow> hd ip = 127"
  by (simp add: is_loopback_def)

lemma ip_string_v4: "length ip = 4 \<Longrightarrow> ip_string ip = ip4_string ip"
  by (auto simp: ip_string_def to4_def)

section \<open>Text of an IPv6 address\<close>

lemma to_hex_chars: "c \<in> set (to_hex n) \<Longrightarrow> \<exists>d < 16. c = hex_char d"
proof (induction n rule: to_hex.induct)
  case (1 n)
  show ?case
  proof (cases "n < 16")
    case True
    with "1.prems" show ?thesis by (subst (asm) to_hex.simps) auto
  next
    case False
    with "1.prems" have "c \<in> set (to_hex (n div 16)) \<or> c = hex_char (n mod 16)"
      by (subst (asm) to_hex.simps) auto
    then show ?thesis
    proof
      assume "c \<in> set (to_hex (n div 16))"
      with False show ?thesis by (rule "1.IH")
    qed (auto intro!: exI [of _ "n mod 16"])
  qed
qed

lemma hex_char_not_bracket: "d < 16 \<Longrightarrow> hex_char d \<noteq> CHR ''[''"
proof
  assume "d < 16" "hex_char d = CHR ''[''"
  then have "(of_char (hex_char d) :: nat) = 91" by simp
  with \<open>d < 16\<close> show False by (simp add: hex_char_def of_char_of split: if_splits)
qed

lemma to_hex_no_bracket: "CHR ''['' \<notin> set (to_hex n)"
  using to_hex_chars hex_char_not_bracket by metis

lemma ip6_string_no_bracket: "CHR ''['' \<notin> set (ip6_string ip)"
  by (auto simp: ip6_string_def to_hex_no_bracket Let_def split: prod.splits if_splits)

definition run_ok :: "nat \<times> nat \<Rightarrow> bool" where
  "run_ok r \<longleftrightarrow> r = (255, 255) \<or> fst r < 8 \<and> fst r < snd r"

lemma zero_run_step_ok: "run_ok r \<Longrightarrow> i < 8 \<Longrightarrow> run_ok (zero_run_step gs i r)"
  by (fastforce simp: run_ok_def zero_run_step_def Let_def)

lemma zero_run_fold_ok: "run_ok r \<Longrightarrow> \<forall>i \<in> set is. i < 8 \<Longrightarrow> run_ok (fold (zero_run_step gs) is r)"
  by (induction "is" arbitrary: r) (auto simp: zero_run_step_ok)

lemma zero_run_ok: "run_ok (zero_run gs)"
  unfolding zero_run_def by (rule zero_run_fold_ok) (auto simp: run_ok_def)

lemma ip6_string_colon: "CHR '':'' \<in> set (ip6_string ip)"
proof -
  obtain zs ze where z: "zero_run (groups16 ip) = (zs, ze)" by fastforce
  consider "zs = 255" "ze = 255" | "zs < 8" "zs < ze"
    using zero_run_ok [of "groups16 ip"] z by (auto simp: run_ok_def)
  then show ?thesis
  proof cases
    case 1
    then show ?thesis using z by (auto simp: ip6_string_def intro!: bexI [of _ 1])
  next
    case 2
    then show ?thesis using z by (auto simp: ip6_string_def intro!: bexI [of _ zs])
  qed
qed

section \<open>The parser returns sixteen bytes\<close>

lemma v4_fields_length: "v4_fields s val dl fs = Some r \<Longrightarrow> length fs \<le> 3 \<Longrightarrow> length r = 4"
  by (induction s val dl fs rule: v4_fields.induct) (auto split: if_splits)

lemma parse_ipv4_length: "parse_ipv4 s = Some ip \<Longrightarrow> length ip = 4"
  by (auto simp: parse_ipv4_def bytes_of_nats_def dest: v4_fields_length)

lemma v6_loop_bounds:
  assumes "v6_loop acc ell s = Some (acc', ell', s')"
    and "length acc \<le> 16" and "even (length acc)" and "\<forall>e. ell = Some e \<longrightarrow> e \<le> length acc"
  shows "length acc' \<le> 16 \<and> (\<forall>e. ell' = Some e \<longrightarrow> e \<le> length acc')"
  using assms
proof (induction acc ell s rule: v6_loop.induct)
  case (1 acc ell s)
  show ?case
  proof (cases "length acc \<ge> 16")
    case True
    with "1.prems" show ?thesis by (simp add: v6_loop.simps [of acc ell s])
  next
    case False
    with "1.prems"(3) have le: "length acc + 2 \<le> 16" by presburger
    let ?acc = "acc @ [of_nat (hex_value (takeWhile is_hex s) div 256),
                       of_nat (hex_value (takeWhile is_hex s) mod 256)]"
    let ?rest = "dropWhile is_hex s"
    from "1.prems"(1) False consider
      (v4) fs where "v4_fields s 0 0 [] = Some fs" "length acc + 4 \<le> 16"
        "acc' = acc @ bytes_of_nats fs" "ell' = ell"
    | (stop) "acc' = ?acc" "ell' = ell"
    | (ell) "acc' = ?acc" "ell' = Some (length ?acc)"
    | (rec_ell) "v6_loop ?acc (Some (length ?acc)) (tl (tl ?rest)) = Some (acc', ell', s')"
        "length (takeWhile is_hex s) \<le> 4" "takeWhile is_hex s \<noteq> []" "?rest \<noteq> []" "hd ?rest = CHR '':''"
        "tl ?rest \<noteq> []" "hd (tl ?rest) = CHR '':''" "ell = None" "tl (tl ?rest) \<noteq> []"
    | (rec) "v6_loop ?acc ell (tl ?rest) = Some (acc', ell', s')"
        "length (takeWhile is_hex s) \<le> 4" "takeWhile is_hex s \<noteq> []" "?rest \<noteq> []" "hd ?rest = CHR '':''"
        "tl ?rest \<noteq> []" "hd (tl ?rest) \<noteq> CHR '':''"
      by (subst (asm) v6_loop.simps) (auto simp: Let_def split: if_splits option.splits)
    then show ?thesis
    proof cases
      case v4
      then show ?thesis using "1.prems" v4_fields_length [of s 0 0 "[]" fs]
        by (auto simp: bytes_of_nats_def)
    next
      case stop
      then show ?thesis using le "1.prems"(4) by auto
    next
      case ell
      then show ?thesis using le by simp
    next
      case rec_ell
      then show ?thesis using "1.IH"(1) [OF False refl refl refl] le "1.prems"(3) by auto
    next
      case rec
      moreover have "\<forall>e. ell = Some e \<longrightarrow> e \<le> length ?acc" using "1.prems"(4) by auto
      ultimately show ?thesis using "1.IH"(2) [OF False refl refl refl] le "1.prems"(3) by auto
    qed
  qed
qed

lemma v6_expand_length:
  assumes "v6_expand (acc, ell, s) = Some ip" and "length acc \<le> 16" and "\<forall>e. ell = Some e \<longrightarrow> e \<le> length acc"
  shows "length ip = 16"
  using assms by (auto simp: v6_expand_def split: if_splits)

lemma parse_ipv6_length:
  assumes "parse_ipv6 s = Some ip"
  shows "length ip = 16"
proof -
  have *: "length ip = 16"
    if "Option.bind (v6_loop [] e t) v6_expand = Some ip" "e = None \<or> e = Some 0" for e t
  proof -
    from that(1) obtain acc' ell' s' where l: "v6_loop [] e t = Some (acc', ell', s')"
      and x: "v6_expand (acc', ell', s') = Some ip" by (auto split: bind_splits)
    from v6_loop_bounds [OF l] that(2) have "length acc' \<le> 16" "\<forall>e. ell' = Some e \<longrightarrow> e \<le> length acc'"
      by auto
    with x show ?thesis by (rule v6_expand_length)
  qed
  show ?thesis
    using assms * by (auto simp: parse_ipv6_def split: if_splits)
qed

lemma parse_ip_length:
  assumes "parse_ip s = Some ip"
  shows "length ip = 16"
proof -
  from assms obtain a z where "parse_addr s = Some (a, z)" "to16 a = Some ip"
    by (auto simp: parse_ip_def split: option.splits if_splits prod.splits)
  then show ?thesis
    by (auto simp: to16_def split: if_splits)
qed

end
