(* ===== verification/Target.thy ===== *)
theory Target
  imports Go_IP
begin

text \<open>
  \<open>validateTarget\<close> and \<open>extractBearer\<close> of \<open>internal/server/server.go\<close>: the filter that keeps
  clients from the server's own loopback, and the bearer token of a request.

  Name resolution is the argument \<open>lookup\<close>: the addresses that \<open>net.LookupHost\<close> returns for a host,
  \<open>None\<close> when it fails.
\<close>

type_synonym lookup_host = "string \<Rightarrow> string list option"

datatype target_error = InvalidTarget addr_error | NotAllowed | ResolvesToLoopback

definition extractBearer :: "string \<Rightarrow> string" where
  "extractBearer h = (if \<not> has_prefix h ''Bearer '' then [] else trim_prefix h ''Bearer '')"

text \<open>\<open>ip != nil && (ip.IsLoopback() || ip.IsUnspecified())\<close>\<close>

definition forbidden_ip :: "bytes option \<Rightarrow> bool" where
  "forbidden_ip ip = (case ip of None \<Rightarrow> False | Some a \<Rightarrow> is_loopback a \<or> is_unspecified a)"

definition blocked_hosts :: "string list" where
  "blocked_hosts = [''localhost'', ''127.0.0.1'', ''::1'', ''0.0.0.0'']"

definition validateTarget :: "lookup_host \<Rightarrow> string \<Rightarrow> target_error option" where
  "validateTarget lookup target =
     (case split_host_port target of
        Err e \<Rightarrow> Some (InvalidTarget e)
      | Panic \<Rightarrow> None
      | Ok (host, _) \<Rightarrow>
          let ip = parse_ip host
          in if forbidden_ip ip then Some NotAllowed
             else if list_ex (\<lambda>b. equal_fold host b) blocked_hosts then Some NotAllowed
             else if ip = None then
               (case lookup host of
                  None \<Rightarrow> None
                | Some addrs \<Rightarrow>
                    if list_ex (\<lambda>a. forbidden_ip (parse_ip a)) addrs then Some ResolvesToLoopback
                    else None)
             else None)"

section \<open>What an accepted target is\<close>

lemma extractBearer_iff: "extractBearer h = b \<and> b \<noteq> [] \<longleftrightarrow> h = ''Bearer '' @ b \<and> b \<noteq> []"
  by (auto simp: extractBearer_def trim_prefix_def has_prefix_iff)

lemma validateTarget_ok_iff:
  "validateTarget lookup target = None \<longleftrightarrow>
     (\<exists>h p. split_host_port target = Ok (h, p) \<and> \<not> forbidden_ip (parse_ip h) \<and>
        (\<forall>b \<in> set blocked_hosts. \<not> equal_fold h b) \<and>
        (parse_ip h = None \<longrightarrow> (\<forall>as. lookup h = Some as \<longrightarrow> (\<forall>a \<in> set as. \<not> forbidden_ip (parse_ip a)))))"
  by (auto simp: validateTarget_def Let_def list_ex_iff split: outcome.split option.split)

text \<open>The addresses a dial of the host can reach: the literal itself, else what the resolver says.\<close>

definition dial_ips :: "lookup_host \<Rightarrow> string \<Rightarrow> bytes list" where
  "dial_ips lookup h =
     (case parse_ip h of
        Some a \<Rightarrow> [a]
      | None \<Rightarrow> (case lookup h of None \<Rightarrow> [] | Some as \<Rightarrow> List.map_filter parse_ip as))"

lemma validateTarget_dial_ips:
  assumes "validateTarget lookup target = None" and "split_host_port target = Ok (h, p)"
    and "a \<in> set (dial_ips lookup h)"
  shows "\<not> is_loopback a \<and> \<not> is_unspecified a"
  using assms
  by (auto simp: validateTarget_ok_iff dial_ips_def forbidden_ip_def List.map_filter_def
      split: option.splits dest: sym)

text \<open>A host that folds to a blocked name, when it has no characters outside ASCII.\<close>

lemma equal_fold_ascii:
  assumes "equal_fold h b" and "\<forall>c \<in> set h. (of_char c :: nat) < 128"
  shows "map lower_char h = map lower_char b"
  using assms
proof (induction h b rule: equal_fold.induct)
  case (2 s t ts)
  then show ?case
    by (cases s) (auto simp: fold_head_def split: if_splits)
qed simp

lemma ip4_string_chars:
  assumes "length ip = 4" and "c \<in> set (ip4_string ip)"
  shows "c = CHR ''.'' \<or> is_digit c"
  using assms by (elim length_4E) (auto simp: ip4_string_def dest: itoa_digits)

lemma is_digit_lower: "is_digit c \<Longrightarrow> lower_char c = c \<and> (of_char c :: nat) < 128 \<and> c \<noteq> CHR ''l''"
  by (auto simp: is_digit_def lower_char_def Let_def)

lemma blocked_hosts_lower: "\<forall>b \<in> set blocked_hosts. map lower_char b = b"
  by code_simp

lemma ip4_string_blocked:
  assumes "length ip = 4" and "b \<in> set blocked_hosts" and "equal_fold (ip4_string ip) b"
  shows "hd ip = 127 \<or> ip = [0, 0, 0, 0]"
proof -
  have chars: "(of_char c :: nat) < 128 \<and> lower_char c = c \<and> c \<noteq> CHR ''l''" if "c \<in> set (ip4_string ip)" for c
    using ip4_string_chars [OF assms(1) that] is_digit_lower [of c] by (auto simp: lower_char_def)
  then have "map lower_char (ip4_string ip) = map lower_char b"
    using equal_fold_ascii [OF assms(3)] by blast
  moreover have "map lower_char (ip4_string ip) = ip4_string ip"
    using chars by (simp add: map_idI)
  moreover have "map lower_char b = b" using blocked_hosts_lower assms(2) by blast
  ultimately have eq: "ip4_string ip = b" by simp
  have "CHR ''l'' \<notin> set b" "CHR '':'' \<notin> set b"
    using chars no_sep_ip4_string [OF assms(1)] unfolding eq no_sep_def by auto
  with assms(2) eq have "ip4_string ip = ''127.0.0.1'' \<or> ip4_string ip = ''0.0.0.0''"
    by (auto simp: blocked_hosts_def)
  moreover have "parse_ip ''127.0.0.1'' = Some (v4_prefix @ [127, 0, 0, 1])"
    "parse_ip ''0.0.0.0'' = Some (v4_prefix @ [0, 0, 0, 0])" by code_simp+
  ultimately show ?thesis using parse_ip_ip4_string [OF assms(1)] by auto
qed

lemma validateTarget_v4_literal:
  assumes "length ip = 4" and "no_sep p"
  shows "validateTarget lookup (ip4_string ip @ CHR '':'' # p) = None \<longleftrightarrow>
    hd ip \<noteq> 127 \<and> ip \<noteq> [0, 0, 0, 0]"
proof -
  have "is_unspecified (v4_prefix @ ip) \<longleftrightarrow> ip = [0, 0, 0, 0]"
    using assms(1) by (auto simp: is_unspecified_def ip_equal_def v4_prefix_def eval_nat_numeral)
  then show ?thesis
    using assms ip4_string_blocked [OF assms(1)]
    by (auto simp: validateTarget_ok_iff no_sep_ip4_string parse_ip_ip4_string forbidden_ip_def
        is_loopback_v4)
qed

lemma equal_fold_lower:
  "map lower_char h = map lower_char b \<Longrightarrow> equal_fold h b"
  by (induction h b rule: list_induct2') (simp_all add: fold_head_def)

lemma validateTarget_localhost:
  assumes "map lower_char h = ''localhost''"
  shows "validateTarget lookup (h @ CHR '':'' # p) \<noteq> None"
proof
  assume "validateTarget lookup (h @ CHR '':'' # p) = None"
  then obtain h' p' where *: "split_host_port (h @ CHR '':'' # p) = Ok (h', p')"
    "\<forall>b \<in> set blocked_hosts. \<not> equal_fold h' b" by (auto simp: validateTarget_ok_iff)
  have low: "c \<in> set h \<Longrightarrow> lower_char c \<in> set ''localhost''" for c
    using assms by (metis imageI list.set_map)
  have not: "CHR '':'' \<notin> set h" "CHR ''['' \<notin> set h"
    using low [of "CHR '':''"] low [of "CHR ''[''"] by (auto simp: lower_char_def)
  have "h' = h"
    using split_host_port_OkD [OF *(1)] not
    by (auto simp: no_sep_def append_eq_append_conv2 append_eq_Cons_conv Cons_eq_append_conv)
  moreover have "equal_fold h ''localhost''"
    using assms by (intro equal_fold_lower) (simp add: lower_char_def)
  ultimately show False using *(2) by (simp add: blocked_hosts_def)
qed

section \<open>Properties\<close>



text \<open>For a target whose host is an IPv4 literal the answer does not depend on name resolution: it is
  refused exactly when the address is in 127.0.0.0/8 or is 0.0.0.0.\<close>

lemma validateTarget_ipv4:
  assumes "length ip = 4"
  shows "(validateTarget lookup (ip4_string ip @ '':'' @ itoa port) = None) = (hd ip \<noteq> 127 \<and> ip \<noteq> [0, 0, 0, 0])"
  using validateTarget_v4_literal [OF assms no_sep_itoa] by simp

text \<open>The host \<open>localhost\<close> is refused in every spelling of its letters, on every port and whatever the
  resolver says.\<close>

lemma validateTarget_localhost_refused:
  assumes "map lower_char h = ''localhost''"
  shows "validateTarget lookup (h @ '':'' @ p) \<noteq> None"
  using validateTarget_localhost [OF assms] by simp

text \<open>What the filter lets through although the server dials itself with it: an empty host (which Go
  dials as the local system) and the loopback address with a zone (which \<open>net.ParseIP\<close> does not
  parse), because a failed lookup counts as a pass, as for every other name that does not resolve at
  that moment.\<close>

lemma validateTarget_gaps:
  "validateTarget (\<lambda>_. None) '':22'' = None \<and>
   validateTarget (\<lambda>h. Some [h]) ''[::1%lo]:22'' = None \<and>
   validateTarget (\<lambda>_. None) ''loopback.example:22'' = None \<and>
   validateTarget (\<lambda>_. Some [''127.0.0.1'']) ''loopback.example:22'' = Some ResolvesToLoopback \<and>
   validateTarget (\<lambda>_. None) ''[::1]:22'' = Some NotAllowed"
  by (intro conjI; code_simp)

end
