(* ===== verification/Go_URL.thy ===== *)
theory Go_URL
  imports Go_IP "HOL-Library.Char_ord" "HOL-Library.List_Lexorder" "HOL-Library.AList"
begin

text \<open>
  The parts of package \<open>net/url\<close> that the program uses: query escaping, \<open>ParseQuery\<close>, and the
  methods \<open>Get\<close>, \<open>Set\<close> and \<open>Encode\<close> of \<open>Values\<close>. A \<open>Values\<close> map is an association list with
  distinct keys. A parsed URL keeps the fields that the program reads and writes.
\<close>

section \<open>Escaping\<close>

definition unreserved :: "char \<Rightarrow> bool" where
  "unreserved c \<longleftrightarrow>
     (let n = of_char c :: nat
      in 97 \<le> n \<and> n \<le> 122 \<or> 65 \<le> n \<and> n \<le> 90 \<or> 48 \<le> n \<and> n \<le> 57 \<or> n \<in> {45, 95, 46, 126})"

definition upper_hex :: "nat \<Rightarrow> char" where
  "upper_hex n = char_of (if n < 10 then 48 + n else 55 + n)"

definition escape_char :: "char \<Rightarrow> string" where
  "escape_char c =
     (if unreserved c then [c]
      else if c = CHR '' '' then ''+''
      else let n = of_char c :: nat in [CHR ''%'', upper_hex (n div 16), upper_hex (n mod 16)])"

definition query_escape :: "string \<Rightarrow> string" where
  "query_escape s = concat (map escape_char s)"

fun query_unescape :: "string \<Rightarrow> string option" where
  "query_unescape [] = Some []"
| "query_unescape (c # s) =
     (if c = CHR ''%'' then
        (case s of
           a # b # r \<Rightarrow>
             (case (hex_digit a, hex_digit b) of
                (Some x, Some y) \<Rightarrow> map_option (Cons (char_of (16 * x + y))) (query_unescape r)
              | _ \<Rightarrow> None)
         | _ \<Rightarrow> None)
      else map_option (Cons (if c = CHR ''+'' then CHR '' '' else c)) (query_unescape s))"

section \<open>Values\<close>

type_synonym url_values = "(string \<times> string list) list"

definition values_add :: "string \<Rightarrow> string \<Rightarrow> url_values \<Rightarrow> url_values" where
  "values_add k v vs =
     AList.update k ((case map_of vs k of Some l \<Rightarrow> l | None \<Rightarrow> []) @ [v]) vs"

definition values_set :: "string \<Rightarrow> string \<Rightarrow> url_values \<Rightarrow> url_values" where
  "values_set k v vs = AList.update k [v] vs"

definition values_get :: "string \<Rightarrow> url_values \<Rightarrow> string" where
  "values_get k vs = (case map_of vs k of Some (v # _) \<Rightarrow> v | _ \<Rightarrow> [])"

text \<open>\<open>strings.Cut(s, "=")\<close>\<close>

definition cut_eq :: "string \<Rightarrow> string \<times> string" where
  "cut_eq s = (takeWhile (\<lambda>c. c \<noteq> CHR ''='') s, drop 1 (dropWhile (\<lambda>c. c \<noteq> CHR ''='') s))"

text \<open>One setting of \<open>ParseQuery\<close>; the caller ignores the error, so a bad setting is skipped.\<close>

definition parse_setting :: "string \<Rightarrow> url_values \<Rightarrow> url_values" where
  "parse_setting s vs =
     (if s = [] \<or> CHR '';'' \<in> set s then vs
      else let (k, v) = cut_eq s
           in case (query_unescape k, query_unescape v) of
                (Some k', Some v') \<Rightarrow> values_add k' v' vs
              | _ \<Rightarrow> vs)"

definition parse_query :: "string \<Rightarrow> url_values" where
  "parse_query q = fold parse_setting (split_on (CHR ''&'') q) []"

definition encode_pairs :: "url_values \<Rightarrow> string list" where
  "encode_pairs vs =
     concat (map (\<lambda>k. map (\<lambda>v. query_escape k @ CHR ''='' # query_escape v) (the (map_of vs k)))
                 (sort (map fst vs)))"

definition values_encode :: "url_values \<Rightarrow> string" where
  "values_encode vs = join_with (CHR ''&'') (encode_pairs vs)"

text \<open>\<open>u_user\<close> is the user name with the password, if one was given.\<close>

record go_url =
  u_scheme :: string
  u_opaque :: string
  u_user :: "(string \<times> string option) option"
  u_host :: string
  u_path :: string
  u_raw_path :: string
  u_omit_host :: bool
  u_force_query :: bool
  u_raw_query :: string
  u_fragment :: string
  u_raw_fragment :: string

section \<open>Round trips\<close>

lemma hex_digit_upper: "n < 16 \<Longrightarrow> hex_digit (upper_hex n) = Some n"
  by (auto simp: hex_digit_def upper_hex_def of_char_of Let_def)

lemma of_char_less: "(of_char c :: nat) < 256"
  by (metis mod_less_divisor of_char_mod_256 zero_less_numeral)

lemma unreserved_plain:
  "unreserved c \<Longrightarrow> c \<noteq> CHR ''%'' \<and> c \<noteq> CHR ''+'' \<and> c \<noteq> CHR ''&'' \<and> c \<noteq> CHR ''='' \<and> c \<noteq> CHR '';''"
  by (auto simp: unreserved_def)

lemma unescape_escape_char:
  "query_unescape (escape_char c @ s) = map_option (Cons c) (query_unescape s)"
proof (cases "unreserved c")
  case True
  then show ?thesis using unreserved_plain [OF True] by (simp add: escape_char_def)
next
  case False
  have "(of_char c :: nat) div 16 < 16" using of_char_less [of c] by linarith
  then show ?thesis
    using False by (simp add: escape_char_def hex_digit_upper Let_def)
qed

lemma query_unescape_escape [simp]: "query_unescape (query_escape s) = Some s"
  unfolding query_escape_def by (induction s) (simp_all add: unescape_escape_char)

definition plain_query :: "string \<Rightarrow> bool" where
  "plain_query s \<longleftrightarrow> CHR ''&'' \<notin> set s \<and> CHR ''='' \<notin> set s \<and> CHR '';'' \<notin> set s"

lemma upper_hex_plain: "n < 16 \<Longrightarrow> upper_hex n \<noteq> CHR ''&'' \<and> upper_hex n \<noteq> CHR ''='' \<and> upper_hex n \<noteq> CHR '';''"
  using hex_digit_upper [of n] by (auto simp: hex_digit_def)

lemma plain_query_escape: "plain_query (query_escape s)"
proof -
  have "plain_query (escape_char c)" for c
  proof (cases "unreserved c")
    case True
    then show ?thesis using unreserved_plain [OF True] by (auto simp: plain_query_def escape_char_def)
  next
    case False
    have "(of_char c :: nat) div 16 < 16" using of_char_less [of c] by linarith
    then show ?thesis
      using False upper_hex_plain [of "of_char c div 16"] upper_hex_plain [of "of_char c mod 16"]
      by (auto simp: plain_query_def escape_char_def Let_def)
  qed
  then show ?thesis by (auto simp: plain_query_def query_escape_def)
qed

lemma parse_setting_pair:
  "parse_setting (query_escape k @ CHR ''='' # query_escape v) vs = values_add k v vs"
proof -
  have k: "plain_query (query_escape k)" and v: "plain_query (query_escape v)"
    by (simp_all add: plain_query_escape)
  have "cut_eq (query_escape k @ CHR ''='' # query_escape v) = (query_escape k, query_escape v)"
    using k by (auto simp: cut_eq_def plain_query_def takeWhile_append dropWhile_append)
  then show ?thesis using k v by (auto simp: parse_setting_def plain_query_def)
qed

text \<open>Encoding and parsing a list of single values.\<close>

lemma parse_query_pairs:
  assumes "ps \<noteq> []"
  shows "parse_query (join_with (CHR ''&'') (map (\<lambda>(k, v). query_escape k @ CHR ''='' # query_escape v) ps)) =
    fold (\<lambda>(k, v). values_add k v) ps []"
proof -
  let ?e = "\<lambda>(k, v). query_escape k @ CHR ''='' # query_escape v"
  have "\<forall>p \<in> set (map ?e ps). CHR ''&'' \<notin> set p"
    using plain_query_escape by (auto simp: plain_query_def)
  then have "split_on (CHR ''&'') (join_with (CHR ''&'') (map ?e ps)) = map ?e ps"
    using assms by (intro split_join) auto
  moreover have "fold parse_setting (map ?e qs) vs = fold (\<lambda>(k, v). values_add k v) qs vs" for qs vs
    by (induction qs arbitrary: vs) (auto simp: parse_setting_pair)
  ultimately show ?thesis by (simp add: parse_query_def)
qed

lemma map_of_values_add:
  "map_of (values_add k v vs) k' =
     (if k' = k then Some ((case map_of vs k of Some l \<Rightarrow> l | None \<Rightarrow> []) @ [v]) else map_of vs k')"
  by (simp add: values_add_def update_conv')

lemma map_of_fold_add:
  "map_of (fold (\<lambda>(k, v). values_add k v) ps vs) k =
     (case map snd (filter (\<lambda>p. fst p = k) ps) of
        [] \<Rightarrow> map_of vs k
      | l \<Rightarrow> Some ((case map_of vs k of Some l' \<Rightarrow> l' | None \<Rightarrow> []) @ l))"
  by (induction ps arbitrary: vs) (auto simp: map_of_values_add split: list.splits option.splits if_splits)

definition value_pairs :: "url_values \<Rightarrow> (string \<times> string) list" where
  "value_pairs vs = concat (map (\<lambda>k. map (Pair k) (the (map_of vs k))) (sort (map fst vs)))"

lemma encode_pairs_eq: "encode_pairs vs = map (\<lambda>(k, v). query_escape k @ CHR ''='' # query_escape v) (value_pairs vs)"
  by (simp add: encode_pairs_def value_pairs_def map_concat comp_def)

lemma filter_value_pairs:
  assumes "distinct ks"
  shows "map snd (filter (\<lambda>p. fst p = k) (concat (map (\<lambda>k. map (Pair k) (f k)) ks))) =
    (if k \<in> set ks then f k else [])"
  using assms by (induction ks) (auto simp: filter_map comp_def filter_empty_conv)

text \<open>What \<open>Encode\<close> writes, \<open>ParseQuery\<close> reads: every key has its values, in order.\<close>

lemma parse_query_encode:
  assumes "distinct (map fst vs)" and "value_pairs vs \<noteq> []"
    and "map_of vs k = Some l" and "l \<noteq> []"
  shows "map_of (parse_query (values_encode vs)) k = Some l"
proof -
  have "k \<in> fst ` set vs" using assms(3) by (force dest: map_of_SomeD)
  then have "map snd (filter (\<lambda>p. fst p = k) (value_pairs vs)) = l"
    using assms(1,3) filter_value_pairs [of "sort (map fst vs)" k "\<lambda>k. the (map_of vs k)"]
    by (simp add: value_pairs_def)
  then show ?thesis
    using assms(2,4) parse_query_pairs [OF assms(2)]
    by (cases l) (simp_all add: values_encode_def encode_pairs_eq map_of_fold_add)
qed

lemma distinct_parse_query: "distinct (map fst (parse_query q))"
proof -
  have "distinct (map fst (fold parse_setting ps vs))" if "distinct (map fst vs)" for ps vs
    using that
    by (induction ps arbitrary: vs)
      (auto simp: parse_setting_def values_add_def distinct_update Let_def split: prod.splits option.splits)
  then show ?thesis by (simp add: parse_query_def)
qed

lemma get_set_encode:
  "values_get k (parse_query (values_encode (values_set k v (parse_query q)))) = v"
proof -
  let ?vs = "values_set k v (parse_query q)"
  have d: "distinct (map fst ?vs)" by (simp add: values_set_def distinct_update distinct_parse_query)
  have m: "map_of ?vs k = Some [v]" by (simp add: values_set_def update_conv')
  then have "k \<in> set (sort (map fst ?vs))" by (metis map_of_SomeD image_eqI fst_conv set_sort set_map)
  then have "\<exists>k' \<in> set (sort (map fst ?vs)). (k, v) \<in> set (map (Pair k') (the (map_of ?vs k')))"
    using m by (intro bexI [of _ k]) auto
  then have "(k, v) \<in> set (value_pairs ?vs)" by (auto simp: value_pairs_def)
  then have "value_pairs ?vs \<noteq> []" by auto
  from parse_query_encode [OF d this m] show ?thesis by (simp add: values_get_def)
qed

end
