(* ===== verification/Go_URL_Text.thy ===== *)
theory Go_URL_Text
  imports Go_URL
begin

text \<open>
  \<open>url.Parse\<close>, \<open>url.ParseRequestURI\<close> and the methods \<open>String\<close> and \<open>RequestURI\<close> of \<open>*URL\<close>, as of Go 1.25.0.
  A URL is parsed and printed part by part; each part has its own set of characters that are escaped.
  The round trip: a URL that was parsed, whose path and query the client has set, is read back from
  its text with the same scheme, host, path and query.
\<close>

section \<open>Escaping the parts of a URL\<close>

datatype url_part = PathPart | UserPart | HostPart | ZonePart | FragmentPart

definition alnum :: "char \<Rightarrow> bool" where
  "alnum c \<longleftrightarrow>
     (let n = of_char c :: nat in 97 \<le> n \<and> n \<le> 122 \<or> 65 \<le> n \<and> n \<le> 90 \<or> 48 \<le> n \<and> n \<le> 57)"

definition host_marks :: string where
  "host_marks = ''!$&()*+,;=:[]<>'' @ [CHR 0x27, CHR 0x22]"

definition plain_marks :: string where
  "plain_marks = ''-_.~''"

definition reserved_marks :: string where
  "reserved_marks = ''$&+,/:;=?@''"

definition should_escape :: "url_part \<Rightarrow> char \<Rightarrow> bool" where
  "should_escape m c =
     (if alnum c then False
      else if (m = HostPart \<or> m = ZonePart) \<and> c \<in> set host_marks then False
      else if c \<in> set plain_marks then False
      else if c \<in> set reserved_marks \<and> m = PathPart then c = CHR ''?''
      else if c \<in> set reserved_marks \<and> m = UserPart then c \<in> set ''@/?:''
      else if c \<in> set reserved_marks \<and> m = FragmentPart then False
      else \<not> (m = FragmentPart \<and> c \<in> set ''!()*''))"

definition percent :: "char \<Rightarrow> string" where
  "percent c = (let n = of_char c :: nat in [CHR ''%'', upper_hex (n div 16), upper_hex (n mod 16)])"

definition url_escape :: "url_part \<Rightarrow> string \<Rightarrow> string" where
  "url_escape m s = concat (map (\<lambda>c. if should_escape m c then percent c else [c]) s)"

text \<open>In a host only bytes outside ASCII and the percent sign may be written with an escape; in a zone
  also the blank and what a host may have anyway.\<close>

definition bad_escape :: "url_part \<Rightarrow> nat \<Rightarrow> nat \<Rightarrow> bool" where
  "bad_escape m x y \<longleftrightarrow>
     m = HostPart \<and> x < 8 \<and> \<not> (x = 2 \<and> y = 5) \<or>
     m = ZonePart \<and> \<not> (x = 2 \<and> y = 5) \<and> 16 * x + y \<noteq> 32 \<and> should_escape HostPart (char_of (16 * x + y))"

definition bad_char :: "url_part \<Rightarrow> char \<Rightarrow> bool" where
  "bad_char m c \<longleftrightarrow> (m = HostPart \<or> m = ZonePart) \<and> (of_char c :: nat) < 128 \<and> should_escape m c"

fun url_unescape :: "url_part \<Rightarrow> string \<Rightarrow> string option" where
  "url_unescape m [] = Some []"
| "url_unescape m (c # s) =
     (if c = CHR ''%'' then
        (case s of
           a # b # r \<Rightarrow>
             (case (hex_digit a, hex_digit b) of
                (Some x, Some y) \<Rightarrow>
                  if bad_escape m x y then None else map_option (Cons (char_of (16 * x + y))) (url_unescape m r)
              | _ \<Rightarrow> None)
         | _ \<Rightarrow> None)
      else if bad_char m c then None
      else map_option (Cons c) (url_unescape m s))"

definition encoded_marks :: string where
  "encoded_marks = CHR 0x27 # ''!$&()*+,;=:@[]%''"

definition valid_encoded :: "url_part \<Rightarrow> string \<Rightarrow> bool" where
  "valid_encoded m s \<longleftrightarrow> list_all (\<lambda>c. c \<in> set encoded_marks \<or> \<not> should_escape m c) s"

section \<open>Parsing\<close>

text \<open>\<open>strings.Cut\<close> at a character.\<close>

definition cut_at :: "char \<Rightarrow> string \<Rightarrow> string \<times> string" where
  "cut_at d s = (takeWhile (\<lambda>c. c \<noteq> d) s, drop 1 (dropWhile (\<lambda>c. c \<noteq> d) s))"

definition control_char :: "char \<Rightarrow> bool" where
  "control_char c \<longleftrightarrow> (of_char c :: nat) < 32 \<or> of_char c = (127 :: nat)"

definition scheme_char :: "char \<Rightarrow> bool" where
  "scheme_char c \<longleftrightarrow> alnum c \<or> c \<in> set ''+-.''"

definition get_scheme :: "string \<Rightarrow> (string \<times> string) option" where
  "get_scheme s =
     (let p = takeWhile scheme_char s; r = dropWhile scheme_char s
      in if p \<noteq> [] \<and> (is_digit (hd p) \<or> hd p \<in> set ''+-.'') then Some ([], s)
         else if r \<noteq> [] \<and> hd r = CHR '':'' then (if p = [] then None else Some (p, tl r))
         else Some ([], s))"

definition valid_optional_port :: "string \<Rightarrow> bool" where
  "valid_optional_port p \<longleftrightarrow> p = [] \<or> hd p = CHR '':'' \<and> list_all is_digit (tl p)"

text \<open>The parts before and from the first occurrence of a string.\<close>

fun split_at_sub :: "string \<Rightarrow> string \<Rightarrow> (string \<times> string) option" where
  "split_at_sub p [] = (if p = [] then Some ([], []) else None)"
| "split_at_sub p (c # s) =
     (if has_prefix (c # s) p then Some ([], c # s)
      else map_option (\<lambda>(a, b). (c # a, b)) (split_at_sub p s))"

definition parse_host :: "string \<Rightarrow> string option" where
  "parse_host h =
     (if has_prefix h ''['' then
        (case last_index (CHR '']'') h of
           None \<Rightarrow> None
         | Some i \<Rightarrow>
             if \<not> valid_optional_port (drop (Suc i) h) then None
             else (case split_at_sub ''%25'' (take i h) of
                     Some (a, z) \<Rightarrow>
                       (case (url_unescape HostPart a, url_unescape ZonePart z, url_unescape HostPart (drop i h)) of
                          (Some x, Some y, Some w) \<Rightarrow> Some (x @ y @ w)
                        | _ \<Rightarrow> None)
                   | None \<Rightarrow> url_unescape HostPart h))
      else (case last_index (CHR '':'') h of
              Some i \<Rightarrow> if \<not> valid_optional_port (drop i h) then None else url_unescape HostPart h
            | None \<Rightarrow> url_unescape HostPart h))"

definition userinfo_char :: "char \<Rightarrow> bool" where
  "userinfo_char c \<longleftrightarrow> alnum c \<or> c \<in> set (CHR 0x27 # ''-._:~!$&()*+,;=%@'')"

definition parse_userinfo :: "string \<Rightarrow> (string \<times> string option) option" where
  "parse_userinfo ui =
     (if \<not> list_all userinfo_char ui then None
      else if CHR '':'' \<notin> set ui then map_option (\<lambda>n. (n, None)) (url_unescape UserPart ui)
      else let (n, p) = cut_at (CHR '':'') ui
           in (case (url_unescape UserPart n, url_unescape UserPart p) of
                 (Some n', Some p') \<Rightarrow> Some (n', Some p')
               | _ \<Rightarrow> None))"

definition parse_authority :: "string \<Rightarrow> ((string \<times> string option) option \<times> string) option" where
  "parse_authority a =
     (case last_index (CHR ''@'') a of
        None \<Rightarrow> map_option (Pair None) (parse_host a)
      | Some i \<Rightarrow>
          (case parse_host (drop (Suc i) a) of
             None \<Rightarrow> None
           | Some h \<Rightarrow> map_option (\<lambda>ui. (Some ui, h)) (parse_userinfo (take i a))))"

definition set_path :: "string \<Rightarrow> go_url \<Rightarrow> go_url option" where
  "set_path p u =
     map_option (\<lambda>q. u\<lparr>u_path := q, u_raw_path := (if p = url_escape PathPart q then [] else p)\<rparr>)
       (url_unescape PathPart p)"

definition set_fragment :: "string \<Rightarrow> go_url \<Rightarrow> go_url option" where
  "set_fragment f u =
     map_option (\<lambda>q. u\<lparr>u_fragment := q, u_raw_fragment := (if f = url_escape FragmentPart q then [] else f)\<rparr>)
       (url_unescape FragmentPart f)"

definition empty_url :: go_url where
  "empty_url =
     \<lparr>u_scheme = [], u_opaque = [], u_user = None, u_host = [], u_path = [], u_raw_path = [], u_omit_host = False,
      u_force_query = False, u_raw_query = [], u_fragment = [], u_raw_fragment = []\<rparr>"

text \<open>Whether the query is forced, the text before it, the query.\<close>

definition split_query :: "string \<Rightarrow> bool \<times> string \<times> string" where
  "split_query s =
     (if has_suffix s ''?'' \<and> count_list s (CHR ''?'') = 1 then (True, butlast s, [])
      else (False, cut_at (CHR ''?'') s))"

text \<open>\<open>url.parse\<close> without the fragment; \<open>via_request\<close> for \<open>ParseRequestURI\<close>.\<close>

definition parse_hierarchy :: "bool \<Rightarrow> string \<Rightarrow> go_url \<Rightarrow> go_url option" where
  "parse_hierarchy via_request rest u =
     (if (u_scheme u \<noteq> [] \<or> \<not> via_request \<and> \<not> has_prefix rest ''///'') \<and> has_prefix rest ''//'' then
        (let a = drop 2 rest
         in case parse_authority (takeWhile (\<lambda>c. c \<noteq> CHR ''/'') a) of
              None \<Rightarrow> None
            | Some (user, host) \<Rightarrow>
                set_path (dropWhile (\<lambda>c. c \<noteq> CHR ''/'') a) (u\<lparr>u_user := user, u_host := host\<rparr>))
      else if u_scheme u \<noteq> [] \<and> has_prefix rest ''/'' then set_path rest (u\<lparr>u_omit_host := True\<rparr>)
      else set_path rest u)"

definition parse_url :: "bool \<Rightarrow> string \<Rightarrow> go_url option" where
  "parse_url via_request raw =
     (if list_ex control_char raw then None
      else if raw = [] \<and> via_request then None
      else if raw = ''*'' then Some (empty_url\<lparr>u_path := ''*''\<rparr>)
      else case get_scheme raw of
             None \<Rightarrow> None
           | Some (scheme, r) \<Rightarrow>
               let (force, rest, q) = split_query r;
                   u = empty_url\<lparr>u_scheme := to_lower scheme, u_force_query := force, u_raw_query := q\<rparr>
               in if \<not> has_prefix rest ''/'' \<and> scheme \<noteq> [] then Some (u\<lparr>u_opaque := rest\<rparr>)
                  else if \<not> has_prefix rest ''/'' \<and> via_request then None
                  else if \<not> has_prefix rest ''/'' \<and> CHR '':'' \<in> set (fst (cut_at (CHR ''/'') rest)) then None
                  else parse_hierarchy via_request rest u)"

definition url_parse :: "string \<Rightarrow> go_url option" where
  "url_parse s =
     (let (raw, frag) = cut_at (CHR ''#'') s
      in case parse_url False raw of
           None \<Rightarrow> None
         | Some u \<Rightarrow> if frag = [] then Some u else set_fragment frag u)"

definition parse_request_uri :: "string \<Rightarrow> go_url option" where
  "parse_request_uri = parse_url True"

section \<open>Printing\<close>

definition escaped_path :: "go_url \<Rightarrow> string" where
  "escaped_path u =
     (if u_raw_path u \<noteq> [] \<and> valid_encoded PathPart (u_raw_path u) \<and>
         url_unescape PathPart (u_raw_path u) = Some (u_path u)
      then u_raw_path u
      else if u_path u = ''*'' then ''*''
      else url_escape PathPart (u_path u))"

definition escaped_fragment :: "go_url \<Rightarrow> string" where
  "escaped_fragment u =
     (if u_raw_fragment u \<noteq> [] \<and> valid_encoded FragmentPart (u_raw_fragment u) \<and>
         url_unescape FragmentPart (u_raw_fragment u) = Some (u_fragment u)
      then u_raw_fragment u
      else url_escape FragmentPart (u_fragment u))"

definition userinfo_string :: "string \<times> string option \<Rightarrow> string" where
  "userinfo_string ui =
     (case ui of
        (n, p) \<Rightarrow>
          if n \<noteq> [] \<or> (p \<noteq> None \<and> p \<noteq> Some []) then
            url_escape UserPart n @ (case p of None \<Rightarrow> [] | Some pw \<Rightarrow> CHR '':'' # url_escape UserPart pw)
          else [])"

definition authority_string :: "go_url \<Rightarrow> string" where
  "authority_string u =
     (if u_scheme u \<noteq> [] \<or> u_host u \<noteq> [] \<or> u_user u \<noteq> None then
        (if u_omit_host u \<and> u_host u = [] \<and> u_user u = None then []
         else (if u_host u \<noteq> [] \<or> u_path u \<noteq> [] \<or> u_user u \<noteq> None then ''//'' else []) @
              (case u_user u of None \<Rightarrow> [] | Some ui \<Rightarrow> userinfo_string ui @ ''@'') @
              url_escape HostPart (u_host u))
      else [])"

definition query_string :: "go_url \<Rightarrow> string" where
  "query_string u = (if u_force_query u \<or> u_raw_query u \<noteq> [] then CHR ''?'' # u_raw_query u else [])"

definition url_string :: "go_url \<Rightarrow> string" where
  "url_string u =
     (let scheme = (if u_scheme u \<noteq> [] then u_scheme u @ '':'' else []);
          path = escaped_path u;
          front = scheme @ authority_string u;
          slash = (if path \<noteq> [] \<and> hd path \<noteq> CHR ''/'' \<and> u_host u \<noteq> [] then ''/'' else []);
          dot = (if front @ slash = [] \<and> CHR '':'' \<in> set (fst (cut_at (CHR ''/'') path)) then ''./'' else [])
      in (if u_opaque u \<noteq> [] then scheme @ u_opaque u else front @ slash @ dot @ path) @
         query_string u @
         (if u_fragment u \<noteq> [] then CHR ''#'' # escaped_fragment u else []))"

definition request_uri :: "go_url \<Rightarrow> string" where
  "request_uri u =
     (if u_opaque u = [] then (if escaped_path u = [] then ''/'' else escaped_path u)
      else (if has_prefix (u_opaque u) ''//'' then u_scheme u @ CHR '':'' # u_opaque u else u_opaque u)) @
     query_string u"

section \<open>Escaping and unescaping\<close>

lemma percent_escaped [simp]: "should_escape m CHR ''%''"
  by (cases m) (simp_all add: should_escape_def alnum_def host_marks_def plain_marks_def reserved_marks_def)

lemma percent_code [simp]: "char_of (37 :: nat) = CHR ''%''"
  by code_simp

lemma unescape_escape_part:
  assumes "m \<noteq> HostPart" and "m \<noteq> ZonePart"
  shows "url_unescape m (url_escape m s @ r) = map_option ((@) s) (url_unescape m r)"
proof (induction s)
  case Nil
  show ?case by (cases "url_unescape m r") (simp_all add: url_escape_def)
next
  case (Cons c s)
  have good: "\<not> bad_escape m x y" "\<not> bad_char m d" for x y d
    using assms by (simp_all add: bad_escape_def bad_char_def)
  have "(of_char c :: nat) div 16 < 16" using of_char_less [of c] by linarith
  then have "url_unescape m ((if should_escape m c then percent c else [c]) @ t) = map_option (Cons c) (url_unescape m t)"
    for t using good by (auto simp: percent_def hex_digit_upper Let_def)
  from this [of "url_escape m s @ r"] show ?case
    by (simp add: url_escape_def Cons.IH [unfolded url_escape_def] option.map_comp comp_def)
qed

lemma unescape_escape [simp]:
  "m \<noteq> HostPart \<Longrightarrow> m \<noteq> ZonePart \<Longrightarrow> url_unescape m (url_escape m s) = Some s"
  using unescape_escape_part [of m s "[]"] by simp

lemma url_escape_chars:
  "c \<in> set (url_escape m s) \<Longrightarrow> c = CHR ''%'' \<or> \<not> should_escape m c"
proof -
  have "alnum (upper_hex n)" if "n < 16" for n
    using that by (auto simp: alnum_def upper_hex_def of_char_of Let_def)
  then have hex: "n < 16 \<Longrightarrow> \<not> should_escape m (upper_hex n)" for n by (simp add: should_escape_def)
  assume "c \<in> set (url_escape m s)"
  then have "\<exists>d. c \<in> set (if should_escape m d then percent d else [d])"
    unfolding url_escape_def set_concat set_map by blast
  then obtain d where "c \<in> set (if should_escape m d then percent d else [d])" by blast
  moreover have "(of_char d :: nat) div 16 < 16" "(of_char d :: nat) mod 16 < 16"
    using of_char_less [of d] by linarith+
  ultimately show ?thesis using hex by (auto simp: percent_def Let_def split: if_splits)
qed

text \<open>A host of ASCII characters that need no escape: a name, an IPv4 or a bracketed IPv6 address without
  zone, with or without a port.\<close>

definition plain_host :: "string \<Rightarrow> bool" where
  "plain_host h \<longleftrightarrow> list_all (\<lambda>c. (of_char c :: nat) < 128 \<and> \<not> should_escape HostPart c) h"

lemma plain_host_escape: "plain_host h \<Longrightarrow> url_escape HostPart h = h"
  unfolding plain_host_def url_escape_def by (induction h) auto

lemma unescape_plain_host:
  "url_unescape HostPart s = Some h \<Longrightarrow> plain_host h \<Longrightarrow> s = h"
proof (induction HostPart s arbitrary: h rule: url_unescape.induct)
  case (2 c s)
  show ?case
  proof (cases "c = CHR ''%''")
    case True
    with "2.prems"(1) obtain a b r x y t where s: "s = a # b # r" "hex_digit a = Some x" "hex_digit b = Some y"
      "\<not> bad_escape HostPart x y" "h = char_of (16 * x + y) # t"
      by (auto split: list.splits option.splits if_splits)
    have "x < 16" "y < 16" using s(2,3) by (auto simp: hex_digit_def Let_def split: if_splits)
    then have "(of_char (char_of (16 * x + y) :: char) :: nat) = 16 * x + y"
      by (simp add: of_char_of)
    moreover have "x = 2 \<and> y = 5 \<or> 8 \<le> x" using s(4) by (auto simp: bad_escape_def)
    ultimately have "\<not> plain_host h" using s(5) by (auto simp: plain_host_def)
    with "2.prems"(2) show ?thesis by simp
  next
    case False
    with "2.prems" "2.hyps" show ?thesis by (auto simp: plain_host_def split: if_splits)
  qed
qed simp

lemma split_at_sub_has: "split_at_sub p s = Some (a, z) \<Longrightarrow> has_prefix z p"
  by (induction p s arbitrary: a rule: split_at_sub.induct) (auto split: if_splits)

lemma unescape_zone:
  "split_at_sub ''%25'' s = Some (a, z) \<Longrightarrow> url_unescape ZonePart z = Some y \<Longrightarrow> CHR ''%'' \<in> set y"
  by (drule split_at_sub_has) (auto simp: has_prefix_iff hex_digit_def bad_escape_def split: if_splits)

lemma parse_plain_host:
  assumes "parse_host s = Some h" and "plain_host h"
  shows "s = h"
proof -
  have no: "CHR ''%'' \<notin> set h" using assms(2) by (auto simp: plain_host_def list_all_iff)
  have "url_unescape HostPart s = Some h"
    using assms(1) no unescape_zone
    by (auto simp: parse_host_def split: if_splits option.splits prod.splits)
  then show ?thesis using assms(2) by (rule unescape_plain_host)
qed

section \<open>What parsing gives\<close>

text \<open>A URL with a plain host, as \<open>url.Parse\<close> returns it; the client's changes keep this.\<close>

definition url_ok :: "go_url \<Rightarrow> bool" where
  "url_ok u \<longleftrightarrow>
     u_opaque u = [] \<and> u_host u \<noteq> [] \<and> plain_host (u_host u) \<and> parse_host (u_host u) = Some (u_host u) \<and>
     (u_raw_path u \<noteq> [] \<longrightarrow> hd (u_raw_path u) = CHR ''/'') \<and>
     (\<forall>c \<in> set (u_raw_query u). \<not> control_char c \<and> c \<noteq> CHR ''#'')"

lemma cut_at_simps [simp]:
  "d \<notin> set s \<Longrightarrow> cut_at d s = (s, [])"
  "d \<notin> set a \<Longrightarrow> cut_at d (a @ d # r) = (a, r)"
proof -
  show "d \<notin> set s \<Longrightarrow> cut_at d s = (s, [])"
    by (induction s) (auto simp: cut_at_def)
  show "d \<notin> set a \<Longrightarrow> cut_at d (a @ d # r) = (a, r)"
    by (induction a) (auto simp: cut_at_def)
qed

lemma set_cut_at: "set (snd (cut_at d s)) \<subseteq> set s" "set (fst (cut_at d s)) \<subseteq> set s" "d \<notin> set (fst (cut_at d s))"
  by (auto simp: cut_at_def dest: in_set_dropD set_dropWhileD set_takeWhileD)

lemma get_scheme_rest: "get_scheme s = Some (p, r) \<Longrightarrow> set r \<subseteq> set s"
proof -
  assume "get_scheme s = Some (p, r)"
  then have "r = s \<or> r = tl (dropWhile scheme_char s)"
    unfolding get_scheme_def Let_def by (auto split: if_splits)
  moreover have "set (tl xs) \<subseteq> set xs" for xs :: string by (cases xs) auto
  then have "set (tl (dropWhile scheme_char s)) \<subseteq> set s" using set_dropWhileD [of _ scheme_char s] by fast
  ultimately show ?thesis by blast
qed

lemma split_query_rest: "split_query s = (f, r, q) \<Longrightarrow> set q \<subseteq> set s"
  using set_cut_at(1) [of "CHR ''?''" s] by (auto simp: split_query_def split: if_splits)

lemma parse_authority_host: "parse_authority a = Some (ui, h) \<Longrightarrow> \<exists>s. parse_host s = Some h"
  by (auto simp: parse_authority_def Let_def split: option.splits if_splits prod.splits)

lemma set_path_simps:
  "set_path p u = Some v \<Longrightarrow>
     url_unescape PathPart p = Some (u_path v) \<and> u_raw_path v \<in> {[], p} \<and>
     u_host v = u_host u \<and> u_opaque v = u_opaque u \<and> u_raw_query v = u_raw_query u \<and> u_scheme v = u_scheme u \<and>
     u_force_query v = u_force_query u"
  by (auto simp: set_path_def)

lemma parse_hierarchy_SomeD:
  assumes "parse_hierarchy via r u = Some v"
  shows "u_opaque v = u_opaque u \<and> u_raw_query v = u_raw_query u \<and> u_scheme v = u_scheme u \<and>
    (u_host v \<noteq> u_host u \<longrightarrow> (\<exists>s. parse_host s = Some (u_host v)) \<and> (u_raw_path v \<noteq> [] \<longrightarrow> hd (u_raw_path v) = CHR ''/''))"
proof -
  have hd: "CHR ''/'' \<in> set a \<Longrightarrow> hd (dropWhile (\<lambda>c. c \<noteq> CHR ''/'') a) = CHR ''/''" for a
    by (induction a) auto
  show ?thesis
    using assms unfolding parse_hierarchy_def Let_def
    by (auto split: if_splits option.splits prod.splits dest!: set_path_simps parse_authority_host simp: hd)
qed

lemma parse_url_ok:
  assumes "parse_url via raw = Some u" and "CHR ''#'' \<notin> set raw" and "u_host u \<noteq> []" and "plain_host (u_host u)"
  shows "url_ok u"
proof -
  obtain scheme r force rest q where ctl: "\<not> list_ex control_char raw" and
    s: "get_scheme raw = Some (scheme, r)" and q: "split_query r = (force, rest, q)" and
    h: "parse_hierarchy via rest (empty_url\<lparr>u_scheme := to_lower scheme, u_force_query := force, u_raw_query := q\<rparr>) = Some u"
    using assms(1,3)
    by (auto simp: parse_url_def empty_url_def Let_def split: if_splits option.splits prod.splits)
  have "set q \<subseteq> set raw" using get_scheme_rest [OF s] split_query_rest [OF q] by blast
  then have "\<forall>c \<in> set q. \<not> control_char c \<and> c \<noteq> CHR ''#''"
    using ctl assms(2) by (auto simp: list_ex_iff)
  moreover have "parse_host (u_host u) = Some (u_host u)" if "parse_host s = Some (u_host u)" for s
    using that parse_plain_host [OF that assms(4)] by simp
  ultimately show ?thesis
    using parse_hierarchy_SomeD [OF h] assms(3,4) by (auto simp: url_ok_def empty_url_def)
qed

lemma url_parse_ok:
  assumes "url_parse s = Some u" and "u_host u \<noteq> []" and "plain_host (u_host u)"
  shows "url_ok u"
proof -
  obtain raw frag where s: "cut_at (CHR ''#'') s = (raw, frag)" by fastforce
  then have no: "CHR ''#'' \<notin> set raw" using set_cut_at(3) [of "CHR ''#''" s] by simp
  obtain v where v: "parse_url False raw = Some v" and "u = v \<or> set_fragment frag v = Some u"
    using assms(1) s by (auto simp: url_parse_def split: option.splits if_splits)
  moreover have "v = v\<lparr>u_fragment := u_fragment v, u_raw_fragment := u_raw_fragment v\<rparr>" by simp
  ultimately have "\<exists>f rf. u = v\<lparr>u_fragment := f, u_raw_fragment := rf\<rparr>"
    unfolding set_fragment_def by blast
  then obtain f rf where u: "u = v\<lparr>u_fragment := f, u_raw_fragment := rf\<rparr>" by blast
  have "url_ok v" using parse_url_ok [OF v no] assms(2,3) u by simp
  then show ?thesis by (simp add: url_ok_def u)
qed

section \<open>Printing and reading back\<close>

text \<open>The characters that a path may contain.\<close>

definition in_path :: "char \<Rightarrow> bool" where
  "in_path c \<longleftrightarrow> \<not> control_char c \<and> c \<noteq> CHR ''?'' \<and> c \<noteq> CHR ''#''"

lemma should_escape_path: "\<not> should_escape PathPart c \<Longrightarrow> in_path c"
proof -
  have "list_all in_path plain_marks" "list_all (\<lambda>c. c \<noteq> CHR ''?'' \<longrightarrow> in_path c) reserved_marks" by code_simp+
  then have "c \<in> set plain_marks \<Longrightarrow> in_path c" "c \<in> set reserved_marks \<Longrightarrow> c \<noteq> CHR ''?'' \<Longrightarrow> in_path c"
    by (auto simp: list_all_iff)
  moreover have "alnum c \<Longrightarrow> in_path c" by (auto simp: alnum_def in_path_def control_char_def Let_def)
  moreover assume "\<not> should_escape PathPart c"
  ultimately show ?thesis by (auto simp: should_escape_def split: if_splits)
qed

lemma valid_encoded_path: "valid_encoded PathPart s \<Longrightarrow> c \<in> set s \<Longrightarrow> in_path c"
proof -
  have "list_all in_path encoded_marks" by code_simp
  then have "c \<in> set encoded_marks \<Longrightarrow> in_path c" for c by (simp add: list_all_iff)
  then show "valid_encoded PathPart s \<Longrightarrow> c \<in> set s \<Longrightarrow> in_path c"
    using should_escape_path by (auto simp: valid_encoded_def list_all_iff)
qed

lemma escape_path_chars: "c \<in> set (url_escape PathPart s) \<Longrightarrow> in_path c"
proof -
  have "in_path CHR ''%''" by code_simp
  then show "c \<in> set (url_escape PathPart s) \<Longrightarrow> in_path c"
    using url_escape_chars [of c PathPart s] should_escape_path by auto
qed

lemma escaped_path_read:
  assumes "u_path u \<noteq> []" and "hd (u_path u) = CHR ''/''" and "u_raw_path u \<noteq> [] \<longrightarrow> hd (u_raw_path u) = CHR ''/''"
  shows "escaped_path u \<noteq> [] \<and> hd (escaped_path u) = CHR ''/'' \<and>
    url_unescape PathPart (escaped_path u) = Some (u_path u) \<and>
    (\<forall>c \<in> set (escaped_path u). in_path c)"
proof -
  obtain p where p: "u_path u = CHR ''/'' # p" using assms(1,2) by (cases "u_path u") auto
  then have esc: "url_escape PathPart (u_path u) = CHR ''/'' # url_escape PathPart p"
    by (simp add: url_escape_def should_escape_def alnum_def plain_marks_def reserved_marks_def)
  then have head: "url_escape PathPart (u_path u) \<noteq> []" "hd (url_escape PathPart (u_path u)) = CHR ''/''"
    by simp_all
  show ?thesis
  proof (cases "u_raw_path u \<noteq> [] \<and> valid_encoded PathPart (u_raw_path u) \<and>
      url_unescape PathPart (u_raw_path u) = Some (u_path u)")
    case True
    have "\<forall>c \<in> set (u_raw_path u). in_path c" using True valid_encoded_path by blast
    then show ?thesis using True assms(3) by (simp add: escaped_path_def)
  next
    case False
    then have "escaped_path u = url_escape PathPart (u_path u)" by (auto simp: escaped_path_def p)
    then show ?thesis using escape_path_chars [of _ "u_path u"] head by simp
  qed
qed

text \<open>Reading the text before a query.\<close>

lemma split_query_string:
  assumes "CHR ''?'' \<notin> set s"
  shows "\<exists>f. split_query (s @ query_string u) = (f, s, u_raw_query u)"
proof (cases "u_raw_query u = []")
  case True
  then show ?thesis
    using assms by (auto simp: split_query_def query_string_def has_suffix_def has_prefix_def count_notin)
next
  case False
  then have "\<not> (has_suffix (s @ query_string u) ''?'' \<and> count_list (s @ query_string u) (CHR ''?'') = 1)"
    using assms
    by (cases "u_raw_query u" rule: rev_cases) (auto simp: query_string_def has_suffix_def count_notin)
  then show ?thesis using assms False by (auto simp: split_query_def query_string_def)
qed

text \<open>The characters of an authority.\<close>

definition in_authority :: "char \<Rightarrow> bool" where
  "in_authority c \<longleftrightarrow> in_path c \<and> c \<noteq> CHR ''/'' \<and> c \<noteq> CHR ''@''"

lemma host_char: "plain_host h \<Longrightarrow> c \<in> set h \<Longrightarrow> in_authority c"
proof -
  assume "plain_host h" "c \<in> set h"
  then have "\<not> should_escape HostPart c" by (auto simp: plain_host_def list_all_iff)
  moreover have "list_all in_authority (host_marks @ plain_marks)" by code_simp
  moreover have "alnum c \<Longrightarrow> in_authority c"
    by (auto simp: alnum_def in_authority_def in_path_def control_char_def Let_def)
  ultimately show ?thesis by (auto simp: should_escape_def list_all_iff split: if_splits)
qed

definition user_char :: "char \<Rightarrow> bool" where
  "user_char c \<longleftrightarrow> in_authority c \<and> c \<noteq> CHR '':'' \<and> userinfo_char c"

lemma escape_user_char: "c \<in> set (url_escape UserPart s) \<Longrightarrow> user_char c"
proof -
  have "list_all user_char (CHR ''%'' # plain_marks)" by code_simp
  moreover have "list_all (\<lambda>c. c \<notin> set ''@/?:'' \<longrightarrow> user_char c) reserved_marks" by code_simp
  moreover have "alnum c \<Longrightarrow> user_char c"
    by (auto simp: user_char_def userinfo_char_def alnum_def in_authority_def in_path_def control_char_def Let_def)
  moreover assume "c \<in> set (url_escape UserPart s)"
  ultimately show ?thesis
    using url_escape_chars [of c UserPart s] by (auto simp: should_escape_def list_all_iff split: if_splits)
qed

lemma userinfo_string_chars:
  "c \<in> set (userinfo_string ui) \<Longrightarrow> in_authority c \<and> userinfo_char c"
proof -
  have "in_authority (CHR '':'') \<and> userinfo_char (CHR '':'')" by code_simp
  then show "c \<in> set (userinfo_string ui) \<Longrightarrow> in_authority c \<and> userinfo_char c"
    using escape_user_char
    by (cases ui) (auto simp: userinfo_string_def user_char_def split: option.splits if_splits)
qed

lemma userinfo_string_read: "\<exists>ui'. parse_userinfo (userinfo_string ui) = Some ui'"
proof -
  have no: "CHR '':'' \<notin> set (url_escape UserPart t)" for t
    using escape_user_char [of "CHR '':''" t] by (auto simp: user_char_def)
  have "list_all userinfo_char (userinfo_string ui)"
    using userinfo_string_chars [of _ ui] by (auto simp: list_all_iff)
  then show ?thesis
    using no by (cases ui; cases "snd ui") (auto simp: parse_userinfo_def userinfo_string_def)
qed

text \<open>The authority of a URL with a plain host is read back, up to the user.\<close>

definition authority_text :: "go_url \<Rightarrow> string" where
  "authority_text u = (case u_user u of None \<Rightarrow> [] | Some ui \<Rightarrow> userinfo_string ui @ ''@'') @ u_host u"

lemma parse_authority_text:
  assumes "plain_host (u_host u)" and "parse_host (u_host u) = Some (u_host u)"
  shows "\<exists>user. parse_authority (authority_text u) = Some (user, u_host u)"
proof -
  have at: "CHR ''@'' \<notin> set (u_host u)" using host_char [OF assms(1)] by (auto simp: in_authority_def)
  show ?thesis
  proof (cases "u_user u")
    case None
    then show ?thesis
      using assms(2) by (simp add: authority_text_def parse_authority_def last_index_None [THEN iffD2, OF at])
  next
    case (Some ui)
    then have "last_index (CHR ''@'') (authority_text u) = Some (length (userinfo_string ui))"
      using at by (simp add: authority_text_def)
    moreover obtain ui' where "parse_userinfo (userinfo_string ui) = Some ui'" using userinfo_string_read by blast
    ultimately show ?thesis
      using Some assms(2) by (simp add: authority_text_def parse_authority_def)
  qed
qed

lemma authority_text_chars:
  assumes "plain_host (u_host u)" and "c \<in> set (authority_text u)"
  shows "in_path c \<and> c \<noteq> CHR ''/''"
proof -
  have "in_path (CHR ''@'')" by code_simp
  then show ?thesis
    using assms userinfo_string_chars host_char [OF assms(1)]
    by (auto simp: authority_text_def in_authority_def split: option.splits)
qed

text \<open>Two URLs that lead to the same place: the user and the fragment may differ.\<close>

definition same_endpoint :: "go_url \<Rightarrow> go_url \<Rightarrow> bool" where
  "same_endpoint u v \<longleftrightarrow>
     u_scheme v = u_scheme u \<and> u_host v = u_host u \<and> u_path v = u_path u \<and> u_raw_query v = u_raw_query u"

lemma get_scheme_ws:
  assumes "s \<in> {''ws'', ''wss''}"
  shows "get_scheme (s @ CHR '':'' # r) = Some (s, r)" "to_lower s = s" "c \<in> set s \<Longrightarrow> in_path c"
proof -
  have "scheme_char CHR ''w'' \<and> scheme_char CHR ''s'' \<and> \<not> scheme_char CHR '':'' \<and> \<not> is_digit CHR ''w''"
    "in_path CHR ''w'' \<and> in_path CHR ''s''" "to_lower ''ws'' = ''ws'' \<and> to_lower ''wss'' = ''wss''" by code_simp+
  then show "get_scheme (s @ CHR '':'' # r) = Some (s, r)" "to_lower s = s" "c \<in> set s \<Longrightarrow> in_path c"
    using assms by (auto simp: get_scheme_def)
qed

lemma query_chars: "url_ok u \<Longrightarrow> \<forall>c \<in> set (query_string u). \<not> control_char c \<and> c \<noteq> CHR ''#''"
proof -
  have "\<not> control_char CHR ''?''" by code_simp
  then show "url_ok u \<Longrightarrow> \<forall>c \<in> set (query_string u). \<not> control_char c \<and> c \<noteq> CHR ''#''"
    by (auto simp: url_ok_def query_string_def)
qed

lemma parse_url_of_text:
  assumes ok: "url_ok u" and scheme: "u_scheme u \<in> {''ws'', ''wss''}"
    and path: "u_path u \<noteq> []" "hd (u_path u) = CHR ''/''"
  shows "\<exists>v. parse_url False (u_scheme u @ '':'' @ ''//'' @ authority_text u @ escaped_path u @ query_string u) = Some v \<and>
    same_endpoint u v"
    and "CHR ''#'' \<notin> set (u_scheme u @ '':'' @ ''//'' @ authority_text u @ escaped_path u @ query_string u)"
proof -
  let ?A = "authority_text u" and ?E = "escaped_path u"
  have E: "?E \<noteq> []" "hd ?E = CHR ''/''" "url_unescape PathPart ?E = Some (u_path u)" "\<forall>c \<in> set ?E. in_path c"
    using escaped_path_read [of u] path ok by (auto simp: url_ok_def)
  have A: "\<forall>c \<in> set ?A. in_path c \<and> c \<noteq> CHR ''/''" using authority_text_chars [of u] ok by (auto simp: url_ok_def)
  have marks: "in_path (CHR '':'') \<and> in_path (CHR ''/'')" by code_simp
  have rest: "\<forall>c \<in> set (''//'' @ ?A @ ?E). in_path c" using A E(4) marks by auto
  note Q = query_chars [OF ok]
  have S: "\<forall>c \<in> set (u_scheme u @ '':''). in_path c" using get_scheme_ws(3) [OF scheme] marks by auto
  let ?P = "\<lambda>c. \<not> control_char c \<and> c \<noteq> CHR ''#''"
  have P: "in_path c \<Longrightarrow> ?P c" for c by (simp add: in_path_def)
  have join: "list_all ?P x \<Longrightarrow> list_all ?P y \<Longrightarrow> list_all ?P z \<Longrightarrow> list_all ?P (x @ y @ z)" for x y z by simp
  have "list_all ?P ((u_scheme u @ '':'') @ (''//'' @ ?A @ ?E) @ query_string u)"
    by (rule join; unfold list_all_iff) (use P S rest Q in blast)+
  then have all: "\<forall>c \<in> set ((u_scheme u @ '':'') @ (''//'' @ ?A @ ?E) @ query_string u). ?P c"
    unfolding list_all_iff .
  then have ctl: "\<not> list_ex control_char (u_scheme u @ '':'' @ ''//'' @ ?A @ ?E @ query_string u)"
    unfolding list_ex_iff append_assoc by blast
  show "CHR ''#'' \<notin> set (u_scheme u @ '':'' @ ''//'' @ ?A @ ?E @ query_string u)"
    using all unfolding append_assoc by blast
  obtain f where q: "split_query ((''//'' @ ?A @ ?E) @ query_string u) = (f, ''//'' @ ?A @ ?E, u_raw_query u)"
    using split_query_string [of "''//'' @ ?A @ ?E" u] rest by (auto simp: in_path_def)
  obtain user where user: "parse_authority ?A = Some (user, u_host u)"
    using parse_authority_text [of u] ok by (auto simp: url_ok_def)
  obtain e where e: "?E = CHR ''/'' # e" using E(1,2) by (cases ?E) simp_all
  have cut: "CHR ''/'' \<notin> set a \<Longrightarrow> takeWhile (\<lambda>c. c \<noteq> CHR ''/'') (a @ CHR ''/'' # e) = a \<and>
      dropWhile (\<lambda>c. c \<noteq> CHR ''/'') (a @ CHR ''/'' # e) = CHR ''/'' # e" for a
    by (induction a) auto
  have split: "takeWhile (\<lambda>c. c \<noteq> CHR ''/'') (?A @ ?E) = ?A" "dropWhile (\<lambda>c. c \<noteq> CHR ''/'') (?A @ ?E) = ?E"
    using cut [of ?A] A unfolding e by blast+
  have "\<exists>v. parse_hierarchy False (''//'' @ ?A @ ?E)
      (empty_url\<lparr>u_scheme := u_scheme u, u_force_query := f, u_raw_query := u_raw_query u\<rparr>) = Some v \<and> same_endpoint u v"
    using scheme by (auto simp: parse_hierarchy_def split user set_path_def E(3) same_endpoint_def empty_url_def)
  moreover have "u_scheme u @ '':'' @ ''//'' @ ?A @ ?E @ query_string u \<noteq> ''*''" "u_scheme u \<noteq> []" using scheme by auto
  ultimately show "\<exists>v. parse_url False (u_scheme u @ '':'' @ ''//'' @ ?A @ ?E @ query_string u) = Some v \<and> same_endpoint u v"
    using ctl get_scheme_ws(1,2) [OF scheme] q by (simp add: parse_url_def)
qed

text \<open>What the client dials is what the WebSocket library reads from the text.\<close>

lemma url_parse_string:
  assumes ok: "url_ok u" and scheme: "u_scheme u \<in> {''ws'', ''wss''}"
    and path: "u_path u \<noteq> []" "hd (u_path u) = CHR ''/''"
  shows "\<exists>v. url_parse (url_string u) = Some v \<and> same_endpoint u v \<and> url_ok v"
proof -
  let ?raw = "u_scheme u @ '':'' @ ''//'' @ authority_text u @ escaped_path u @ query_string u"
  let ?frag = "if u_fragment u \<noteq> [] then CHR ''#'' # escaped_fragment u else []"
  obtain v where v: "parse_url False ?raw = Some v" "same_endpoint u v"
    using parse_url_of_text(1) [OF assms] by blast
  note no = parse_url_of_text(2) [OF assms]
  have E: "escaped_path u \<noteq> []" "hd (escaped_path u) = CHR ''/''"
    using escaped_path_read [of u] path ok by (auto simp: url_ok_def)
  have "u_scheme u \<noteq> []" using scheme by auto
  then have "url_string u = ?raw @ ?frag"
    using ok E plain_host_escape [of "u_host u"]
    by (simp add: url_string_def authority_string_def authority_text_def url_ok_def Let_def split: option.split)
  moreover have "cut_at (CHR ''#'') (?raw @ ?frag) = (?raw, if u_fragment u \<noteq> [] then escaped_fragment u else [])"
    using no by (cases "u_fragment u = []") (simp_all del: append_assoc)
  moreover have "\<exists>w. set_fragment (escaped_fragment u) v = Some w \<and> same_endpoint u w"
    using v(2) by (auto simp: set_fragment_def escaped_fragment_def same_endpoint_def)
  ultimately have "\<exists>w. url_parse (url_string u) = Some w \<and> same_endpoint u w"
    using v by (auto simp: url_parse_def)
  then obtain w where w: "url_parse (url_string u) = Some w" "same_endpoint u w" by blast
  then have "url_ok w" using url_parse_ok [OF w(1)] ok by (simp add: same_endpoint_def url_ok_def)
  with w show ?thesis by blast
qed

text \<open>The request line of the handshake, read by the server.\<close>

lemma parse_request_uri_of:
  assumes ok: "url_ok u" and path: "u_path u \<noteq> []" "hd (u_path u) = CHR ''/''"
  shows "\<exists>w. parse_request_uri (request_uri u) = Some w \<and> u_path w = u_path u \<and> u_raw_query w = u_raw_query u \<and>
    (u_raw_path w \<noteq> [] \<longrightarrow> hd (u_raw_path w) = CHR ''/'')"
proof -
  let ?E = "escaped_path u"
  have E: "?E \<noteq> []" "hd ?E = CHR ''/''" "url_unescape PathPart ?E = Some (u_path u)" "\<forall>c \<in> set ?E. in_path c"
    using escaped_path_read [of u] path ok by (auto simp: url_ok_def)
  obtain e where e: "?E = CHR ''/'' # e" using E(1,2) by (cases ?E) auto
  have uri: "request_uri u = ?E @ query_string u" using ok E(1) by (simp add: request_uri_def url_ok_def)
  have "\<not> list_ex control_char (?E @ query_string u)"
    using E(4) query_chars [OF ok] unfolding list_ex_iff set_append in_path_def by blast
  moreover have "\<not> scheme_char CHR ''/''" by code_simp
  then have "get_scheme (?E @ query_string u) = Some ([], ?E @ query_string u)" by (simp add: get_scheme_def e)
  moreover obtain f where "split_query (?E @ query_string u) = (f, ?E, u_raw_query u)"
    using split_query_string [of ?E u] E(4) by (auto simp: in_path_def)
  ultimately show ?thesis
    using E(3) by (simp add: uri parse_request_uri_def parse_url_def parse_hierarchy_def set_path_def empty_url_def e
        to_lower_def del: url_unescape.simps)
qed

text \<open>A slash is never part of an escape, so an escaped path of one segment has one slash.\<close>

lemma unescape_slash: "url_unescape PathPart s = Some p \<Longrightarrow> CHR ''/'' \<in> set s \<Longrightarrow> CHR ''/'' \<in> set p"
proof (induction PathPart s arbitrary: p rule: url_unescape.induct)
  case (2 c s)
  have hex: "hex_digit (CHR ''/'') = None" by (simp add: hex_digit_def)
  show ?case
    using 2 hex by (auto split: if_splits list.splits option.splits)
qed simp

lemma one_segment:
  assumes "url_unescape PathPart s = Some (CHR ''/'' # q)" and "s \<noteq> []" and "hd s = CHR ''/''" and "CHR ''/'' \<notin> set q"
  shows "\<exists>e. s = CHR ''/'' # e \<and> CHR ''/'' \<notin> set e \<and> url_unescape PathPart e = Some q"
proof -
  obtain e where e: "s = CHR ''/'' # e" using assms(2,3) by (cases s) auto
  then have "url_unescape PathPart e = Some q" using assms(1) by (auto simp: bad_char_def)
  with e show ?thesis using unescape_slash assms(4) by blast
qed

text \<open>An encoded query has no characters that would end it.\<close>

lemma query_escape_chars: "c \<in> set (query_escape s) \<Longrightarrow> \<not> control_char c \<and> c \<noteq> CHR ''#''"
proof -
  have u: "unreserved c \<Longrightarrow> \<not> control_char c \<and> c \<noteq> CHR ''#''" for c
    by (auto simp: unreserved_def control_char_def Let_def)
  have h: "\<not> control_char (upper_hex n) \<and> upper_hex n \<noteq> CHR ''#''" if "n < 16" for n
  proof -
    have "(of_char (upper_hex n) :: nat) = (if n < 10 then 48 + n else 55 + n)"
      using that by (auto simp: upper_hex_def of_char_of)
    then have "\<not> control_char (upper_hex n)" using that by (auto simp: control_char_def)
    moreover have "hex_digit (upper_hex n) \<noteq> hex_digit (CHR ''#'')"
      using hex_digit_upper [OF that] by (simp add: hex_digit_def)
    ultimately show ?thesis by auto
  qed
  have m: "\<not> control_char (CHR ''+'') \<and> \<not> control_char (CHR ''%'')" by code_simp
  assume "c \<in> set (query_escape s)"
  then obtain d where "c \<in> set (escape_char d)" by (auto simp: query_escape_def)
  moreover have "(of_char d :: nat) div 16 < 16" "(of_char d :: nat) mod 16 < 16"
    using of_char_less [of d] by linarith+
  ultimately show ?thesis using u h m by (auto simp: escape_char_def Let_def split: if_splits)
qed

lemma join_with_chars: "c \<in> set (join_with d ps) \<Longrightarrow> c = d \<or> (\<exists>p \<in> set ps. c \<in> set p)"
  by (induction d ps rule: join_with.induct) auto

lemma values_encode_chars: "c \<in> set (values_encode vs) \<Longrightarrow> \<not> control_char c \<and> c \<noteq> CHR ''#''"
proof -
  have m: "\<not> control_char (CHR ''&'') \<and> \<not> control_char (CHR ''='')" by code_simp
  assume "c \<in> set (values_encode vs)"
  then have "c = CHR ''&'' \<or> (\<exists>p \<in> set (encode_pairs vs). c \<in> set p)"
    unfolding values_encode_def by (rule join_with_chars)
  then show ?thesis using m query_escape_chars by (auto simp: encode_pairs_eq)
qed

end
