(* ===== verification/Server_Config.thy ===== *)
theory Server_Config
  imports Auth_Chain Auth_MTLS Audit_Log Target Go_URL_Text
begin

text \<open>
  \<open>internal/server/server.go\<close>, what the server sets up and what every request passes: \<open>Config\<close>, the
  routes and the listener of \<open>ListenAndServe\<close>, the mTLS configuration, the fingerprint middleware
  and \<open>authenticateRequest\<close>.

  What a handler does is a list of events in the order in which it does them. Log attributes named
  \<open>error\<close> are left out, as their text comes from outside the program.
\<close>

section \<open>Configuration and requests\<close>

record server_config =
  sc_addr :: string
  sc_stats :: bool \<comment> \<open>\<open>cfg.Stats != nil\<close>\<close>
  sc_modes :: "string list"
  sc_tls_cert :: string
  sc_tls_key :: string
  sc_tls_auto :: bool
  sc_tls_domain :: string
  sc_tls_ca :: string
  sc_reverse :: bool
  sc_fingerprint :: string

text \<open>\<open>Config.AuthChain\<close> is kept apart, because authenticating changes it; \<open>None\<close> is nil.\<close>

type_synonym auth_chain = "auth_method list option"

text \<open>\<open>rq_path\<close> is \<open>r.URL.Path\<close>, \<open>rq_escaped_path\<close> the path as \<open>EscapedPath\<close> returns it.\<close>

record http_request =
  rq_method :: string
  rq_path :: string
  rq_escaped_path :: string
  rq_host :: string
  rq_url_host :: string
  rq_raw_query :: string
  rq_authorization :: string
  rq_remote :: string
  rq_tls :: tls_state

datatype server_event =
    SetHeader string string
  | Respond nat string
  | Accepted \<comment> \<open>the WebSocket handshake\<close>
  | DialTCP string bool
  | SendUDP string bytes
  | SendFrame bytes
  | Logged log_record
  | Counted "stat_op list"
  | Relayed
  | ClosedClient
  | ClosedTarget

definition log_event :: "level \<Rightarrow> string \<Rightarrow> (string \<times> attr_value) list \<Rightarrow> server_event" where
  "log_event l m as = Logged \<lparr>lr_level = l, lr_message = m, lr_attrs = as\<rparr>"

section \<open>Routes\<close>

datatype handler_id = Healthz | Connect | ConnectHTTP | ConnectUDP | MuxSession

record route =
  rt_pattern :: string
  rt_handler :: handler_id
  rt_fingerprint :: bool \<comment> \<open>wrapped by \<open>fp\<close>\<close>

text \<open>\<open>http.ServeMux.HandleFunc\<close> panics when the pattern is already registered.\<close>

definition HandleFunc :: "string \<Rightarrow> handler_id \<Rightarrow> bool \<Rightarrow> route list \<Rightarrow> (unit, route list) outcome" where
  "HandleFunc pat h w rs =
     (if pat \<in> rt_pattern ` set rs then Panic
      else Ok (rs @ [\<lparr>rt_pattern = pat, rt_handler = h, rt_fingerprint = w\<rparr>]))"

fun register_modes :: "string list \<Rightarrow> route list \<Rightarrow> (unit, route list) outcome" where
  "register_modes [] rs = Ok rs"
| "register_modes (m # ms) rs =
     obind
       (if m = ''socks5'' \<or> m = ''socks5-udp'' then HandleFunc ''/connect'' Connect True rs
        else if m = ''connect'' then HandleFunc ''/connect-http'' ConnectHTTP False rs
        else Ok rs)
       (register_modes ms)"

fun register_udp :: "string list \<Rightarrow> route list \<Rightarrow> (unit, route list) outcome" where
  "register_udp [] rs = Ok rs"
| "register_udp (m # ms) rs =
     (if m = ''socks5-udp'' then HandleFunc ''/connect-udp'' ConnectUDP True rs
      else register_udp ms rs)"

definition effective_modes :: "string list \<Rightarrow> string list" where
  "effective_modes ms = (if ms = [] then [''socks5''] else ms)"

definition server_routes :: "string list \<Rightarrow> (unit, route list) outcome" where
  "server_routes ms =
     (let modes = effective_modes ms
      in obind (HandleFunc ''/healthz'' Healthz False []) (\<lambda>rs.
         obind (register_modes modes rs) (\<lambda>rs.
         obind (register_udp modes rs) (HandleFunc ''/mux'' MuxSession True))))"

text \<open>The patterns have no wildcard and no trailing slash: a path selects the equal pattern.\<close>

definition route_for :: "route list \<Rightarrow> string \<Rightarrow> route option" where
  "route_for rs path = find (\<lambda>r. rt_pattern r = path) rs"

text \<open>\<open>cleanPath\<close> of \<open>net/http\<close>: the path without empty segments and dots, with its trailing slash.\<close>

fun clean_segments :: "string list \<Rightarrow> string list \<Rightarrow> string list" where
  "clean_segments [] acc = rev acc"
| "clean_segments (s # ss) acc =
     clean_segments ss (if s = [] \<or> s = ''.'' then acc else if s = ''..'' then tl acc else s # acc)"

definition clean_path :: "string \<Rightarrow> string" where
  "clean_path p =
     (let q = (if p \<noteq> [] \<and> hd p = CHR ''/'' then p else CHR ''/'' # p);
          np = CHR ''/'' # join_with (CHR ''/'') (clean_segments (split_on (CHR ''/'') q) [])
      in if p = [] then ''/'' else if last p = CHR ''/'' \<and> np \<noteq> ''/'' then np @ ''/'' else np)"

lemma clean_path_segment:
  assumes "CHR ''/'' \<notin> set e" and "e \<notin> {[], ''.'', ''..''}"
  shows "clean_path (CHR ''/'' # e) = CHR ''/'' # e"
proof -
  have "split_on (CHR ''/'') (CHR ''/'' # e) = [[], e]" using assms(1) by (simp add: split_on_no_sep)
  moreover have "last e \<noteq> CHR ''/''" using assms last_in_set [of e] by (metis insertCI)
  ultimately show ?thesis using assms(2) by (simp add: clean_path_def Let_def)
qed

section \<open>The listener\<close>

text \<open>\<open>None\<close> for a nil configuration; else \<open>VerifyClientCertIfGiven\<close> against the pool.\<close>

type_synonym 'c mtls = "'c list option"

datatype 'c listener =
    ListenAutocert string "'c mtls"
  | ListenTLS string string "'c mtls"
  | ListenPlain

definition buildMTLSConfig ::
    "(string \<Rightarrow> 'c list) \<Rightarrow> (string \<Rightarrow> string option) \<Rightarrow> server_config \<Rightarrow> 'c mtls \<times> server_event list" where
  "buildMTLSConfig certs read cfg =
     (if sc_tls_ca cfg = [] then (None, [])
      else case LoadCACertPool certs (read (sc_tls_ca cfg)) of
             Ok pool \<Rightarrow> (Some pool, [log_event LInfo ''mTLS enabled'' [(''ca'', AStr (sc_tls_ca cfg))]])
           | _ \<Rightarrow> (None, [log_event LError ''loading CA certificate'' []]))"

record 'c server_plan =
  sp_routes :: "route list"
  sp_listener :: "'c listener"
  sp_events :: "server_event list"

definition ListenAndServe ::
    "(string \<Rightarrow> 'c list) \<Rightarrow> (string \<Rightarrow> string option) \<Rightarrow> server_config \<Rightarrow> (unit, 'c server_plan) outcome" where
  "ListenAndServe certs read cfg =
     obind (server_routes (sc_modes cfg)) (\<lambda>rs.
       let modes = effective_modes (sc_modes cfg);
           started = log_event LInfo ''server starting''
             [(''addr'', AStr (sc_addr cfg)), (''modes'', AStr (join_with (CHR '','') modes)),
              (''reverse'', ABool (sc_reverse cfg))];
           fp = (if sc_fingerprint cfg \<noteq> []
                 then [log_event LInfo ''server fingerprint'' [(''fingerprint'', AStr (sc_fingerprint cfg))]]
                 else []);
           (mtls, mlog) = buildMTLSConfig certs read cfg;
           (lis, llog) =
             (if sc_tls_auto cfg then
                (ListenAutocert (sc_tls_domain cfg) mtls,
                 [log_event LInfo ''TLS autocert enabled'' [(''domain'', AStr (sc_tls_domain cfg))]])
              else if sc_tls_cert cfg \<noteq> [] \<and> sc_tls_key cfg \<noteq> [] then
                (ListenTLS (sc_tls_cert cfg) (sc_tls_key cfg) mtls,
                 [log_event LInfo ''TLS enabled'' [(''cert'', AStr (sc_tls_cert cfg))]])
              else (ListenPlain, []))
       in Ok \<lparr>sp_routes = rs, sp_listener = lis, sp_events = started # fp @ mlog @ llog\<rparr>)"

section \<open>What every request passes\<close>

definition fingerprintMiddleware :: "string \<Rightarrow> server_event list \<Rightarrow> server_event list" where
  "fingerprintMiddleware fp next =
     (if fp = [] then next else SetHeader ''X-Longsocks-Fingerprint'' fp # next)"

definition healthzHandler :: "server_event list" where
  "healthzHandler = [Respond 200 (''ok'' @ [CHR 0x0A])]"

text \<open>The identity (\<open>None\<close> when the request is refused), the chain afterwards and the events.\<close>

definition authenticateRequest ::
    "auth_world \<Rightarrow> auth_chain \<Rightarrow> http_request \<Rightarrow> string option \<times> auth_chain \<times> server_event list" where
  "authenticateRequest w ch r =
     (if MTLSIdentity (rq_tls r) \<noteq> [] then (Some (MTLSIdentity (rq_tls r)), ch, [])
      else case ch of
             Some as \<Rightarrow>
               if Enabled as then
                 (let bearer = extractBearer (rq_authorization r)
                  in if bearer = [] then
                       (None, ch, [Logged (LogAuthFailure (rq_remote r)), Respond 401 ''missing authorization''])
                     else
                       (case chain_Authenticate w bearer as of
                          (Some identity, as') \<Rightarrow> (Some identity, Some as', [])
                        | (None, as') \<Rightarrow>
                            (None, Some as', [Logged (LogAuthFailure (rq_remote r)), Respond 401 ''unauthorized''])))
               else (Some [], ch, [])
           | None \<Rightarrow> (Some [], ch, []))"

section \<open>Facts about routes\<close>

text \<open>The route that a mode registers in the first loop.\<close>

definition mode_route :: "string \<Rightarrow> route option" where
  "mode_route m =
     (if m = ''socks5'' \<or> m = ''socks5-udp''
      then Some \<lparr>rt_pattern = ''/connect'', rt_handler = Connect, rt_fingerprint = True\<rparr>
      else if m = ''connect''
      then Some \<lparr>rt_pattern = ''/connect-http'', rt_handler = ConnectHTTP, rt_fingerprint = False\<rparr>
      else None)"

definition mode_routes :: "string list \<Rightarrow> route list" where
  "mode_routes ms = List.map_filter mode_route ms"

lemma mode_routes_simps [simp]:
  "mode_routes [] = []"
  "mode_routes (m # ms) = (case mode_route m of None \<Rightarrow> mode_routes ms | Some r \<Rightarrow> r # mode_routes ms)"
  by (simp_all add: mode_routes_def List.map_filter_simps split: option.split)

lemma register_modes_Cons:
  "register_modes (m # ms) rs =
     (case mode_route m of
        None \<Rightarrow> register_modes ms rs
      | Some r \<Rightarrow> if rt_pattern r \<in> rt_pattern ` set rs then Panic else register_modes ms (rs @ [r]))"
  by (simp add: mode_route_def HandleFunc_def)

lemma register_modes_eq:
  assumes "distinct (map rt_pattern rs)"
  shows "register_modes ms rs =
    (if distinct (map rt_pattern (rs @ mode_routes ms)) then Ok (rs @ mode_routes ms) else Panic)"
  using assms
proof (induction ms arbitrary: rs)
  case (Cons m ms)
  show ?case
  proof (cases "mode_route m")
    case None
    then show ?thesis using Cons by (simp add: register_modes_Cons del: register_modes.simps)
  next
    case (Some r)
    show ?thesis
    proof (cases "rt_pattern r \<in> rt_pattern ` set rs")
      case True
      then show ?thesis using Some by (simp add: register_modes_Cons del: register_modes.simps)
    next
      case False
      then have "distinct (map rt_pattern (rs @ [r]))" using Cons.prems by simp
      from Cons.IH [OF this] False Some show ?thesis
        by (simp add: register_modes_Cons del: register_modes.simps)
    qed
  qed
qed simp

lemma register_udp_eq:
  "''/connect-udp'' \<notin> rt_pattern ` set rs \<Longrightarrow>
   register_udp ms rs =
     Ok (rs @ (if ''socks5-udp'' \<in> set ms
               then [\<lparr>rt_pattern = ''/connect-udp'', rt_handler = ConnectUDP, rt_fingerprint = True\<rparr>]
               else []))"
  by (induction ms) (auto simp: HandleFunc_def)

lemma mode_routes_patterns: "r \<in> set (mode_routes ms) \<Longrightarrow> rt_pattern r \<in> {''/connect'', ''/connect-http''}"
  by (induction ms) (auto simp: mode_route_def split: if_splits)

lemma count_mode_routes:
  "count_list (map rt_pattern (mode_routes ms)) ''/connect'' =
     count_list ms ''socks5'' + count_list ms ''socks5-udp''"
  "count_list (map rt_pattern (mode_routes ms)) ''/connect-http'' = count_list ms ''connect''"
  by (induction ms) (auto simp: mode_route_def)

lemma count_list_in: "x \<in> set xs \<longleftrightarrow> 0 < count_list xs x"
  by (induction xs) auto

lemma distinct_count_list: "distinct xs \<longleftrightarrow> (\<forall>x. count_list xs x \<le> 1)"
proof (induction xs)
  case (Cons a xs)
  show ?case
  proof
    assume "distinct (a # xs)"
    then show "\<forall>x. count_list (a # xs) x \<le> 1" using Cons count_notin [of a xs] by simp
  next
    assume *: "\<forall>x. count_list (a # xs) x \<le> 1"
    then have "a \<notin> set xs" using count_list_in [of a xs] by (auto dest: spec [of _ a])
    moreover have "count_list xs x \<le> 1" for x
      using spec [OF *, of x] by (simp split: if_splits)
    ultimately show "distinct (a # xs)" using Cons by simp
  qed
qed simp

lemma distinct_mode_routes:
  "distinct (map rt_pattern (mode_routes ms)) \<longleftrightarrow>
     count_list ms ''socks5'' + count_list ms ''socks5-udp'' \<le> 1 \<and> count_list ms ''connect'' \<le> 1"
proof -
  have "set (map rt_pattern (mode_routes ms)) \<subseteq> {''/connect'', ''/connect-http''}"
    using mode_routes_patterns by auto
  then have "count_list (map rt_pattern (mode_routes ms)) p = 0"
    if "p \<noteq> ''/connect''" "p \<noteq> ''/connect-http''" for p
    using that by (intro count_notin) auto
  then have "distinct (map rt_pattern (mode_routes ms)) \<longleftrightarrow>
      count_list (map rt_pattern (mode_routes ms)) ''/connect'' \<le> 1 \<and>
      count_list (map rt_pattern (mode_routes ms)) ''/connect-http'' \<le> 1"
    unfolding distinct_count_list by (metis zero_le)
  then show ?thesis by (simp only: count_mode_routes)
qed

lemma server_routes_eq:
  "server_routes ms =
     (let modes = effective_modes ms
      in if count_list modes ''socks5'' + count_list modes ''socks5-udp'' \<le> 1 \<and> count_list modes ''connect'' \<le> 1
         then Ok (\<lparr>rt_pattern = ''/healthz'', rt_handler = Healthz, rt_fingerprint = False\<rparr> #
                  mode_routes modes @
                  (if ''socks5-udp'' \<in> set modes
                   then [\<lparr>rt_pattern = ''/connect-udp'', rt_handler = ConnectUDP, rt_fingerprint = True\<rparr>]
                   else []) @
                  [\<lparr>rt_pattern = ''/mux'', rt_handler = MuxSession, rt_fingerprint = True\<rparr>])
         else Panic)"
proof -
  let ?h = "\<lparr>rt_pattern = ''/healthz'', rt_handler = Healthz, rt_fingerprint = False\<rparr>"
  let ?m = "effective_modes ms"
  have *: "p \<notin> rt_pattern ` set (mode_routes ?m)" if "p \<notin> {''/connect'', ''/connect-http''}" for p
    using mode_routes_patterns that by blast
  have "register_modes ?m [?h] =
      (if distinct (map rt_pattern (mode_routes ?m)) then Ok (?h # mode_routes ?m) else Panic)"
    using * [of "''/healthz''"] by (simp add: register_modes_eq)
  moreover have "\<not> (''/mux'' \<in> rt_pattern ` set (mode_routes ?m))" "\<not> (''/connect-udp'' \<in> rt_pattern ` set (mode_routes ?m))"
    using * [of "''/connect-udp''"] * [of "''/mux''"] by simp_all
  ultimately show ?thesis
    unfolding distinct_mode_routes Let_def
    by (cases "''socks5-udp'' \<in> set ?m") (auto simp: server_routes_def HandleFunc_def register_udp_eq)
qed

text \<open>The endpoint of the SOCKS modes.\<close>

lemma connect_route:
  assumes "server_routes ms = Ok rs" and "''socks5'' \<in> set ms \<or> ''socks5-udp'' \<in> set ms \<or> ms = []"
  shows "map_option rt_handler (route_for rs ''/connect'') = Some Connect"
proof -
  have "map_option rt_handler (find (\<lambda>r. rt_pattern r = ''/connect'') (mode_routes qs @ ys)) = Some Connect"
    if "''socks5'' \<in> set qs \<or> ''socks5-udp'' \<in> set qs" for qs ys
    using that by (induction qs) (auto simp: mode_route_def)
  moreover have "''socks5'' \<in> set (effective_modes ms) \<or> ''socks5-udp'' \<in> set (effective_modes ms)"
    using assms(2) by (auto simp: effective_modes_def)
  ultimately show ?thesis
    using assms(1) by (auto simp: server_routes_eq route_for_def Let_def split: if_splits)
qed

section \<open>Facts about authentication\<close>

lemma authenticateRequest_accepts:
  assumes "authenticateRequest w ch r = (Some i, ch', es)"
  shows "es = []"
    and "i = MTLSIdentity (rq_tls r) \<and> i \<noteq> [] \<and> ch' = ch \<or>
         \<not> chain_active ch \<and> i = [] \<and> ch' = ch \<or>
         (\<exists>as bearer. ch = Some as \<and> rq_authorization r = ''Bearer '' @ bearer \<and> bearer \<noteq> [] \<and>
            chain_Authenticate w bearer as = (Some i, the ch') \<and> i \<noteq> [])"
proof -
  show "es = []"
    using assms
    by (auto simp: authenticateRequest_def Let_def split: if_splits option.splits prod.splits)
  have bearer: "h = ''Bearer '' @ extractBearer h" if "extractBearer h \<noteq> []" for h
    using extractBearer_iff [of h "extractBearer h"] that by blast
  have ne: "fst (chain_Authenticate w b as) = Some i \<Longrightarrow> i \<noteq> []" for b as
    by (rule chain.identity_nonempty)
  show "i = MTLSIdentity (rq_tls r) \<and> i \<noteq> [] \<and> ch' = ch \<or>
         \<not> chain_active ch \<and> i = [] \<and> ch' = ch \<or>
         (\<exists>as bearer. ch = Some as \<and> rq_authorization r = ''Bearer '' @ bearer \<and> bearer \<noteq> [] \<and>
            chain_Authenticate w bearer as = (Some i, the ch') \<and> i \<noteq> [])"
  proof (cases "MTLSIdentity (rq_tls r) \<noteq> [] \<or> \<not> chain_active ch")
    case True
    then show ?thesis
      using assms by (auto simp: authenticateRequest_def chain_active_def split: if_splits option.splits)
  next
    case False
    then obtain as where as: "ch = Some as" "Enabled as" "MTLSIdentity (rq_tls r) = []"
      by (auto simp: chain_active_def split: option.splits)
    define b where "b = extractBearer (rq_authorization r)"
    have "b \<noteq> []" and c: "chain_Authenticate w b as = (Some i, the ch')"
      using assms as
      by (auto simp: authenticateRequest_def Let_def b_def split: if_splits option.splits prod.splits)
    moreover have "rq_authorization r = ''Bearer '' @ b"
      using bearer [of "rq_authorization r"] \<open>b \<noteq> []\<close> by (simp add: b_def)
    moreover have "i \<noteq> []" using ne [of b as] c by simp
    ultimately show ?thesis using as(1) by blast
  qed
qed

lemma authenticateRequest_refuses:
  assumes "authenticateRequest w ch r = (None, ch', es)"
  shows "\<exists>msg. es = [Logged (LogAuthFailure (rq_remote r)), Respond 401 msg]"
    and "chain_active ch" and "MTLSIdentity (rq_tls r) = []"
  using assms
  by (auto simp: authenticateRequest_def chain_active_def Let_def split: if_splits option.splits prod.splits)

section \<open>Properties\<close>

text \<open>C0: \<open>authenticateRequest\<close> lets a request in under a name only for one of three reasons: a verified client
  certificate (the name is then that of the certificate), a server without any authenticator (the
  empty name), or a bearer token that one of the authenticators of the chain accepts under that name.\<close>

theorem authenticated_by:
  assumes "authenticateRequest w ch r = (Some i, ch', es)"
  shows "(MTLSIdentity (rq_tls r) = i \<and> i \<noteq> []) \<or>
         (chain_active ch = False \<and> i = []) \<or>
         (\<exists>as bearer a. ch = Some as \<and> rq_authorization r = ''Bearer '' @ bearer \<and> bearer \<noteq> [] \<and>
            a \<in> set as \<and> fst (method_Authenticate w bearer a) = Some i \<and> i \<noteq> [])"
proof -
  have "\<exists>a \<in> set as. fst (method_Authenticate w b a) = Some i" if "chain_Authenticate w b as = (Some i, x)" for as b x
    using chain_accepts_mem [of w b as i] that by auto
  then show ?thesis using authenticateRequest_accepts(2) [OF assms] by blast
qed

definition demo_request :: http_request where
  "demo_request =
     \<lparr>rq_method = ''GET'', rq_path = ''/connect'', rq_escaped_path = ''/connect'', rq_host = [], rq_url_host = [],
      rq_raw_query = ''target=10.0.0.1%3A22'', rq_authorization = ''Bearer b'', rq_remote = ''192.0.2.7:5000'',
      rq_tls = None\<rparr>"

lemma demo_authenticated:
  "authenticateRequest (demo_lib, demo_get) (Some demo_chain) demo_request = (Some ''anonymous'', Some demo_chain, [])"
proof -
  have "static_Authenticate (NewStaticToken ''a'') ''b'' = None"
    "static_Authenticate (NewStaticToken ''b'') ''b'' = Some ''anonymous''"
    "extractBearer ''Bearer b'' = ''b''" by code_simp+
  then show ?thesis by (simp add: authenticateRequest_def demo_request_def demo_chain_def Enabled_def)
qed

lemma authenticated_by_witness:
  "\<exists>a. a \<in> set demo_chain \<and> fst (method_Authenticate (demo_lib, demo_get) ''b'' a) = Some ''anonymous''"
  using authenticated_by [OF demo_authenticated]
  by (auto simp: demo_request_def chain_active_def demo_chain_def Enabled_def)

text \<open>C0: The routes of the server: registration succeeds exactly when at most one of the modes \<open>socks5\<close> and
  \<open>socks5-udp\<close> is given, once, and \<open>connect\<close> at most once. In particular the documented way to enable
  all modes panics at startup, because \<open>/connect\<close> is registered twice.\<close>

theorem routes_panic_iff:
  "(server_routes modes = Panic) =
     (1 < count_list (effective_modes modes) ''socks5'' + count_list (effective_modes modes) ''socks5-udp'' \<or>
      1 < count_list (effective_modes modes) ''connect'')"
  by (auto simp: server_routes_eq Let_def)

lemma all_modes_panic: "server_routes [''socks5'', ''connect'', ''socks5-udp''] = Panic"
  by (simp add: server_routes_eq effective_modes_def)

text \<open>A server started with the single mode \<open>connect\<close> has no route for \<open>/connect\<close>, the endpoint that the
  client's connect mode dials: it serves \<open>/healthz\<close>, \<open>/connect-http\<close> (without the fingerprint header) and
  \<open>/mux\<close> only.\<close>

lemma connect_mode_alone:
  "\<exists>rs. server_routes [''connect''] = Ok rs \<and> route_for rs ''/connect'' = None \<and>
     map rt_pattern rs = [''/healthz'', ''/connect-http'', ''/mux''] \<and>
     map_option rt_fingerprint (route_for rs ''/connect-http'') = Some False"
  by (simp add: server_routes_eq effective_modes_def mode_route_def route_for_def)

end
