(* ===== verification/Mux_Proto.thy ===== *)
theory Mux_Proto
  imports Go_Base
begin

unbundle bit_operations_syntax

text \<open>
  \<open>internal/mux/mux.go\<close>: the header that starts every multiplexed stream, one command byte, the
  length of the address in two bytes (big endian) and the address.

  A reader is the list of bytes that can still be read before end of file; reading returns the
  rest. \<open>WriteHeader\<close> makes one call of the writer with the whole header. The locales
  \<open>frame_reader\<close> and \<open>frame_codec\<close> state what a client of a framing relies on.
\<close>

section \<open>Framings\<close>

text \<open>A framing whose decoder reads what its encoder wrote and leaves the bytes behind it.\<close>

locale frame_reader =
  fixes enc :: "'m \<Rightarrow> bytes"
    and dec :: "bytes \<Rightarrow> ('m \<times> bytes) option"
    and valid :: "'m \<Rightarrow> bool"
  assumes dec_enc: "valid m \<Longrightarrow> dec (enc m @ r) = Some (m, r)"
begin

lemma enc_inject:
  assumes "valid m" and "valid m'" and "enc m @ r = enc m' @ r'"
  shows "m = m' \<and> r = r'"
proof -
  have "Some (m, r) = Some (m', r')"
    using dec_enc [OF assms(1), of r] dec_enc [OF assms(2), of r'] unfolding assms(3) by simp
  then show ?thesis by simp
qed

lemma enc_prefix_free: "valid m \<Longrightarrow> valid m' \<Longrightarrow> prefix (enc m) (enc m') \<Longrightarrow> m = m'"
  using enc_inject [of m m' _ "[]"] by (auto simp: prefix_def)

end

text \<open>A framing whose decoder accepts nothing else.\<close>

locale frame_codec = frame_reader +
  assumes dec_sound: "dec bs = Some (m, r) \<Longrightarrow> valid m \<and> bs = enc m @ r"
begin

lemma dec_iff: "dec bs = Some (m, r) \<longleftrightarrow> valid m \<and> bs = enc m @ r"
  using dec_enc dec_sound by blast

lemma dec_consumes: "dec bs = Some (m, r) \<Longrightarrow> length bs = length (enc m) + length r"
  by (drule dec_sound) simp

end

section \<open>The header\<close>

definition CmdConnect :: byte where "CmdConnect = 0x01"
definition CmdReverseBind :: byte where "CmdReverseBind = 0x02"
definition CmdReverseConn :: byte where "CmdReverseConn = 0x03"

text \<open>\<open>binary.BigEndian\<close>\<close>

definition put_uint16 :: "16 word \<Rightarrow> bytes" where
  "put_uint16 v = [ucast (drop_bit 8 v), ucast v]"

definition get_uint16 :: "byte \<Rightarrow> byte \<Rightarrow> 16 word" where
  "get_uint16 hi lo = push_bit 8 (ucast hi) OR ucast lo"

text \<open>The buffer that \<open>WriteHeader\<close> fills: the length is converted to \<open>uint16\<close>.\<close>

definition header_bytes :: "byte \<Rightarrow> string \<Rightarrow> bytes" where
  "header_bytes cmd addr = cmd # put_uint16 (of_nat (length addr)) @ bytes_of_string addr"

definition WriteHeader :: "(bytes \<Rightarrow> 'w \<Rightarrow> 'e option \<times> 'w) \<Rightarrow> byte \<Rightarrow> string \<Rightarrow> 'w \<Rightarrow> 'e option \<times> 'w" where
  "WriteHeader write cmd addr w = write (header_bytes cmd addr) w"

datatype mux_error = ShortHeader | AddressTooLong nat | ShortAddress

text \<open>\<open>io.ReadFull\<close>: exactly \<open>n\<close> bytes, or an error once the input has ended.\<close>

definition read_full :: "nat \<Rightarrow> bytes \<Rightarrow> (bytes \<times> bytes) option" where
  "read_full n bs = (if n \<le> length bs then Some (take n bs, drop n bs) else None)"

definition ReadHeader :: "bytes \<Rightarrow> (mux_error, byte \<times> string) outcome \<times> bytes" where
  "ReadHeader r =
     (case read_full 3 r of
        None \<Rightarrow> (Err ShortHeader, [])
      | Some (hdr, r1) \<Rightarrow>
          let addrLen = unat (get_uint16 (hdr ! 1) (hdr ! 2))
          in if addrLen > 4096 then (Err (AddressTooLong addrLen), r1)
             else case read_full addrLen r1 of
                    None \<Rightarrow> (Err ShortAddress, [])
                  | Some (addrBuf, r2) \<Rightarrow> (Ok (hdr ! 0, string_of_bytes addrBuf), r2))"

lemma get_put_uint16 [simp]: "get_uint16 (ucast (drop_bit 8 v)) (ucast v) = v"
  unfolding get_uint16_def
  by (rule bit_word_eqI) (auto simp: bit_simps not_less)

lemma put_get_uint16 [simp]: "put_uint16 (get_uint16 hi lo) = [hi, lo]"
proof -
  have "ucast (drop_bit 8 (get_uint16 hi lo)) = hi"
    unfolding get_uint16_def by (rule bit_word_eqI) (auto simp: bit_simps dest: bit_imp_le_length)
  moreover have "ucast (get_uint16 hi lo) = lo"
    unfolding get_uint16_def by (rule bit_word_eqI) (auto simp: bit_simps)
  ultimately show ?thesis by (simp add: put_uint16_def)
qed

lemma unat_length16: "unat (of_nat n :: 16 word) = n mod 65536"
  by (simp add: unat_of_nat take_bit_eq_mod)

lemma read_full_3 [simp]: "read_full 3 (a # b # c # r) = Some ([a, b, c], r)"
  by (simp add: read_full_def eval_nat_numeral)

text \<open>What a reader makes of a header written for any address, of any length.\<close>

lemma ReadHeader_header_bytes:
  "ReadHeader (header_bytes cmd addr @ r) =
     (let n = length addr mod 65536
      in if n > 4096 then (Err (AddressTooLong n), bytes_of_string addr @ r)
         else (Ok (cmd, take n addr), bytes_of_string (drop n addr) @ r))"
proof -
  let ?n = "length addr mod 65536"
  have le: "?n \<le> length addr" by simp
  have "header_bytes cmd addr @ r =
      cmd # ucast (drop_bit 8 (of_nat (length addr) :: 16 word)) # ucast (of_nat (length addr) :: 16 word)
        # bytes_of_string addr @ r"
    by (simp add: header_bytes_def put_uint16_def)
  moreover have "read_full ?n (bytes_of_string addr @ r) =
      Some (bytes_of_string (take ?n addr), bytes_of_string (drop ?n addr) @ r)"
    using le by (simp add: read_full_def bytes_of_string_def take_map drop_map trans_le_add1)
  ultimately show ?thesis
    by (simp add: ReadHeader_def unat_length16 Let_def del: of_nat_mod)
qed

lemma ReadHeader_roundtrip:
  "length addr \<le> 4096 \<Longrightarrow> ReadHeader (header_bytes cmd addr @ r) = (Ok (cmd, addr), r)"
  by (simp add: ReadHeader_header_bytes bytes_of_string_def)

lemma ReadHeader_sound:
  assumes "ReadHeader bs = (Ok (cmd, addr), r)"
  shows "length addr \<le> 4096 \<and> bs = header_bytes cmd addr @ r"
proof -
  from assms have "\<not> length bs < 3"
    by (auto simp: ReadHeader_def read_full_def)
  then obtain a b c t where bs: "bs = a # b # c # t"
    by (cases bs; cases "tl bs"; cases "tl (tl bs)") auto
  let ?n = "unat (get_uint16 b c)"
  from assms bs have n: "?n \<le> 4096" "?n \<le> length t" "cmd = a" "addr = string_of_bytes (take ?n t)"
    "r = drop ?n t"
    by (auto simp: ReadHeader_def Let_def read_full_def split: if_splits)
  then have len: "length addr = ?n" by simp
  then have "(of_nat (length addr) :: 16 word) = get_uint16 b c" by simp
  then have "header_bytes cmd addr = a # b # c # take ?n t"
    using n(3,4) by (simp add: header_bytes_def)
  then show ?thesis using n bs len by simp
qed

lemma ReadHeader_not_Panic [simp]: "fst (ReadHeader bs) \<noteq> Panic"
  by (simp add: ReadHeader_def Let_def split: option.split)

text \<open>The header as a framing.\<close>

definition header_msg :: "byte \<times> string \<Rightarrow> bytes" where
  "header_msg m = header_bytes (fst m) (snd m)"

definition read_msg :: "bytes \<Rightarrow> ((byte \<times> string) \<times> bytes) option" where
  "read_msg bs = (case ReadHeader bs of (Ok m, r) \<Rightarrow> Some (m, r) | _ \<Rightarrow> None)"

definition short_addr :: "byte \<times> string \<Rightarrow> bool" where
  "short_addr m \<longleftrightarrow> length (snd m) \<le> 4096"

interpretation hdr: frame_codec header_msg read_msg short_addr
proof unfold_locales
  fix m r assume "short_addr m"
  then show "read_msg (header_msg m @ r) = Some (m, r)"
    by (simp add: read_msg_def header_msg_def short_addr_def ReadHeader_roundtrip)
next
  fix bs m r assume "read_msg bs = Some (m, r)"
  then have "ReadHeader bs = (Ok (fst m, snd m), r)"
    by (auto simp: read_msg_def split: prod.splits outcome.splits)
  from ReadHeader_sound [OF this] show "short_addr m \<and> bs = header_msg m @ r"
    by (simp add: short_addr_def header_msg_def)
qed

text \<open>Writing to a stream appends to what was written, or fails.\<close>

definition stream_write :: "bool \<Rightarrow> bytes \<Rightarrow> bytes \<Rightarrow> unit option \<times> bytes" where
  "stream_write ok p w = (if ok then (None, w @ p) else (Some (), w))"

lemma WriteHeader_stream [simp]:
  "WriteHeader (stream_write True) cmd addr w = (None, w @ header_bytes cmd addr)"
  "WriteHeader (stream_write False) cmd addr w = (Some (), w)"
  by (simp_all add: WriteHeader_def stream_write_def)

section \<open>Properties\<close>

text \<open>C0: \<open>ReadHeader\<close> accepts exactly what one call of \<open>WriteHeader\<close> writes for an address of at most
  4096 bytes, whatever follows it on the stream: it returns the command and the address and leaves
  the rest unread.\<close>

theorem mux_header_codec:
  "ReadHeader bs = (Ok (cmd, addr), rest) \<longleftrightarrow>
     length addr \<le> 4096 \<and> bs = snd (WriteHeader (stream_write True) cmd addr []) @ rest"
  using ReadHeader_roundtrip [of addr cmd rest] ReadHeader_sound [of bs cmd addr rest] by auto

text \<open>\<open>WriteHeader\<close> does not check the length of the address, which it stores in 16 bits. Of an
  address of 65536 bytes or more the reader gets, without an error, only the first
  \<open>length addr mod 65536\<close> bytes when these are at most 4096, and takes the rest of the address for
  the payload of the stream.\<close>

lemma mux_header_truncated:
  assumes "length addr mod 65536 \<le> 4096"
  shows "ReadHeader (snd (WriteHeader (stream_write True) cmd addr []) @ payload) =
    (Ok (cmd, take (length addr mod 65536) addr),
     bytes_of_string (drop (length addr mod 65536) addr) @ payload)"
  using assms by (simp add: ReadHeader_header_bytes Let_def)

end
