(* ===== verification/Udp_Frame.thy ===== *)
theory Udp_Frame
  imports Target Mux_Proto
begin

text \<open>
  The SOCKS5 datagram framing of \<open>internal/server/server.go\<close>: \<open>parseUDPFrame\<close> with every index and
  slice expression under Go's bounds check, and \<open>buildUDPFrame\<close>.
\<close>

datatype frame_error =
    FrameTooShort | TooShortForIPv4 | TooShortForDomain | TooShortForIPv6 | TooShortForPort
  | UnknownAddressType byte

text \<open>The address part: the host and the index behind it.\<close>

definition frame_host :: "byte \<Rightarrow> bytes \<Rightarrow> (frame_error, string \<times> nat) outcome" where
  "frame_host atyp data =
     (if atyp = 0x01 then
        (if length data < 10 then Err TooShortForIPv4
         else obind (go_slice data 4 8) (\<lambda>a. Ok (ip_string a, 8)))
      else if atyp = 0x03 then
        obind (go_index data 4) (\<lambda>l.
          let dlen = unat l
          in if length data < 5 + dlen + 2 then Err TooShortForDomain
             else obind (go_slice data 5 (5 + dlen)) (\<lambda>h. Ok (string_of_bytes h, 5 + dlen)))
      else if atyp = 0x04 then
        (if length data < 22 then Err TooShortForIPv6
         else obind (go_slice data 4 20) (\<lambda>a. Ok (ip_string a, 20)))
      else Err (UnknownAddressType atyp))"

definition parseUDPFrame :: "bytes \<Rightarrow> (frame_error, string \<times> bytes) outcome" where
  "parseUDPFrame data =
     (if length data < 7 then Err FrameTooShort
      else
        obind (go_index data 3) (\<lambda>atyp.
        obind (frame_host atyp data) (\<lambda>(host, addrEnd).
          if length data < addrEnd + 2 then Err TooShortForPort
          else
            obind (go_index data addrEnd) (\<lambda>hi.
            obind (go_index data (addrEnd + 1)) (\<lambda>lo.
            obind (go_slice data (addrEnd + 2) (length data)) (\<lambda>payload.
              Ok (host @ CHR '':'' # itoa (256 * unat hi + unat lo), payload)))))))"

text \<open>\<open>byte(port>>8)\<close> and \<open>byte(port&0xff)\<close> of an \<open>int\<close>; a port that does not scan is 0.\<close>

definition buildUDPFrame :: "string \<Rightarrow> bytes \<Rightarrow> bytes" where
  "buildUDPFrame target payload =
     (let (host, portStr) = (case split_host_port target of Ok hp \<Rightarrow> hp | _ \<Rightarrow> ([], []));
          port = (case sscanf_d portStr of Some v \<Rightarrow> v | None \<Rightarrow> 0);
          addr = (case parse_ip host of
                    Some ip \<Rightarrow> (case to4 ip of Some ip4 \<Rightarrow> 0x01 # ip4 | None \<Rightarrow> 0x04 # ip)
                  | None \<Rightarrow> 0x03 # of_nat (length host) # bytes_of_string host)
      in [0, 0, 0] @ addr @ [of_int (port div 256), of_int (port mod 256)] @ payload)"

section \<open>Totality\<close>

lemma frame_host_bounds:
  assumes "7 \<le> length data"
  shows "frame_host atyp data \<noteq> Panic"
    and "frame_host atyp data = Ok (h, e) \<Longrightarrow> e + 2 \<le> length data"
  using assms by (auto simp: frame_host_def Let_def split: if_splits)

lemma parseUDPFrame_not_Panic: "parseUDPFrame data \<noteq> Panic"
proof (cases "7 \<le> length data")
  case True
  show ?thesis
  proof (cases "frame_host (data ! 3) data")
    case (Ok x)
    obtain h e where x: "x = (h, e)" by fastforce
    from frame_host_bounds(2) [OF True Ok [unfolded x]] Ok True x show ?thesis
      by (simp add: parseUDPFrame_def)
  qed (use True frame_host_bounds(1) [OF True, of "data ! 3"] in \<open>simp_all add: parseUDPFrame_def\<close>)
qed (simp add: parseUDPFrame_def)

section \<open>The three kinds of frames\<close>

definition port_bytes :: "nat \<Rightarrow> bytes" where
  "port_bytes p = [of_nat (p div 256), of_nat (p mod 256)]"

lemma length_port_bytes [simp]: "length (port_bytes p) = 2"
  by (simp add: port_bytes_def)

lemma unat_port_bytes:
  assumes "p < 65536"
  shows "256 * unat (of_nat (p div 256) :: byte) + unat (of_nat (p mod 256) :: byte) = p"
proof -
  have "p div 256 < 256" using assms by (simp add: less_mult_imp_div_less)
  then show ?thesis by (simp add: unat_of_nat)
qed

lemma parse_v4_frame:
  assumes "length ip = 4" and "p < 65536"
  shows "parseUDPFrame ([x, y, z, 0x01] @ ip @ port_bytes p @ payload) =
    Ok (ip4_string ip @ CHR '':'' # itoa p, payload)"
  using assms unat_port_bytes [OF assms(2)]
  by (elim length_4E) (simp add: parseUDPFrame_def frame_host_def port_bytes_def ip_string_v4)

lemma parse_domain_frame:
  assumes "length h < 256" and "p < 65536"
  shows "parseUDPFrame ([x, y, z, 0x03, of_nat (length h)] @ bytes_of_string h @ port_bytes p @ payload) =
    Ok (h @ CHR '':'' # itoa p, payload)"
proof -
  let ?d = "[x, y, z, 0x03, of_nat (length h)] @ bytes_of_string h @ port_bytes p @ payload"
  have l: "unat (of_nat (length h) :: byte) = length h" using assms(1) by (simp add: unat_of_nat)
  have "frame_host 0x03 ?d = Ok (h, 5 + length h)"
    using l by (simp add: frame_host_def)
  moreover have "?d ! (5 + length h) = of_nat (p div 256)" "?d ! (Suc (5 + length h)) = of_nat (p mod 256)"
    by (simp_all add: port_bytes_def nth_append)
  moreover have "drop (7 + length h) ?d = payload"
  proof -
    let ?pre = "[x, y, z, 0x03, of_nat (length h)] @ bytes_of_string h @ port_bytes p"
    have "length ?pre = 7 + length h" by simp
    moreover have "drop (length ?pre) (?pre @ payload) = payload" by (metis append_eq_conv_conj)
    ultimately show ?thesis by (simp only: append_assoc)
  qed
  ultimately show ?thesis
    using unat_port_bytes [OF assms(2)] by (simp add: parseUDPFrame_def)
qed

lemma parse_v6_frame:
  assumes "length ip = 16" and "p < 65536"
  shows "parseUDPFrame ([x, y, z, 0x04] @ ip @ port_bytes p @ payload) =
    Ok (ip_string ip @ CHR '':'' # itoa p, payload)"
proof -
  let ?d = "[x, y, z, 0x04] @ ip @ port_bytes p @ payload"
  have "frame_host 0x04 ?d = Ok (ip_string ip, 20)"
    using assms(1) by (simp add: frame_host_def)
  moreover have "?d ! 20 = of_nat (p div 256)" "?d ! 21 = of_nat (p mod 256)"
    using assms(1) by (simp_all add: port_bytes_def nth_append)
  ultimately show ?thesis
    using assms(1) unat_port_bytes [OF assms(2)] by (simp add: parseUDPFrame_def)
qed

section \<open>Building\<close>

lemma sscanf_port: "p < 65536 \<Longrightarrow> sscanf_d (itoa p) = Some (int p)"
  using sscanf_itoa [of p "[]"] by simp

lemma port_of_int:
  "of_int (int p div 256) # of_int (int p mod 256) # r = port_bytes p @ r"
  unfolding port_bytes_def by (simp, metis of_int_of_nat_eq of_nat_numeral zdiv_int zmod_int)

lemma build_v4_frame:
  assumes "length ip = 4" and "p < 65536"
  shows "buildUDPFrame (ip4_string ip @ CHR '':'' # itoa p) payload =
    [0, 0, 0, 0x01] @ ip @ port_bytes p @ payload"
  using assms port_of_int [of p payload]
  by (simp add: buildUDPFrame_def no_sep_ip4_string parse_ip_ip4_string sscanf_port Let_def)

lemma build_domain_frame:
  assumes "no_sep h" and "parse_ip h = None" and "p < 65536"
  shows "buildUDPFrame (h @ CHR '':'' # itoa p) payload =
    [0, 0, 0, 0x03, of_nat (length h)] @ bytes_of_string h @ port_bytes p @ payload"
  using assms port_of_int [of p payload] by (simp add: buildUDPFrame_def sscanf_port Let_def)

text \<open>The targets of the datagrams that the relay can carry in both directions.\<close>

definition relay_target :: "string \<Rightarrow> bool" where
  "relay_target t \<longleftrightarrow>
     (\<exists>p < 65536. (\<exists>ip. length ip = 4 \<and> t = ip4_string ip @ CHR '':'' # itoa p) \<or>
        (\<exists>h. no_sep h \<and> parse_ip h = None \<and> length h < 256 \<and> t = h @ CHR '':'' # itoa p))"

definition udp_head :: "string \<Rightarrow> bytes" where
  "udp_head t = buildUDPFrame t []"

definition parse_frame_opt :: "bytes \<Rightarrow> (string \<times> bytes) option" where
  "parse_frame_opt d = (case parseUDPFrame d of Ok r \<Rightarrow> Some r | _ \<Rightarrow> None)"

lemma build_append: "buildUDPFrame t payload = udp_head t @ payload"
  by (simp add: buildUDPFrame_def udp_head_def Let_def split: prod.split)

lemma parse_build:
  assumes "relay_target t"
  shows "parseUDPFrame (buildUDPFrame t payload) = Ok (t, payload)"
proof -
  obtain p where p: "p < 65536"
    and "(\<exists>ip. length ip = 4 \<and> t = ip4_string ip @ CHR '':'' # itoa p) \<or>
      (\<exists>h. no_sep h \<and> parse_ip h = None \<and> length h < 256 \<and> t = h @ CHR '':'' # itoa p)"
    using assms unfolding relay_target_def by blast
  then consider ip where "length ip = 4" "t = ip4_string ip @ CHR '':'' # itoa p"
    | h where "no_sep h" "parse_ip h = None" "length h < 256" "t = h @ CHR '':'' # itoa p"
    by blast
  then show ?thesis
  proof cases
    case 1
    then show ?thesis using p parse_v4_frame [of ip p 0 0 0] by (simp only: build_v4_frame)
  next
    case 2
    then show ?thesis using p parse_domain_frame [of h p 0 0 0] by (simp only: build_domain_frame simp_thms)
  qed
qed

interpretation udp: frame_reader udp_head parse_frame_opt relay_target
  by unfold_locales (simp add: parse_frame_opt_def build_append [symmetric] parse_build)

section \<open>IPv6\<close>

lemma ip6_string_hd: "hd (ip6_string ip @ s) \<noteq> CHR ''['' "
  using ip6_string_no_bracket [of ip] ip6_string_colon [of ip]
  by (metis hd_append2 hd_in_set list.set(1) empty_iff)

lemma v6_target_rejected:
  assumes "length ip = 16" and "to4 ip = None"
  shows "validateTarget lookup (ip_string ip @ CHR '':'' # itoa p) = Some (InvalidTarget TooManyColons)"
proof -
  have "ip_string ip = ip6_string ip" using assms by (auto simp: ip_string_def)
  moreover have "hd (ip6_string ip) \<noteq> CHR ''['' " using ip6_string_hd [of ip "[]"] by simp
  ultimately show ?thesis
    using ip6_string_colon [of ip] by (simp add: validateTarget_def split_host_port_many_colons)
qed

section \<open>Properties\<close>

text \<open>C0: Parsing reads back what \<open>buildUDPFrame\<close> builds, target and payload, for the targets that the
  relay carries in both directions: an IPv4 literal or a name of at most 255 bytes, with a port.\<close>

theorem udp_frame_roundtrip:
  assumes "relay_target t"
  shows "parseUDPFrame (buildUDPFrame t payload) = Ok (t, payload)"
  using udp.dec_enc [OF assms, of payload]
  by (simp add: parse_frame_opt_def build_append [symmetric] split: outcome.splits)

lemma relay_target_name: "relay_target ''example.com:53''"
proof -
  have "no_sep ''example.com''" "parse_ip ''example.com'' = None" "itoa 53 = ''53''" by code_simp+
  then show ?thesis unfolding relay_target_def by (intro exI [of _ 53]) auto
qed

lemma udp_frame_roundtrip_witness:
  "parseUDPFrame (buildUDPFrame ''example.com:53'' [1, 2, 3]) = Ok (''example.com:53'', [1, 2, 3])"
  by (rule udp_frame_roundtrip [OF relay_target_name])

text \<open>The reply to a datagram sent to an IPv4 address carries the header of the request (with the
  reserved bytes cleared), so the client can match it: the frame built for the parsed target is the
  same address and port, then the reply.\<close>

lemma udp_reply_header:
  assumes "length ip = 4" and "p < 65536"
  shows "\<exists>t. parseUDPFrame ([x, y, z, 0x01] @ ip @ port_bytes p @ payload) = Ok (t, payload) \<and>
             buildUDPFrame t reply = [0, 0, 0, 0x01] @ ip @ port_bytes p @ reply"
  using parse_v4_frame [OF assms] build_v4_frame [OF assms] by blast

text \<open>No datagram to an IPv6 address is ever relayed, unless it is an IPv4-mapped one: the target that
  \<open>parseUDPFrame\<close> forms has no brackets, so \<open>validateTarget\<close> refuses it as malformed.\<close>

lemma udp_ipv6_blocked:
  assumes "length ip = 16" and "to4 ip = None" and "p < 65536"
  shows "\<exists>t. parseUDPFrame ([x, y, z, 0x04] @ ip @ port_bytes p @ payload) = Ok (t, payload) \<and>
             validateTarget lookup t = Some (InvalidTarget TooManyColons)"
  using parse_v6_frame [OF assms(1,3)] v6_target_rejected [OF assms(1,2)] by blast

end
