(* ===== verification/Server_Handlers.thy ===== *)
theory Server_Handlers
  imports Server_Config Udp_Frame
begin

text \<open>
  The per-connection handlers of \<open>internal/server/server.go\<close>: \<open>connectHandler\<close>,
  \<open>connectHTTPHandler\<close>, \<open>connectUDPHandler\<close> and \<open>handleMuxConnect\<close>, with the contract that the
  audit depends on.

  What the network answers during one request is a record. The two counters that \<open>Relay\<close> returns
  are 64-bit words.
\<close>

record answers =
  an_auth :: auth_world
  an_lookup :: lookup_host
  an_accept :: bool \<comment> \<open>\<open>websocket.Accept\<close> succeeds\<close>
  an_dial :: bool
  an_hijacker :: bool \<comment> \<open>the response writer is an \<open>http.Hijacker\<close>\<close>
  an_hijack :: bool
  an_relay :: "64 word \<times> 64 word"
  an_duration :: int

section \<open>Auditing a relayed connection\<close>

definition opened :: "server_config \<Rightarrow> string \<Rightarrow> string \<Rightarrow> string \<Rightarrow> server_event list" where
  "opened cfg tokenName source target =
     Logged (LogOpen tokenName source target) # (if sc_stats cfg then [Counted ConnectionOpened] else [])"

definition closed ::
    "server_config \<Rightarrow> string \<Rightarrow> string \<Rightarrow> int \<Rightarrow> 64 word \<Rightarrow> 64 word \<Rightarrow> server_event list" where
  "closed cfg tokenName target duration tx rx =
     Logged (LogClose tokenName target duration (sint tx) (sint rx)) #
     (if sc_stats cfg then [Counted (ConnectionClosed (sint tx) (sint rx))] else [])"

definition audited_relay ::
    "server_config \<Rightarrow> answers \<Rightarrow> string \<Rightarrow> string \<Rightarrow> string \<Rightarrow> server_event list" where
  "audited_relay cfg an tokenName source target =
     opened cfg tokenName source target @ [Relayed] @
     closed cfg tokenName target (an_duration an) (fst (an_relay an)) (snd (an_relay an))"

section \<open>TCP over WebSocket and over HTTP CONNECT\<close>

definition quoted :: "char \<Rightarrow> string" where
  "quoted c = [CHR 0x27, c, CHR 0x27]"

fun addr_error_text :: "addr_error \<Rightarrow> string" where
  "addr_error_text MissingPort = ''missing port in address''"
| "addr_error_text TooManyColons = ''too many colons in address''"
| "addr_error_text MissingBracket = ''missing '' @ quoted CHR '']'' @ '' in address''"
| "addr_error_text UnexpectedOpen = ''unexpected '' @ quoted CHR ''['' @ '' in address''"
| "addr_error_text UnexpectedClose = ''unexpected '' @ quoted CHR '']'' @ '' in address''"

definition target_error_text :: "target_error \<Rightarrow> string \<Rightarrow> string" where
  "target_error_text e target =
     (case e of
        InvalidTarget a \<Rightarrow> ''invalid target: address '' @ target @ '': '' @ addr_error_text a
      | NotAllowed \<Rightarrow> ''target '' @ target @ '' is not allowed''
      | ResolvesToLoopback \<Rightarrow> ''target '' @ target @ '' resolves to loopback'')"

definition connectHandler ::
    "server_config \<Rightarrow> answers \<Rightarrow> auth_chain \<Rightarrow> http_request \<Rightarrow> server_event list \<times> auth_chain" where
  "connectHandler cfg an ch r =
     (case authenticateRequest (an_auth an) ch r of
        (None, ch', es) \<Rightarrow> (es, ch')
      | (Some tokenName, ch', es) \<Rightarrow>
          let target = values_get ''target'' (parse_query (rq_raw_query r))
          in (es @
              (if target = [] then [Respond 400 ''missing target parameter'']
               else case validateTarget (an_lookup an) target of
                      Some e \<Rightarrow> [Respond 403 (target_error_text e target)]
                    | None \<Rightarrow>
                        if \<not> an_accept an then [log_event LError ''websocket accept failed'' []]
                        else Accepted #
                          (if \<not> an_dial an
                           then [DialTCP target False,
                                 log_event LError ''tcp dial failed'' [(''target'', AStr target)], ClosedClient]
                           else DialTCP target True # audited_relay cfg an tokenName (rq_remote r) target)),
              ch'))"

definition connectHTTPHandler ::
    "server_config \<Rightarrow> answers \<Rightarrow> auth_chain \<Rightarrow> http_request \<Rightarrow> server_event list \<times> auth_chain" where
  "connectHTTPHandler cfg an ch r =
     (if rq_method r \<noteq> ''CONNECT'' then ([Respond 405 ''CONNECT method required''], ch)
      else case authenticateRequest (an_auth an) ch r of
        (None, ch', es) \<Rightarrow> (es, ch')
      | (Some tokenName, ch', es) \<Rightarrow>
          let target = (if rq_host r = [] then rq_url_host r else rq_host r)
          in (es @
              (if target = [] then [Respond 400 ''missing target host'']
               else case validateTarget (an_lookup an) target of
                      Some e \<Rightarrow> [Respond 403 (target_error_text e target)]
                    | None \<Rightarrow>
                        if \<not> an_dial an
                        then [DialTCP target False,
                              log_event LError ''tcp dial failed'' [(''target'', AStr target)],
                              Respond 502 ''dial failed'']
                        else [DialTCP target True, Respond 200 []] @
                          (if \<not> an_hijacker an then [log_event LError ''hijack not supported'' [], ClosedTarget]
                           else if \<not> an_hijack an then [log_event LError ''hijack failed'' [], ClosedTarget]
                           else audited_relay cfg an tokenName (rq_remote r) target)),
              ch'))"

text \<open>The goroutine that serves one stream of a session.\<close>

definition handleMuxConnect ::
    "server_config \<Rightarrow> answers \<Rightarrow> string \<Rightarrow> string \<Rightarrow> string \<Rightarrow> server_event list" where
  "handleMuxConnect cfg an tokenName remoteAddr target =
     (case validateTarget (an_lookup an) target of
        Some e \<Rightarrow> [log_event LWarn ''target blocked'' [(''target'', AStr target)]]
      | None \<Rightarrow>
          if \<not> an_dial an
          then [DialTCP target False, log_event LError ''tcp dial failed'' [(''target'', AStr target)]]
          else DialTCP target True # audited_relay cfg an tokenName remoteAddr target) @ [ClosedClient]"

section \<open>UDP over WebSocket\<close>

text \<open>One message of the WebSocket and what the network answers to its datagram.\<close>

record udp_round =
  ur_msg :: bytes
  ur_lookup :: lookup_host
  ur_resolve :: bool
  ur_dial :: bool
  ur_write :: bool
  ur_reply :: "bytes option" \<comment> \<open>\<open>None\<close> when nothing comes within five seconds\<close>
  ur_ws_write :: bool

text \<open>
  The loop. The end of the list is the read error that ends it. It returns the events and the
  totals, which are \<open>int64\<close> variables. A reply is cut at the 65535 bytes of the buffer.
\<close>

fun udp_loop :: "udp_round list \<Rightarrow> 64 word \<Rightarrow> 64 word \<Rightarrow> server_event list \<times> 64 word \<times> 64 word" where
  "udp_loop [] tx rx = ([], tx, rx)"
| "udp_loop (u # us) tx rx =
     (let continue = (\<lambda>es tx rx. case udp_loop us tx rx of (es', r) \<Rightarrow> (es @ es', r))
      in case parseUDPFrame (ur_msg u) of
           Ok (target, payload) \<Rightarrow>
             (case validateTarget (ur_lookup u) target of
                Some e \<Rightarrow> continue [log_event LWarn ''udp target blocked'' [(''target'', AStr target)]] tx rx
              | None \<Rightarrow>
                  if \<not> ur_resolve u \<or> \<not> ur_dial u \<or> \<not> ur_write u then continue [] tx rx
                  else
                    let tx' = tx + of_nat (length payload)
                    in case ur_reply u of
                         None \<Rightarrow> continue [SendUDP target payload] tx' rx
                       | Some d \<Rightarrow>
                           let buf = take 65535 d;
                               rx' = rx + of_nat (length buf);
                               es = [SendUDP target payload, SendFrame (buildUDPFrame target buf)]
                           in if ur_ws_write u then continue es tx' rx' else (es, tx', rx'))
         | _ \<Rightarrow> continue [log_event LError ''invalid udp frame'' []] tx rx)"

definition connectUDPHandler ::
    "server_config \<Rightarrow> answers \<Rightarrow> udp_round list \<Rightarrow> auth_chain \<Rightarrow> http_request \<Rightarrow> server_event list \<times> auth_chain" where
  "connectUDPHandler cfg an us ch r =
     (case authenticateRequest (an_auth an) ch r of
        (None, ch', es) \<Rightarrow> (es, ch')
      | (Some tokenName, ch', es) \<Rightarrow>
          (es @
           (if \<not> an_accept an then [log_event LError ''websocket accept failed'' []]
            else case udp_loop us 0 0 of
                   (ls, tx, rx) \<Rightarrow>
                     Accepted # opened cfg tokenName (rq_remote r) ''udp-relay'' @ ls @
                     closed cfg tokenName ''udp-relay'' (an_duration an) tx rx @ [ClosedClient]),
           ch'))"

section \<open>The contract of a handler\<close>

text \<open>The audit events of a trace, and the calls on the statistics.\<close>

fun is_audit :: "server_event \<Rightarrow> bool" where
  "is_audit (Counted ops) = True"
| "is_audit (Logged r) = (lr_message r \<in> {''connection.open'', ''connection.close''})"
| "is_audit e = False"

definition audit_part :: "server_event list \<Rightarrow> server_event list" where
  "audit_part = filter is_audit"

fun stat_ops_of :: "server_event \<Rightarrow> stat_op list" where
  "stat_ops_of (Counted ops) = ops"
| "stat_ops_of e = []"

definition stat_ops :: "server_event list \<Rightarrow> stat_op list" where
  "stat_ops es = concat (map stat_ops_of es)"

fun record_of :: "server_event \<Rightarrow> log_record list" where
  "record_of (Logged r) = [r]"
| "record_of e = []"

definition records :: "server_event list \<Rightarrow> log_record list" where
  "records es = concat (map record_of es)"

definition bracket :: "server_config \<Rightarrow> server_event list \<Rightarrow> bool" where
  "bracket cfg es \<longleftrightarrow>
     audit_part es = [] \<or>
     (\<exists>name source target d tx rx.
        audit_part es = opened cfg name source target @ closed cfg name target d tx rx)"

lemma stat_ops_audit_part: "stat_ops (audit_part es) = stat_ops es"
proof -
  have "stat_ops_of e = []" if "\<not> is_audit e" for e using that by (cases e) auto
  then show ?thesis unfolding stat_ops_def audit_part_def by (induction es) simp_all
qed

lemma gauge_emitted_other:
  "lr_message r \<notin> {''connection.open'', ''connection.close''} \<Longrightarrow> gauge t (emitted r) = 0"
  by (cases "metric_attrs (lr_attrs r) no_fields")
    (auto simp: emitted_def metrics_handle_def gauge_def Let_def)

lemma gauge_audit_part:
  "gauge t (concat (map emitted (records (audit_part es)))) = gauge t (concat (map emitted (records es)))"
proof -
  have "gauge t (concat (map emitted (record_of e))) = 0" if "\<not> is_audit e" for e
    using that gauge_emitted_other by (cases e) auto
  then show ?thesis unfolding records_def audit_part_def by (induction es) simp_all
qed

text \<open>
  What the operator relies on: a handler opens a connection in the audit and closes it again, or
  does neither, and it only reaches out to targets that were admitted.
\<close>

locale audited_handler =
  fixes run :: "server_config \<Rightarrow> 'w \<Rightarrow> server_event list"
    and admitted :: "'w \<Rightarrow> string \<Rightarrow> bool"
  assumes run_bracket: "bracket cfg (run cfg w)"
    and run_dial: "DialTCP t ok \<in> set (run cfg w) \<Longrightarrow> admitted w t"
    and run_send: "SendUDP t p \<in> set (run cfg w) \<Longrightarrow> admitted w t"
begin

text \<open>The gauge of active connections returns to its value.\<close>

lemma run_active: "sum_list (map total_active (stat_ops (run cfg w))) = 0"
proof -
  have "sum_list (map total_active (stat_ops (audit_part (run cfg w)))) = 0"
    using run_bracket [of cfg w]
    by (auto simp: bracket_def stat_ops_def opened_def closed_def ConnectionOpened_def ConnectionClosed_def)
  then show ?thesis by (simp add: stat_ops_audit_part)
qed

lemma run_stats_active: "activeConns (stat_run (stat_ops (run cfg w)) s) = activeConns s"
  by (simp add: stat_run_sums stats_plus_def run_active)

lemma run_gauge: "gauge t (concat (map emitted (records (run cfg w)))) = 0"
proof -
  have "gauge t (concat (map emitted (records (audit_part (run cfg w))))) = 0"
    using run_bracket [of cfg w]
    by (auto simp: bracket_def records_def opened_def closed_def gauge_emitted)
  then show ?thesis by (simp add: gauge_audit_part)
qed

lemma run_unreachable: "\<forall>t. \<not> admitted w t \<Longrightarrow> DialTCP t ok \<notin> set (run cfg w) \<and> SendUDP t p \<notin> set (run cfg w)"
  using run_dial run_send by blast

end

section \<open>The handlers keep the contract\<close>

lemma is_audit_log [simp]:
  "is_audit (log_event l m as) \<longleftrightarrow> m \<in> {''connection.open'', ''connection.close''}"
  by (simp add: log_event_def)

lemma lr_message_simps [simp]:
  "lr_message (LogOpen a b c) = ''connection.open''"
  "lr_message (LogClose a b d e f) = ''connection.close''"
  "lr_message (LogAuthFailure a) = ''auth.failure''"
  by (simp_all add: LogOpen_def LogClose_def LogAuthFailure_def)

lemma audit_part_simps [simp]:
  "audit_part [] = []"
  "audit_part (e # es) = (if is_audit e then e # audit_part es else audit_part es)"
  "audit_part (as @ bs) = audit_part as @ audit_part bs"
  by (simp_all add: audit_part_def)

lemma audit_part_session [simp]:
  "audit_part (opened cfg n s t) = opened cfg n s t"
  "audit_part (closed cfg n t d x y) = closed cfg n t d x y"
  "audit_part (audited_relay cfg an n s t) =
     opened cfg n s t @ closed cfg n t (an_duration an) (fst (an_relay an)) (snd (an_relay an))"
  by (simp_all add: opened_def closed_def audited_relay_def)

lemma audit_part_auth:
  "authenticateRequest w ch r = (i, ch', es) \<Longrightarrow> audit_part es = []"
  by (cases i)
    (auto dest!: authenticateRequest_accepts(1) authenticateRequest_refuses(1))

lemma bracket_session:
  "audit_part es = opened cfg n s t @ closed cfg n t d x y \<Longrightarrow> bracket cfg es"
  unfolding bracket_def by (intro disjI2 exI) assumption

lemma bracket_simps [simp]:
  "audit_part es = [] \<Longrightarrow> bracket cfg es"
  "\<not> is_audit e \<Longrightarrow> bracket cfg (e # es) \<longleftrightarrow> bracket cfg es"
  "audit_part es = [] \<Longrightarrow> bracket cfg (es @ es') \<longleftrightarrow> bracket cfg es'"
  "audit_part es' = [] \<Longrightarrow> bracket cfg (es @ es') \<longleftrightarrow> bracket cfg es"
  unfolding bracket_def by simp_all

lemma bracket_relay [simp]: "bracket cfg (audited_relay cfg an n s t)"
  by (rule bracket_session) (rule audit_part_session)

lemma bracket_loop [simp]:
  "audit_part ls = [] \<Longrightarrow> audit_part es = [] \<Longrightarrow>
   bracket cfg (opened cfg n s t @ ls @ closed cfg n t d x y @ es)"
  by (rule bracket_session) simp

lemma no_dial_log [simp]:
  "DialTCP t ok \<noteq> log_event l m as" "SendUDP t p \<noteq> log_event l m as"
  "DialTCP t ok \<notin> set (audited_relay cfg an n s u)" "SendUDP t p \<notin> set (audited_relay cfg an n s u)"
  "DialTCP t ok \<notin> set (opened cfg n s u)" "SendUDP t p \<notin> set (opened cfg n s u)"
  "DialTCP t ok \<notin> set (closed cfg n u d x y)" "SendUDP t p \<notin> set (closed cfg n u d x y)"
  by (auto simp: log_event_def audited_relay_def opened_def closed_def)

lemma no_dial_auth:
  assumes "authenticateRequest w ch r = (i, ch', es)"
  shows "DialTCP t ok \<notin> set es" "SendUDP t p \<notin> set es"
  using assms by (cases i; fastforce dest: authenticateRequest_accepts(1) authenticateRequest_refuses(1))+

text \<open>A request is let in when \<open>authenticateRequest\<close> returns an identity.\<close>

definition let_in :: "answers \<Rightarrow> auth_chain \<Rightarrow> http_request \<Rightarrow> bool" where
  "let_in an ch r \<longleftrightarrow> fst (authenticateRequest (an_auth an) ch r) \<noteq> None"

definition admitted_tcp :: "answers \<times> auth_chain \<times> http_request \<Rightarrow> string \<Rightarrow> bool" where
  "admitted_tcp = (\<lambda>(an, ch, r) t. let_in an ch r \<and> validateTarget (an_lookup an) t = None)"

definition run_connect :: "server_config \<Rightarrow> answers \<times> auth_chain \<times> http_request \<Rightarrow> server_event list" where
  "run_connect cfg = (\<lambda>(an, ch, r). fst (connectHandler cfg an ch r))"

definition run_http :: "server_config \<Rightarrow> answers \<times> auth_chain \<times> http_request \<Rightarrow> server_event list" where
  "run_http cfg = (\<lambda>(an, ch, r). fst (connectHTTPHandler cfg an ch r))"

definition run_udp ::
    "server_config \<Rightarrow> udp_round list \<times> answers \<times> auth_chain \<times> http_request \<Rightarrow> server_event list" where
  "run_udp cfg = (\<lambda>(us, an, ch, r). fst (connectUDPHandler cfg an us ch r))"

definition admitted_udp :: "udp_round list \<times> answers \<times> auth_chain \<times> http_request \<Rightarrow> string \<Rightarrow> bool" where
  "admitted_udp =
     (\<lambda>(us, an, ch, r) t. let_in an ch r \<and> (\<exists>u \<in> set us. validateTarget (ur_lookup u) t = None))"

definition run_stream :: "server_config \<Rightarrow> answers \<times> string \<times> string \<times> string \<Rightarrow> server_event list" where
  "run_stream cfg = (\<lambda>(an, n, s, t). handleMuxConnect cfg an n s t)"

definition admitted_stream :: "answers \<times> string \<times> string \<times> string \<Rightarrow> string \<Rightarrow> bool" where
  "admitted_stream = (\<lambda>(an, n, s, t) t'. t' = t \<and> validateTarget (an_lookup an) t = None)"

lemma connectHandler_bracket: "bracket cfg (fst (connectHandler cfg an ch r))"
proof -
  obtain i ch' es where a: "authenticateRequest (an_auth an) ch r = (i, ch', es)" by (metis prod_cases3)
  then show ?thesis
    by (cases i) (simp_all add: connectHandler_def Let_def audit_part_auth [OF a] split: option.split)
qed

lemma connectHandler_dial:
  "DialTCP t ok \<in> set (fst (connectHandler cfg an ch r)) \<Longrightarrow>
     let_in an ch r \<and> validateTarget (an_lookup an) t = None"
  by (auto simp: connectHandler_def let_in_def Let_def no_dial_auth
      split: prod.splits option.splits if_splits)

lemma connectHandler_send: "SendUDP t p \<notin> set (fst (connectHandler cfg an ch r))"
  by (auto simp: connectHandler_def Let_def no_dial_auth split: prod.splits option.splits)

interpretation ws_handler: audited_handler run_connect admitted_tcp
  by unfold_locales
    (auto simp: run_connect_def admitted_tcp_def connectHandler_bracket connectHandler_send
      dest: connectHandler_dial)

lemma connectHTTPHandler_bracket: "bracket cfg (fst (connectHTTPHandler cfg an ch r))"
proof -
  obtain i ch' es where a: "authenticateRequest (an_auth an) ch r = (i, ch', es)" by (metis prod_cases3)
  then show ?thesis
    by (cases i) (simp_all add: connectHTTPHandler_def Let_def audit_part_auth [OF a] split: option.split)
qed

lemma connectHTTPHandler_dial:
  "DialTCP t ok \<in> set (fst (connectHTTPHandler cfg an ch r)) \<Longrightarrow>
     let_in an ch r \<and> validateTarget (an_lookup an) t = None"
  by (auto simp: connectHTTPHandler_def let_in_def Let_def no_dial_auth
      split: prod.splits option.splits if_splits)

lemma connectHTTPHandler_send: "SendUDP t p \<notin> set (fst (connectHTTPHandler cfg an ch r))"
  by (auto simp: connectHTTPHandler_def Let_def no_dial_auth split: prod.splits option.splits)

interpretation http_handler: audited_handler run_http admitted_tcp
  by unfold_locales
    (auto simp: run_http_def admitted_tcp_def connectHTTPHandler_bracket connectHTTPHandler_send
      dest: connectHTTPHandler_dial)

interpretation stream_handler: audited_handler run_stream admitted_stream
proof unfold_locales
  show "bracket cfg (run_stream cfg w)" for cfg w
    by (cases w) (simp add: run_stream_def handleMuxConnect_def split: option.split)
qed (auto simp: run_stream_def admitted_stream_def handleMuxConnect_def split: prod.splits option.splits if_splits)

section \<open>The datagram loop\<close>

fun sent_bytes :: "server_event \<Rightarrow> nat" where
  "sent_bytes (SendUDP t p) = length p"
| "sent_bytes e = 0"

text \<open>What one message does: its events, the bytes it adds to the totals, whether the loop goes on.\<close>

definition udp_step :: "udp_round \<Rightarrow> server_event list \<times> nat \<times> nat \<times> bool" where
  "udp_step u =
     (case parseUDPFrame (ur_msg u) of
        Ok (target, payload) \<Rightarrow>
          (case validateTarget (ur_lookup u) target of
             Some e \<Rightarrow> ([log_event LWarn ''udp target blocked'' [(''target'', AStr target)]], 0, 0, True)
           | None \<Rightarrow>
               if \<not> ur_resolve u \<or> \<not> ur_dial u \<or> \<not> ur_write u then ([], 0, 0, True)
               else case ur_reply u of
                      None \<Rightarrow> ([SendUDP target payload], length payload, 0, True)
                    | Some d \<Rightarrow>
                        ([SendUDP target payload, SendFrame (buildUDPFrame target (take 65535 d))],
                         length payload, length (take 65535 d), ur_ws_write u))
      | _ \<Rightarrow> ([log_event LError ''invalid udp frame'' []], 0, 0, True))"

lemma udp_loop_step:
  "udp_loop (u # us) tx rx =
     (case udp_step u of (es, n, m, go) \<Rightarrow>
        if go then (case udp_loop us (tx + of_nat n) (rx + of_nat m) of (es', r) \<Rightarrow> (es @ es', r))
        else (es, tx + of_nat n, rx + of_nat m))"
  by (auto simp: udp_step_def Let_def split: outcome.split option.split prod.split)

lemma udp_step_silent: "udp_step u = (es, n, m, go) \<Longrightarrow> audit_part es = []"
  by (auto simp: udp_step_def split: outcome.splits option.splits prod.splits if_splits)

lemma udp_step_sent: "udp_step u = (es, n, m, go) \<Longrightarrow> sum_list (map sent_bytes es) = n"
  by (auto simp: udp_step_def log_event_def split: outcome.splits option.splits prod.splits if_splits)

lemma udp_step_admitted:
  "udp_step u = (es, n, m, go) \<Longrightarrow> SendUDP t p \<in> set es \<Longrightarrow>
   parseUDPFrame (ur_msg u) = Ok (t, p) \<and> validateTarget (ur_lookup u) t = None"
  by (auto simp: udp_step_def log_event_def split: outcome.splits option.splits prod.splits if_splits)

lemma udp_step_no_dial: "udp_step u = (es, n, m, go) \<Longrightarrow> DialTCP t ok \<notin> set es"
  by (auto simp: udp_step_def log_event_def split: outcome.splits option.splits prod.splits if_splits)

lemma udp_step_reply:
  "udp_step u = (es, n, m, go) \<Longrightarrow> SendFrame f \<in> set es \<Longrightarrow>
   \<exists>t p d. parseUDPFrame (ur_msg u) = Ok (t, p) \<and> ur_reply u = Some d \<and> f = buildUDPFrame t (take 65535 d)"
  by (auto simp: udp_step_def log_event_def split: outcome.splits option.splits prod.splits if_splits)

declare udp_loop.simps(2) [simp del]

lemma udp_loop_silent: "udp_loop us tx rx = (es, r) \<Longrightarrow> audit_part es = []"
  by (induction us arbitrary: tx rx es)
    (auto simp: udp_loop_step dest: udp_step_silent split: prod.splits if_splits)

lemma udp_loop_totals:
  "udp_loop us tx rx = (es, tx', rx') \<Longrightarrow> tx' = tx + of_nat (sum_list (map sent_bytes es))"
proof (induction us arbitrary: tx rx es)
  case (Cons u us)
  obtain es1 n m go where u: "udp_step u = (es1, n, m, go)" by (metis prod_cases4)
  show ?case
  proof (cases go)
    case True
    with Cons.prems u obtain es2 where l: "udp_loop us (tx + of_nat n) (rx + of_nat m) = (es2, tx', rx')"
      and "es = es1 @ es2"
      by (auto simp: udp_loop_step split: prod.splits)
    then show ?thesis using Cons.IH [OF l] udp_step_sent [OF u] by simp
  qed (use Cons.prems u udp_step_sent [OF u] in \<open>auto simp: udp_loop_step\<close>)
qed simp

lemma udp_loop_event:
  assumes "udp_loop us tx rx = (es, r)" and "e \<in> set es"
  shows "\<exists>u \<in> set us. \<exists>es' n m go. udp_step u = (es', n, m, go) \<and> e \<in> set es'"
  using assms
proof (induction us arbitrary: tx rx es)
  case (Cons u us)
  obtain es1 n m go where u: "udp_step u = (es1, n, m, go)" by (metis prod_cases4)
  show ?case
  proof (cases "e \<in> set es1")
    case True
    with u show ?thesis by auto
  next
    case False
    with Cons.prems u obtain es2 where "udp_loop us (tx + of_nat n) (rx + of_nat m) = (es2, r)" "e \<in> set es2"
      by (auto simp: udp_loop_step split: prod.splits if_splits)
    from Cons.IH [OF this] show ?thesis by auto
  qed
qed simp

lemma udp_loop_admitted:
  "udp_loop us tx rx = (es, r) \<Longrightarrow> SendUDP t p \<in> set es \<Longrightarrow>
   \<exists>u \<in> set us. parseUDPFrame (ur_msg u) = Ok (t, p) \<and> validateTarget (ur_lookup u) t = None"
  by (meson udp_loop_event udp_step_admitted)

lemma udp_loop_no_dial: "udp_loop us tx rx = (es, r) \<Longrightarrow> DialTCP t ok \<notin> set es"
  by (meson udp_loop_event udp_step_no_dial)

lemma udp_loop_reply:
  "udp_loop us tx rx = (es, r) \<Longrightarrow> SendFrame f \<in> set es \<Longrightarrow>
   \<exists>u \<in> set us. \<exists>t p d. parseUDPFrame (ur_msg u) = Ok (t, p) \<and> ur_reply u = Some d \<and>
     f = buildUDPFrame t (take 65535 d)"
  by (meson udp_loop_event udp_step_reply)

lemma connectUDPHandler_bracket: "bracket cfg (fst (connectUDPHandler cfg an us ch r))"
proof -
  obtain i ch' es where a: "authenticateRequest (an_auth an) ch r = (i, ch', es)" by (metis prod_cases3)
  obtain ls tx rx where l: "udp_loop us 0 0 = (ls, tx, rx)" by (metis prod_cases3)
  show ?thesis
    using a l by (cases i) (simp_all add: connectUDPHandler_def audit_part_auth [OF a] udp_loop_silent [OF l])
qed

lemma connectUDPHandler_dial: "DialTCP t ok \<notin> set (fst (connectUDPHandler cfg an us ch r))"
  by (auto simp: connectUDPHandler_def no_dial_auth dest: udp_loop_no_dial [OF sym] split: prod.splits option.splits)

lemma connectUDPHandler_send:
  "SendUDP t p \<in> set (fst (connectUDPHandler cfg an us ch r)) \<Longrightarrow> admitted_udp (us, an, ch, r) t"
  by (auto simp: connectUDPHandler_def admitted_udp_def let_in_def no_dial_auth dest: udp_loop_admitted
      split: prod.splits option.splits if_splits)

interpretation udp_handler: audited_handler run_udp admitted_udp
proof unfold_locales
  show "bracket cfg (run_udp cfg w)" for cfg w
    by (cases w) (simp add: run_udp_def connectUDPHandler_bracket)
  show "DialTCP t ok \<in> set (run_udp cfg w) \<Longrightarrow> admitted_udp w t" for t ok cfg w
    by (cases w) (simp add: run_udp_def connectUDPHandler_dial)
  show "SendUDP t p \<in> set (run_udp cfg w) \<Longrightarrow> admitted_udp w t" for t p cfg w
    by (cases w) (simp add: run_udp_def connectUDPHandler_send)
qed

section \<open>Properties\<close>

definition demo_cfg :: server_config where
  "demo_cfg =
     \<lparr>sc_addr = '':8080'', sc_stats = True, sc_modes = [''socks5''], sc_tls_cert = [], sc_tls_key = [],
      sc_tls_auto = False, sc_tls_domain = [], sc_tls_ca = [], sc_reverse = False, sc_fingerprint = ''fp''\<rparr>"

definition demo_answers :: answers where
  "demo_answers =
     \<lparr>an_auth = (demo_lib, demo_get), an_lookup = (\<lambda>_. None), an_accept = True, an_dial = True,
      an_hijacker = True, an_hijack = True, an_relay = (100, 7), an_duration = 5000000\<rparr>"

lemma demo_target:
  "values_get ''target'' (parse_query (rq_raw_query demo_request)) = ''10.0.0.1:22''"
  "validateTarget (\<lambda>_. None) ''10.0.0.1:22'' = None"
proof -
  have "parse_query ''target=10.0.0.1%3A22'' = [(''target'', [''10.0.0.1:22''])]" by code_simp
  then show "values_get ''target'' (parse_query (rq_raw_query demo_request)) = ''10.0.0.1:22''"
    by (simp add: demo_request_def values_get_def)
  show "validateTarget (\<lambda>_. None) ''10.0.0.1:22'' = None" by code_simp
qed

lemma demo_connect:
  "fst (connectHandler demo_cfg demo_answers (Some demo_chain) demo_request) =
     Accepted # DialTCP ''10.0.0.1:22'' True #
     audited_relay demo_cfg demo_answers ''anonymous'' ''192.0.2.7:5000'' ''10.0.0.1:22''"
  unfolding connectHandler_def
  by (simp add: demo_authenticated demo_answers_def demo_target Let_def) (simp add: demo_request_def)

text \<open>C5: A request without a client certificate whose bearer token no authenticator of a chain accepts, or
  that carries none, has no effect but an audit record and the status 401, on each of the three
  endpoints.\<close>

theorem unauthorized_has_no_effect:
  assumes "chain_active ch" and "MTLSIdentity (rq_tls r) = []"
    and "\<forall>as b. ch = Some as \<longrightarrow> rq_authorization r = ''Bearer '' @ b \<longrightarrow>
           (\<forall>a. a \<in> set as \<longrightarrow> fst (method_Authenticate (an_auth an) b a) = None)"
  shows "\<exists>msg. \<forall>es. es \<in> {fst (connectHandler cfg an ch r), fst (connectUDPHandler cfg an us ch r),
             fst (connectHTTPHandler cfg an ch (r\<lparr>rq_method := ''CONNECT''\<rparr>))} \<longrightarrow>
           es = [Logged (LogAuthFailure (rq_remote r)), Respond 401 msg]"
proof -
  obtain as where as: "ch = Some as" "Enabled as"
    using assms(1) by (auto simp: chain_active_def split: option.splits)
  obtain i ch' es where a: "authenticateRequest (an_auth an) ch r = (i, ch', es)" by (metis prod_cases3)
  have "i = None"
  proof (cases i)
    case (Some j)
    from authenticateRequest_accepts(2) [OF a [unfolded Some]] assms(1,2) obtain as' b where
      b: "ch = Some as'" "rq_authorization r = ''Bearer '' @ b" "chain_Authenticate (an_auth an) b as' = (Some j, the ch')"
      by auto
    then have "fst (chain_Authenticate (an_auth an) b as') = Some j" by simp
    then obtain p where "p \<in> set as'" "fst (method_Authenticate (an_auth an) b p) = Some j"
      using chain_accepts_mem by blast
    then have False using assms(3) b(1,2) by auto
    then show ?thesis ..
  qed
  with a authenticateRequest_refuses(1) obtain msg where "es = [Logged (LogAuthFailure (rq_remote r)), Respond 401 msg]"
    by blast
  moreover have "authenticateRequest w c (r\<lparr>rq_method := m\<rparr>) = authenticateRequest w c r" for w c m
    by (simp add: authenticateRequest_def Let_def split: option.split prod.split)
  ultimately show ?thesis
    using a \<open>i = None\<close> by (intro exI [of _ msg]) (simp add: connectHandler_def connectUDPHandler_def connectHTTPHandler_def)
qed

lemma unauthorized_has_no_effect_witness:
  "\<exists>msg. fst (connectHandler demo_cfg demo_answers (Some demo_chain) (demo_request\<lparr>rq_authorization := ''Basic x''\<rparr>)) =
     [Logged (LogAuthFailure ''192.0.2.7:5000''), Respond 401 msg]"
proof -
  let ?r = "demo_request\<lparr>rq_authorization := ''Basic x''\<rparr>"
  have "chain_active (Some demo_chain)" by (simp add: chain_active_def Enabled_def demo_chain_def)
  moreover have "MTLSIdentity (rq_tls ?r) = []" by (simp add: demo_request_def)
  moreover have "rq_authorization ?r \<noteq> ''Bearer '' @ b" for b by simp
  ultimately have "\<exists>msg. fst (connectHandler demo_cfg demo_answers (Some demo_chain) ?r) =
      [Logged (LogAuthFailure (rq_remote ?r)), Respond 401 msg]"
    using unauthorized_has_no_effect [of "Some demo_chain" ?r demo_answers demo_cfg "[]"] by blast
  then show ?thesis by (simp add: demo_request_def)
qed

text \<open>With a CA file but no authenticator - the documented mTLS setup - a client that presents no
  certificate is served like any other: the target is dialed and relayed, under an empty name.\<close>

lemma mtls_only_is_open:
  assumes "rq_tls r = Some []" and "values_get ''target'' (parse_query (rq_raw_query r)) = t" and "t \<noteq> []"
    and "validateTarget (an_lookup an) t = None" and "an_accept an" and "an_dial an"
  shows "fst (connectHandler (cfg\<lparr>sc_tls_ca := ca\<rparr>) an None r) =
    Accepted # DialTCP t True # audited_relay (cfg\<lparr>sc_tls_ca := ca\<rparr>) an [] (rq_remote r) t"
  using assms by (simp add: connectHandler_def authenticateRequest_def Let_def)

text \<open>C35: The datagram loop keeps its books: the total of bytes sent is the sum of the payloads that it handed
  to the network (modulo 2^64), each datagram is the target and payload of a frame of the client whose
  target was admitted, and each frame it returns is a reply built for the target of such a frame.\<close>

theorem udp_loop_books:
  assumes "udp_loop us 0 0 = (es, tx, rx)"
  shows "tx = of_nat (sum_list (map sent_bytes es)) \<and>
    (\<forall>t p. SendUDP t p \<in> set es \<longrightarrow>
       (\<exists>u. u \<in> set us \<and> parseUDPFrame (ur_msg u) = Ok (t, p) \<and> validateTarget (ur_lookup u) t = None)) \<and>
    (\<forall>f. SendFrame f \<in> set es \<longrightarrow>
       (\<exists>u t p d. u \<in> set us \<and> parseUDPFrame (ur_msg u) = Ok (t, p) \<and> ur_reply u = Some d \<and>
          f = buildUDPFrame t (take 65535 d)))"
proof (intro conjI allI impI)
  show "tx = of_nat (sum_list (map sent_bytes es))" using udp_loop_totals [OF assms] by simp
qed (use udp_loop_admitted [OF assms] udp_loop_reply [OF assms] in blast)+

definition demo_round :: udp_round where
  "demo_round =
     \<lparr>ur_msg = [0, 0, 0, 1, 8, 8, 8, 8, 0, 53, 42], ur_lookup = (\<lambda>_. None), ur_resolve = True, ur_dial = True,
      ur_write = True, ur_reply = None, ur_ws_write = True\<rparr>"

lemma demo_udp_loop: "udp_loop [demo_round] 0 0 = ([SendUDP ''8.8.8.8:53'' [42]], 1, 0)"
proof -
  have "parseUDPFrame [0, 0, 0, 1, 8, 8, 8, 8, 0, 53, 42] = Ok (''8.8.8.8:53'', [42])" by code_simp
  moreover have "validateTarget (\<lambda>_. None) ''8.8.8.8:53'' = None" by code_simp
  ultimately show ?thesis by (simp add: udp_loop_step udp_step_def demo_round_def)
qed

lemma udp_loop_books_witness:
  "udp_loop [demo_round] 0 0 = ([SendUDP ''8.8.8.8:53'' [42]], 1, 0) \<and>
   (1 :: 64 word) = of_nat (sum_list (map sent_bytes [SendUDP ''8.8.8.8:53'' [42]]))"
  using udp_loop_books [OF demo_udp_loop] demo_udp_loop by simp

end
