(* ===== verification/Server_Mux.thy ===== *)
theory Server_Mux
  imports Server_Handlers
begin

text \<open>
  The multiplexed session of \<open>internal/server/server.go\<close>: \<open>muxHandler\<close> with its accept loop,
  \<open>handleReverseBind\<close> and \<open>handleReverseConn\<close>. The session runs concurrently with the goroutines
  that it starts, so it is a step relation: the accept loop takes a stream, a started goroutine
  serves its stream, a reverse listener accepts a connection, fails, or the session is lost. The
  trace of a served connection is appended as a whole; the statistics do not depend on how the
  traces interleave (\<open>stat_run_mset\<close>).
\<close>

section \<open>Reverse connections\<close>

text \<open>\<open>addr\<close> is the listener's address as \<open>ln.Addr()\<close> prints it, if listening succeeds.\<close>

definition handleReverseBind :: "string option \<Rightarrow> string \<Rightarrow> string \<Rightarrow> server_event list option" where
  "handleReverseBind addr tokenName bindAddr =
     (case addr of
        None \<Rightarrow> None
      | Some a \<Rightarrow>
          Some [log_event LInfo ''reverse listener started'' [(''bind'', AStr a), (''identity'', AStr tokenName)]])"

text \<open>
  The stream that \<open>session.Open\<close> returns is the list of bytes written to it. \<open>opens\<close> and \<open>writes\<close> say
  whether opening and writing succeed, \<open>source\<close> is the address of the peer.
\<close>

definition handleReverseConn ::
    "server_config \<Rightarrow> answers \<Rightarrow> bool \<Rightarrow> bool \<Rightarrow> string \<Rightarrow> string \<Rightarrow> string \<Rightarrow> server_event list \<times> bytes option" where
  "handleReverseConn cfg an opens writes source tokenName bindAddr =
     (if \<not> opens then ([log_event LError ''open reverse stream failed'' [], ClosedTarget], None)
      else case WriteHeader (stream_write writes) CmdReverseConn bindAddr [] of
             (Some e, _) \<Rightarrow>
               ([log_event LError ''write reverse header failed'' [], ClosedClient, ClosedTarget], None)
           | (None, written) \<Rightarrow>
               (audited_relay cfg an tokenName source (''reverse:'' @ bindAddr), Some written))"

section \<open>The session\<close>

record reverse_listener =
  rl_bind :: string
  rl_open :: bool

record mux_state =
  ms_alive :: bool \<comment> \<open>the session is not closed\<close>
  ms_loop :: bool \<comment> \<open>the accept loop runs\<close>
  ms_started :: "string list" \<comment> \<open>targets of the goroutines that have not run yet\<close>
  ms_listeners :: "reverse_listener list"
  ms_sent :: "bytes list" \<comment> \<open>the headers on the streams that the server opened\<close>
  ms_events :: "server_event list"
  ms_runs :: "(answers \<times> string) list"
    \<comment> \<open>the runs of \<open>handleMuxConnect\<close> so far: what its resolver and the network answer, and its target\<close>

definition mux_init :: mux_state where
  "mux_init = \<lparr>ms_alive = True, ms_loop = True, ms_started = [], ms_listeners = [], ms_sent = [], ms_events = [], ms_runs = []\<rparr>"

definition emit :: "server_event list \<Rightarrow> mux_state \<Rightarrow> mux_state" where
  "emit es s = s\<lparr>ms_events := ms_events s @ es\<rparr>"

text \<open>One round of the accept loop on a stream that holds the bytes \<open>bs\<close>.\<close>

definition mux_accept :: "server_config \<Rightarrow> string \<Rightarrow> string option \<Rightarrow> bytes \<Rightarrow> mux_state \<Rightarrow> mux_state" where
  "mux_accept cfg tokenName laddr bs s =
     (case fst (ReadHeader bs) of
        Ok (cmd, addr) \<Rightarrow>
          if cmd = CmdConnect then s\<lparr>ms_started := ms_started s @ [addr]\<rparr>
          else if cmd = CmdReverseBind then
            (if \<not> sc_reverse cfg
             then emit [log_event LWarn ''reverse tunneling not enabled, rejecting'' [], ClosedClient] s
             else case handleReverseBind laddr tokenName addr of
                    None \<Rightarrow> emit [log_event LError ''reverse bind failed'' [(''addr'', AStr addr)], ClosedClient] s
                  | Some es \<Rightarrow>
                      emit es (s\<lparr>ms_listeners := ms_listeners s @ [\<lparr>rl_bind = addr, rl_open = True\<rparr>]\<rparr>))
          else emit [log_event LError ''unknown stream command'' [(''cmd'', AInt (uint cmd))], ClosedClient] s
      | _ \<Rightarrow> emit [log_event LError ''invalid stream header'' [], ClosedClient] s)"

definition close_listener :: "nat \<Rightarrow> mux_state \<Rightarrow> mux_state" where
  "close_listener i s = s\<lparr>ms_listeners := (ms_listeners s)[i := (ms_listeners s ! i)\<lparr>rl_open := False\<rparr>]\<rparr>"

text \<open>The deferred calls when the loop ends: every listener is closed, then the session.\<close>

definition mux_finish :: "mux_state \<Rightarrow> mux_state" where
  "mux_finish s =
     s\<lparr>ms_loop := False, ms_alive := False,
       ms_listeners := map (\<lambda>l. l\<lparr>rl_open := False\<rparr>) (ms_listeners s)\<rparr>"

text \<open>The steps that need no stream of the client, and all steps.\<close>

inductive mux_own :: "server_config \<Rightarrow> string \<Rightarrow> string \<Rightarrow> mux_state \<Rightarrow> mux_state \<Rightarrow> bool"
  for cfg :: server_config and tokenName :: string and remote :: string where
  serve_stream:
    "i < length (ms_started s) \<Longrightarrow>
     mux_own cfg tokenName remote s
       (emit (handleMuxConnect cfg an tokenName remote (ms_started s ! i))
          (s\<lparr>ms_started := take i (ms_started s) @ drop (Suc i) (ms_started s),
             ms_runs := ms_runs s @ [(an, ms_started s ! i)]\<rparr>))"
| reverse_conn:
    "i < length (ms_listeners s) \<Longrightarrow> rl_open (ms_listeners s ! i) \<Longrightarrow> (opens \<Longrightarrow> ms_alive s) \<Longrightarrow>
     handleReverseConn cfg an opens writes source tokenName (rl_bind (ms_listeners s ! i)) = (es, hdr) \<Longrightarrow>
     mux_own cfg tokenName remote s
       (emit es (s\<lparr>ms_sent := ms_sent s @ (case hdr of None \<Rightarrow> [] | Some h \<Rightarrow> [h])\<rparr>))"
| listener_fails:
    "i < length (ms_listeners s) \<Longrightarrow> mux_own cfg tokenName remote s (close_listener i s)"
| session_lost:
    "mux_own cfg tokenName remote s (s\<lparr>ms_alive := False\<rparr>)"
| loop_ends:
    "ms_loop s \<Longrightarrow> \<not> ms_alive s \<Longrightarrow> mux_own cfg tokenName remote s (mux_finish s)"

inductive mux_step :: "server_config \<Rightarrow> string \<Rightarrow> string \<Rightarrow> mux_state \<Rightarrow> mux_state \<Rightarrow> bool"
  for cfg :: server_config and tokenName :: string and remote :: string where
  take_stream:
    "ms_loop s \<Longrightarrow> ms_alive s \<Longrightarrow> mux_step cfg tokenName remote s (mux_accept cfg tokenName laddr bs s)"
| own: "mux_own cfg tokenName remote s t \<Longrightarrow> mux_step cfg tokenName remote s t"

inductive_cases mux_stepE: "mux_step cfg tokenName remote s t"

inductive mux_reach :: "server_config \<Rightarrow> string \<Rightarrow> string \<Rightarrow> mux_state \<Rightarrow> bool"
  for cfg :: server_config and tokenName :: string and remote :: string where
  init: "mux_reach cfg tokenName remote mux_init"
| step: "mux_reach cfg tokenName remote s \<Longrightarrow> mux_step cfg tokenName remote s t \<Longrightarrow> mux_reach cfg tokenName remote t"

text \<open>
  \<open>muxHandler\<close> up to the loop: the events, the chain, and the identity of the session when one is
  established. \<open>yamux\<close> says whether the library accepts the connection.
\<close>

definition muxHandler ::
    "answers \<Rightarrow> bool \<Rightarrow> auth_chain \<Rightarrow> http_request \<Rightarrow> server_event list \<times> auth_chain \<times> string option" where
  "muxHandler an yamux ch r =
     (case authenticateRequest (an_auth an) ch r of
        (None, ch', es) \<Rightarrow> (es, ch', None)
      | (Some tokenName, ch', es) \<Rightarrow>
          if \<not> an_accept an then (es @ [log_event LError ''websocket accept failed'' []], ch', None)
          else if \<not> yamux
          then (es @ [Accepted, log_event LError ''yamux session failed'' [], ClosedClient], ch', None)
          else (es @ [Accepted, log_event LInfo ''mux session established''
                        [(''identity'', AStr tokenName), (''remote'', AStr (rq_remote r))]],
                ch', Some tokenName))"

section \<open>The invariant\<close>

text \<open>
  The dials of a trace, and the dials that runs of \<open>handleMuxConnect\<close> may make: one for each run whose
  own resolver lets the target through \<open>validateTarget\<close>.
\<close>

definition dials_made :: "server_event list \<Rightarrow> (string \<times> bool) list" where
  "dials_made es = concat (map (\<lambda>e. case e of DialTCP t ok \<Rightarrow> [(t, ok)] | _ \<Rightarrow> []) es)"

definition checked_dials :: "(answers \<times> string) list \<Rightarrow> (string \<times> bool) list" where
  "checked_dials runs =
     concat (map (\<lambda>(an, t). if validateTarget (an_lookup an) t = None then [(t, an_dial an)] else []) runs)"

lemma dials_simps [simp]:
  "dials_made [] = []" "dials_made (DialTCP t ok # es) = (t, ok) # dials_made es" "dials_made (ds @ es) = dials_made ds @ dials_made es"
  "dials_made (log_event l m as # es) = dials_made es" "dials_made (ClosedClient # es) = dials_made es"
  "dials_made (ClosedTarget # es) = dials_made es" "dials_made (audited_relay cfg an n src tgt) = []"
  by (simp_all add: dials_made_def log_event_def audited_relay_def opened_def closed_def)

lemma set_dials: "(t, ok) \<in> set (dials_made es) \<longleftrightarrow> DialTCP t ok \<in> set es"
  by (auto simp: dials_made_def split: server_event.splits)

lemma handleMuxConnect_checked: "dials_made (handleMuxConnect cfg an n r t) = checked_dials [(an, t)]"
  by (simp add: handleMuxConnect_def checked_dials_def split: option.split)

lemma checked_dials_append [simp]: "checked_dials (as @ bs) = checked_dials as @ checked_dials bs"
  by (simp add: checked_dials_def)

definition mux_inv :: "server_config \<Rightarrow> mux_state \<Rightarrow> bool" where
  "mux_inv cfg s \<longleftrightarrow>
     (ms_listeners s \<noteq> [] \<longrightarrow> sc_reverse cfg) \<and>
     (\<not> ms_loop s \<longrightarrow> (\<forall>l \<in> set (ms_listeners s). \<not> rl_open l)) \<and>
     (\<forall>h \<in> set (ms_sent s). \<exists>l \<in> set (ms_listeners s). h = header_bytes CmdReverseConn (rl_bind l)) \<and>
     dials_made (ms_events s) = checked_dials (ms_runs s) \<and>
     sum_list (map total_active (stat_ops (ms_events s))) = 0"

lemma handleReverseConn_events:
  "handleReverseConn cfg an opens writes source n b = (es, hdr) \<Longrightarrow>
     bracket cfg es \<and> dials_made es = [] \<and> DialTCP t ok \<notin> set es \<and> SendUDP t p \<notin> set es \<and>
     (\<forall>h. hdr = Some h \<longrightarrow> h = header_bytes CmdReverseConn b)"
  by (cases writes) (auto simp: handleReverseConn_def split: if_splits)

definition run_reverse ::
    "server_config \<Rightarrow> answers \<times> bool \<times> bool \<times> string \<times> string \<times> string \<Rightarrow> server_event list" where
  "run_reverse cfg = (\<lambda>(an, opens, writes, source, n, b). fst (handleReverseConn cfg an opens writes source n b))"

interpretation reverse_handler: audited_handler run_reverse "\<lambda>w t. False"
proof unfold_locales
  fix cfg :: server_config and w :: "answers \<times> bool \<times> bool \<times> string \<times> string \<times> string"
    and t p ok
  obtain an opens writes source n b where w: "w = (an, opens, writes, source, n, b)" by (metis prod_cases6)
  obtain es h where h: "handleReverseConn cfg an opens writes source n b = (es, h)" by fastforce
  then have r: "run_reverse cfg w = es" by (simp add: w run_reverse_def)
  note facts = handleReverseConn_events [OF h]
  show "bracket cfg (run_reverse cfg w)" using facts r by simp
  show "False" if "DialTCP t ok \<in> set (run_reverse cfg w)" using facts [of t ok] r that by simp
  show "False" if "SendUDP t p \<in> set (run_reverse cfg w)" using facts [where t = t and p = p] r that by simp
qed

lemma bracket_active: "bracket cfg es \<Longrightarrow> sum_list (map total_active (stat_ops es)) = 0"
  unfolding stat_ops_audit_part [symmetric, of es]
  by (auto simp: bracket_def stat_ops_def opened_def closed_def ConnectionOpened_def ConnectionClosed_def)

lemma stat_ops_append [simp]: "stat_ops (as @ bs) = stat_ops as @ stat_ops bs"
  by (simp add: stat_ops_def)

lemma stat_ops_logs [simp]: "stat_ops [] = []" "stat_ops (log_event l m as # es) = stat_ops es"
  "stat_ops (ClosedClient # es) = stat_ops es"
  by (simp_all add: stat_ops_def log_event_def)

lemma mux_inv_init: "mux_inv cfg mux_init"
  by (simp add: mux_inv_def mux_init_def checked_dials_def)

lemma mux_accept_inv:
  assumes "mux_inv cfg s" and "ms_loop s"
  shows "mux_inv cfg (mux_accept cfg n laddr bs s)"
  using assms
  by (auto simp: mux_accept_def emit_def handleReverseBind_def mux_inv_def split: outcome.splits option.splits)

lemma mux_emit_inv:
  assumes "mux_inv cfg s" and "bracket cfg es" and "dials_made es = checked_dials runs"
  shows "mux_inv cfg (emit es (s\<lparr>ms_runs := ms_runs s @ runs\<rparr>))"
  using assms bracket_active [OF assms(2)] unfolding mux_inv_def emit_def by auto

lemma close_listener_inv: "mux_inv cfg s \<Longrightarrow> i < length (ms_listeners s) \<Longrightarrow> mux_inv cfg (close_listener i s)"
proof -
  assume inv: "mux_inv cfg s" and i: "i < length (ms_listeners s)"
  let ?ls = "(ms_listeners s)[i := (ms_listeners s ! i)\<lparr>rl_open := False\<rparr>]"
  have binds: "rl_bind ` set ?ls = rl_bind ` set (ms_listeners s)"
  proof -
    have "map rl_bind ?ls = map rl_bind (ms_listeners s)"
      using i by (simp add: map_update) (metis list_update_id nth_map)
    then show ?thesis by (metis list.set_map)
  qed
  have "\<exists>l \<in> set ?ls. h = header_bytes CmdReverseConn (rl_bind l)" if "h \<in> set (ms_sent s)" for h
  proof -
    from inv that obtain l where "l \<in> set (ms_listeners s)" "h = header_bytes CmdReverseConn (rl_bind l)"
      unfolding mux_inv_def by blast
    then show ?thesis using binds by (metis (no_types, lifting) imageE imageI)
  qed
  then show ?thesis
    using inv i set_update_subset_insert [of "ms_listeners s" i]
    unfolding mux_inv_def close_listener_def by fastforce
qed

lemma mux_own_inv:
  assumes "mux_own cfg n r s t" and "mux_inv cfg s"
  shows "mux_inv cfg t"
  using assms
proof (induction rule: mux_own.induct)
  case (serve_stream i s an)
  let ?s = "s\<lparr>ms_started := take i (ms_started s) @ drop (Suc i) (ms_started s)\<rparr>"
  have "mux_inv cfg ?s" using serve_stream.prems by (simp add: mux_inv_def)
  then show ?case
    using mux_emit_inv [OF _ _ handleMuxConnect_checked, of cfg ?s cfg an n r "ms_started s ! i"]
      stream_handler.run_bracket [of cfg "(an, n, r, ms_started s ! i)"]
    by (simp add: run_stream_def)
next
  case (reverse_conn i s opens an writes source es hdr)
  let ?s = "s\<lparr>ms_sent := ms_sent s @ (case hdr of None \<Rightarrow> [] | Some h \<Rightarrow> [h])\<rparr>"
  note facts = handleReverseConn_events [OF reverse_conn.hyps(4)]
  have "mux_inv cfg ?s"
    using reverse_conn.prems reverse_conn.hyps(1) facts
    by (auto simp: mux_inv_def split: option.splits)
  then show ?case using facts mux_emit_inv [of cfg ?s es "[]"] by (simp add: checked_dials_def)
next
  case (listener_fails i s)
  then show ?case by (simp add: close_listener_inv)
next
  case (session_lost s)
  then show ?case by (simp add: mux_inv_def)
next
  case (loop_ends s)
  then show ?case by (auto simp: mux_inv_def mux_finish_def)
qed

lemma mux_step_inv: "mux_step cfg n r s t \<Longrightarrow> mux_inv cfg s \<Longrightarrow> mux_inv cfg t"
  by (cases rule: mux_step.cases) (auto simp: mux_accept_inv intro: mux_own_inv)

lemma mux_reach_inv: "mux_reach cfg n r s \<Longrightarrow> mux_inv cfg s"
  by (induction rule: mux_reach.induct) (auto simp: mux_inv_init intro: mux_step_inv)

section \<open>Properties\<close>

text \<open>C0: On a server started without \<open>--reverse\<close> no client ever gets a listener: in every reachable state of a
  session the server has opened none, and has opened no stream towards the client.\<close>

theorem reverse_gate:
  assumes "mux_reach cfg n r s" and "\<not> sc_reverse cfg"
  shows "ms_listeners s = [] \<and> ms_sent s = []"
proof -
  have "ms_listeners s = []" using mux_reach_inv [OF assms(1)] assms(2) by (auto simp: mux_inv_def)
  then show ?thesis using mux_reach_inv [OF assms(1)] by (cases "ms_sent s") (auto simp: mux_inv_def)
qed

lemma demo_bind_rejected:
  "mux_reach demo_cfg ''anonymous'' ''peer''
     (mux_accept demo_cfg ''anonymous'' (Some '':9000'') (header_bytes CmdReverseBind '':9000'') mux_init)"
  by (rule mux_reach.step [OF mux_reach.init take_stream]) (simp_all add: mux_init_def)

lemma reverse_gate_witness:
  "ms_listeners (mux_accept demo_cfg ''anonymous'' (Some '':9000'') (header_bytes CmdReverseBind '':9000'') mux_init) = []"
  using reverse_gate [OF demo_bind_rejected] by (simp add: demo_cfg_def)

text \<open>C0: In every reachable state of a session: the dials that the server made for it are, in order, exactly one
  for each served connect stream whose target passes \<open>validateTarget\<close> with the answers of the resolver that
  this very run of \<open>handleMuxConnect\<close> asked, and none for the others; each stream that the server opened
  starts with a \<open>CmdReverseConn\<close> header for an address that the client had bound; connections opened and
  closed in the statistics balance; and once the accept loop has ended every listener of the session is
  closed.\<close>

theorem mux_session_invariant:
  assumes "mux_reach cfg n r s"
  shows "dials_made (ms_events s) = checked_dials (ms_runs s) \<and>
    (\<forall>h. h \<in> set (ms_sent s) \<longrightarrow>
       (\<exists>l. l \<in> set (ms_listeners s) \<and> h = header_bytes CmdReverseConn (rl_bind l))) \<and>
    activeConns (stat_run (stat_ops (ms_events s)) st) = activeConns st \<and>
    (\<not> ms_loop s \<longrightarrow> (\<forall>l. l \<in> set (ms_listeners s) \<longrightarrow> \<not> rl_open l))"
  using mux_reach_inv [OF assms] unfolding mux_inv_def stat_run_sums stats_plus_def by auto

text \<open>A session on a server with reverse tunnels: the client binds a port, the session is lost and the
  loop ends.\<close>

definition demo_reverse_cfg :: server_config where
  "demo_reverse_cfg = demo_cfg\<lparr>sc_reverse := True\<rparr>"

definition demo_bound :: mux_state where
  "demo_bound =
     mux_accept demo_reverse_cfg ''anonymous'' (Some '':9000'') (header_bytes CmdReverseBind '':9000'') mux_init"

lemma demo_bound_reach:
  "mux_reach demo_reverse_cfg ''anonymous'' ''peer'' (mux_finish (demo_bound\<lparr>ms_alive := False\<rparr>))"
proof -
  have b: "ms_loop demo_bound" "ms_listeners demo_bound = [\<lparr>rl_bind = '':9000'', rl_open = True\<rparr>]"
    using ReadHeader_roundtrip [of "'':9000''" CmdReverseBind "[]"]
    by (simp_all add: demo_bound_def mux_accept_def handleReverseBind_def emit_def mux_init_def
        demo_reverse_cfg_def CmdReverseBind_def CmdConnect_def)
  have "mux_reach demo_reverse_cfg ''anonymous'' ''peer'' demo_bound"
    unfolding demo_bound_def by (rule mux_reach.step [OF mux_reach.init take_stream]) (simp_all add: mux_init_def)
  then have "mux_reach demo_reverse_cfg ''anonymous'' ''peer'' (demo_bound\<lparr>ms_alive := False\<rparr>)"
    by (rule mux_reach.step [OF _ own [OF session_lost]])
  then show ?thesis by (rule mux_reach.step [OF _ own [OF loop_ends]]) (simp_all add: b)
qed

lemma mux_session_invariant_witness:
  "\<exists>l. l \<in> set (ms_listeners (mux_finish (demo_bound\<lparr>ms_alive := False\<rparr>))) \<and> rl_open l = False"
proof -
  let ?s = "mux_finish (demo_bound\<lparr>ms_alive := False\<rparr>)"
  have "length (ms_listeners ?s) = 1"
    using ReadHeader_roundtrip [of "'':9000''" CmdReverseBind "[]"]
    by (simp add: mux_finish_def demo_bound_def mux_accept_def handleReverseBind_def emit_def mux_init_def
        demo_reverse_cfg_def CmdReverseBind_def CmdConnect_def)
  then obtain l where l: "l \<in> set (ms_listeners ?s)" by (cases "ms_listeners ?s") auto
  have "\<not> ms_loop ?s" by (simp add: mux_finish_def)
  with mux_session_invariant [OF demo_bound_reach, of new_stats] l show ?thesis by blast
qed

text \<open>A session that is lost is cleaned up: the accept loop can end in the next step, after which its
  listeners are closed, and it never runs again.\<close>

lemma mux_session_cleanup:
  assumes "ms_loop s" and "\<not> ms_alive s"
  shows "\<exists>t. mux_step cfg n r s t \<and> \<not> ms_loop t \<and> (\<forall>l. l \<in> set (ms_listeners t) \<longrightarrow> \<not> rl_open l) \<and>
    (\<forall>u. (mux_step cfg n r)\<^sup>*\<^sup>* t u \<longrightarrow> \<not> ms_loop u)"
proof -
  have loop: "\<not> ms_loop v" if "mux_step cfg n r u v" "\<not> ms_loop u" for u v
    using that by (elim mux_step.cases mux_own.cases)
      (auto simp: emit_def close_listener_def mux_finish_def)
  have "\<not> ms_loop u" if "(mux_step cfg n r)\<^sup>*\<^sup>* (mux_finish s) u" for u
    using that by (induction rule: rtranclp_induct) (auto simp: mux_finish_def dest: loop)
  then show ?thesis
    using own [OF loop_ends [OF assms]] by (intro exI [of _ "mux_finish s"]) (auto simp: mux_finish_def)
qed

end
