(* ===== verification/Server_Books.thy ===== *)
theory Server_Books
  imports Server_Mux
begin

text \<open>
  The audit and the statistics of the whole server: the five kinds of handlers append their log
  records and add to the counters concurrently; this theory sums over their finished traces.
\<close>

section \<open>The traces of the handlers\<close>

text \<open>The events of one served request, stream or reverse connection.\<close>

definition handler_trace :: "server_config \<Rightarrow> server_event list \<Rightarrow> bool" where
  "handler_trace cfg es \<longleftrightarrow>
     (\<exists>an ch r. es = fst (connectHandler cfg an ch r)) \<or>
     (\<exists>an ch r. es = fst (connectHTTPHandler cfg an ch r)) \<or>
     (\<exists>an us ch r. es = fst (connectUDPHandler cfg an us ch r)) \<or>
     (\<exists>an n remote target. es = handleMuxConnect cfg an n remote target) \<or>
     (\<exists>an opens writes source n b. es = fst (handleReverseConn cfg an opens writes source n b))"

lemma handler_trace_bracket: "handler_trace cfg es \<Longrightarrow> bracket cfg es"
  using ws_handler.run_bracket [of cfg] http_handler.run_bracket [of cfg] udp_handler.run_bracket [of cfg]
    stream_handler.run_bracket [of cfg] reverse_handler.run_bracket [of cfg]
  unfolding handler_trace_def run_connect_def run_http_def run_udp_def run_stream_def run_reverse_def
  by fastforce

definition opens_of :: "server_event list \<Rightarrow> nat" where
  "opens_of es = length (filter (\<lambda>r. lr_message r = ''connection.open'') (records es))"

lemma opens_of_audit_part: "opens_of (audit_part es) = opens_of es"
proof -
  have "opens_of [e] = 0" if "\<not> is_audit e" for e
    using that by (cases e) (auto simp: opens_of_def records_def)
  then show ?thesis unfolding audit_part_def
    by (induction es) (auto simp: opens_of_def records_def)
qed

lemma bracket_sums:
  assumes "bracket cfg es"
  shows "sum_list (map total_active (stat_ops es)) = 0"
    and "sum_list (map total_total (stat_ops es)) = (if sc_stats cfg then int (opens_of es) else 0)"
    and "gauge t (concat (map emitted (records es))) = 0"
proof -
  note via = stat_ops_audit_part [of es, symmetric] opens_of_audit_part [of es, symmetric] gauge_audit_part [of t es, symmetric]
  show "sum_list (map total_active (stat_ops es)) = 0" by (rule bracket_active [OF assms])
  show "sum_list (map total_total (stat_ops es)) = (if sc_stats cfg then int (opens_of es) else 0)"
    using assms unfolding via
    by (auto simp: bracket_def stat_ops_def opens_of_def records_def opened_def closed_def
        ConnectionOpened_def ConnectionClosed_def)
  show "gauge t (concat (map emitted (records es))) = 0"
    using assms unfolding via
    by (auto simp: bracket_def records_def opened_def closed_def gauge_emitted)
qed

lemma gauge_mset: "mset xs = mset ys \<Longrightarrow> gauge t (concat (map emitted xs)) = gauge t (concat (map emitted ys))"
proof -
  have g: "gauge t (concat (map emitted zs)) = sum_list (map (gauge t \<circ> emitted) zs)" for zs
    by (induction zs) simp_all
  assume "mset xs = mset ys"
  then show ?thesis
    unfolding g using sum_mset_sum_list [of "map (gauge t \<circ> emitted) xs"] sum_mset_sum_list [of "map (gauge t \<circ> emitted) ys"]
    by simp
qed

lemma sum_traces:
  fixes f :: "'b \<Rightarrow> 'c :: comm_monoid_add"
  shows "(\<And>es. es \<in> set runs \<Longrightarrow> sum_list (map f (g es)) = h es) \<Longrightarrow>
   sum_list (map f (concat (map g runs))) = sum_list (map h runs)"
  by (induction runs) simp_all

section \<open>What the handlers log\<close>

text \<open>A record that every sink takes: its level is enabled and its numeric attributes are numbers.\<close>

definition deliverable :: "log_record \<Rightarrow> bool" where
  "deliverable r \<longleftrightarrow> typed_record r \<and> LInfo \<le> lr_level r"

definition well_logged :: "server_event list \<Rightarrow> bool" where
  "well_logged es \<longleftrightarrow> list_all deliverable (records es)"

lemma deliverable_audit [simp]:
  "deliverable (LogOpen a b c)" "deliverable (LogClose a b d e f)" "deliverable (LogAuthFailure a)"
  by (simp_all add: deliverable_def)

lemma records_simps [simp]:
  "records [] = []" "records (e # es) = record_of e @ records es" "records (as @ bs) = records as @ records bs"
  by (simp_all add: records_def)

lemma record_of_log [simp]: "record_of (log_event l m as) = [\<lparr>lr_level = l, lr_message = m, lr_attrs = as\<rparr>]"
  by (simp add: log_event_def)

lemma deliverable_log [simp]:
  "deliverable \<lparr>lr_level = l, lr_message = m, lr_attrs = as\<rparr> \<longleftrightarrow> list_all typed_attr as \<and> l \<noteq> LDebug"
  by (cases l) (simp_all add: deliverable_def typed_record_def less_eq_level_def)

lemma well_logged_simps [simp]:
  "well_logged []" "well_logged (e # es) \<longleftrightarrow> list_all deliverable (record_of e) \<and> well_logged es"
  "well_logged (as @ bs) \<longleftrightarrow> well_logged as \<and> well_logged bs"
  by (simp_all add: well_logged_def)

lemma typed_attr_other [simp]: "k \<notin> {''bytes_tx'', ''bytes_rx'', ''duration_ms''} \<Longrightarrow> typed_attr (k, v)"
  by (simp add: typed_attr_def)

lemma well_logged_session [simp]:
  "well_logged (opened cfg n s t)" "well_logged (closed cfg n t d x y)" "well_logged (audited_relay cfg an n s t)"
  by (simp_all add: opened_def closed_def audited_relay_def)

lemma well_logged_auth: "authenticateRequest w ch r = (i, ch', es) \<Longrightarrow> well_logged es"
  by (cases i) (auto dest!: authenticateRequest_accepts(1) authenticateRequest_refuses(1))

lemma well_logged_udp_loop: "udp_loop us tx rx = (es, r) \<Longrightarrow> well_logged es"
proof (induction us arbitrary: tx rx es)
  case (Cons u us)
  obtain es1 n m go where u: "udp_step u = (es1, n, m, go)" by (metis prod_cases4)
  then have "well_logged es1"
    by (auto simp: udp_step_def split: outcome.splits option.splits prod.splits if_splits)
  with Cons u show ?case by (auto simp: udp_loop_step split: prod.splits if_splits)
qed simp

lemma well_logged_handlers:
  "well_logged (fst (connectHandler cfg an ch r))" "well_logged (fst (connectHTTPHandler cfg an ch r))"
  "well_logged (fst (connectUDPHandler cfg an us ch r))" "well_logged (handleMuxConnect cfg an n remote target)"
  "well_logged (fst (handleReverseConn cfg an opens writes source n b))"
proof -
  obtain i ch' es where a: "authenticateRequest (an_auth an) ch r = (i, ch', es)" by (metis prod_cases3)
  note auth = well_logged_auth [OF a]
  obtain ls tx rx where l: "udp_loop us 0 0 = (ls, tx, rx)" by (metis prod_cases3)
  show "well_logged (fst (connectHandler cfg an ch r))"
    using auth by (simp add: connectHandler_def a Let_def split: option.split)
  show "well_logged (fst (connectHTTPHandler cfg an ch r))"
    using auth by (simp add: connectHTTPHandler_def a Let_def split: option.split)
  show "well_logged (fst (connectUDPHandler cfg an us ch r))"
    using auth well_logged_udp_loop [OF l] by (simp add: connectUDPHandler_def a l split: option.split)
  show "well_logged (handleMuxConnect cfg an n remote target)"
    by (simp add: handleMuxConnect_def split: option.split)
  show "well_logged (fst (handleReverseConn cfg an opens writes source n b))"
    by (simp add: handleReverseConn_def split: prod.split option.split)
qed

lemma handler_trace_logged: "handler_trace cfg es \<Longrightarrow> list_all deliverable (records es)"
  unfolding handler_trace_def using well_logged_handlers by (auto simp: well_logged_def)

lemma fold_deliver_deliverable:
  "list_all deliverable rs \<Longrightarrow>
   fold deliver rs (JsonSink sc ls w) = JsonSink sc (if w then ls @ map (Pair sc) rs else ls) w"
  "list_all deliverable rs \<Longrightarrow> fold deliver rs (MetricsSink cs) = MetricsSink (cs @ concat (map emitted rs))"
  by (induction rs arbitrary: ls cs) (auto simp: deliverable_def)

section \<open>Properties\<close>

text \<open>C6: The books of the server do not depend on how the handlers interleave: whatever order the atomic
  additions and the log records of any number of finished connections come in, of any of the five
  kinds, the counter and the Prometheus gauge of active connections return to their values, and the total
  grows by the number of connections that were logged as open (modulo 2^64).\<close>

theorem books_balance:
  assumes "\<forall>es. es \<in> set runs \<longrightarrow> handler_trace cfg es"
    and "mset ops = mset (concat (map stat_ops runs))" and "mset recs = mset (concat (map records runs))"
  shows "activeConns (stat_run ops st) = activeConns st \<and>
    totalConns (stat_run ops st) =
      totalConns st + (if sc_stats cfg then of_nat (sum_list (map opens_of runs)) else 0) \<and>
    gauge label (concat (map emitted recs)) = 0"
proof (intro conjI)
  have b: "bracket cfg es" if "es \<in> set runs" for es
    using that assms(1) handler_trace_bracket by blast
  have run: "stat_run ops st = stats_plus (concat (map stat_ops runs)) st"
    using stat_run_mset [OF assms(2)] by (simp add: stat_run_sums)
  have "sum_list (map total_active (concat (map stat_ops runs))) = sum_list (map (\<lambda>_. 0) runs)"
    by (rule sum_traces) (rule bracket_sums(1) [OF b])
  then show "activeConns (stat_run ops st) = activeConns st" by (simp add: run stats_plus_def)
  have "sum_list (map total_total (concat (map stat_ops runs))) =
      sum_list (map (\<lambda>es. if sc_stats cfg then int (opens_of es) else 0) runs)"
    by (rule sum_traces) (rule bracket_sums(2) [OF b])
  also have "\<dots> = (if sc_stats cfg then int (sum_list (map opens_of runs)) else 0)"
    by (induction runs) simp_all
  finally show "totalConns (stat_run ops st) =
      totalConns st + (if sc_stats cfg then of_nat (sum_list (map opens_of runs)) else 0)"
    by (simp add: run stats_plus_def)
  have "gauge label (concat (map emitted recs)) = gauge label (concat (map emitted (concat (map records runs))))"
    by (rule gauge_mset [OF assms(3)])
  also have "\<dots> = 0"
    using b by (induction runs) (simp_all add: bracket_sums(3) [of cfg])
  finally show "gauge label (concat (map emitted recs)) = 0" .
qed

text \<open>Two reverse connections, their additions interleaved.\<close>

definition demo_run :: "server_event list" where
  "demo_run = audited_relay demo_cfg demo_answers ''bob'' ''192.0.2.7:5000'' ''reverse::9000''"

lemma demo_run_trace: "handler_trace demo_cfg demo_run"
proof -
  have "fst (handleReverseConn demo_cfg demo_answers True True ''192.0.2.7:5000'' ''bob'' '':9000'') = demo_run"
    by (simp add: handleReverseConn_def demo_run_def)
  then show ?thesis unfolding handler_trace_def by metis
qed

lemma books_balance_witness:
  "totalConns (stat_run (ConnectionOpened @ ConnectionOpened @ ConnectionClosed 100 7 @ ConnectionClosed 100 7) new_stats) = 2"
proof -
  let ?ops = "ConnectionOpened @ ConnectionOpened @ ConnectionClosed 100 7 @ ConnectionClosed 100 7"
  have ops: "stat_ops demo_run = ConnectionOpened @ ConnectionClosed 100 7"
    by (simp add: demo_run_def audited_relay_def opened_def closed_def stat_ops_def demo_cfg_def demo_answers_def)
  have opens: "opens_of demo_run = 1"
    by (simp add: demo_run_def audited_relay_def opened_def closed_def opens_of_def records_def demo_cfg_def)
  have "mset ?ops = mset (concat (map stat_ops [demo_run, demo_run]))" by (simp add: ops)
  from books_balance [OF _ this refl, of demo_cfg new_stats] demo_run_trace opens
  show ?thesis by (simp add: new_stats_def demo_cfg_def)
qed

text \<open>The records of a handler that the metrics handler can count.\<close>

definition countable_call :: "metric_call \<Rightarrow> bool" where
  "countable_call c \<longleftrightarrow>
     valid_utf8 (call_token c) \<and> (case c of BytesAdd t d i \<Rightarrow> 0 \<le> i | _ \<Rightarrow> True)"

lemma breaks_countable:
  assumes "prometheus_documented p" and "deliverable r"
  shows "breaks (call_panics p new_collectors) r \<longleftrightarrow> \<not> list_all countable_call (emitted r)"
proof -
  have "call_panics p new_collectors c = (\<not> countable_call c)" if "c \<in> set (emitted r)" for c
    unfolding emitted_panics [OF assms(1) that]
    by (auto simp: countable_call_def split: metric_call.splits)
  then show ?thesis using assms(2)
    by (auto simp: breaks_def deliverable_def list_ex_iff list_all_iff)
qed

definition sink_after :: "log_record list \<Rightarrow> sink \<Rightarrow> sink" where
  "sink_after rs h =
     (case h of
        JsonSink sc ls w \<Rightarrow> JsonSink sc (if w then ls @ map (Pair sc) rs else ls) w
      | MetricsSink cs \<Rightarrow> MetricsSink (cs @ concat (map emitted rs)))"

text \<open>C36: No sink keeps a record of a handler from another one: every JSON sink that accepts writes gets all
  records, in order and under its own scopes, also when another sink fails, and the metrics handler
  makes the calls for all of them. The exception is exact: with the behaviour that the Prometheus
  library documents, the logger panics exactly when there is a metrics handler and one of its calls
  has a token name that is not valid UTF-8 or adds a negative byte count.\<close>

theorem audit_delivered:
  assumes "handler_trace cfg es" and "NewMetrics reg = Ok (m, reg')" and "prometheus_documented p"
  shows "log_all (call_panics p m) sinks (records es) =
    (if list_ex is_metrics sinks \<and> \<not> list_all countable_call (concat (map emitted (records es)))
     then Panic
     else Ok (map (sink_after (records es)) sinks))"
proof -
  have d: "list_all deliverable (records es)" by (rule handler_trace_logged [OF assms(1)])
  then have typed: "\<forall>r \<in> set (records es). typed_record r" by (simp add: list_all_iff deliverable_def)
  have "fold deliver (records es) h = sink_after (records es) h" for h
    by (cases h) (simp_all add: sink_after_def fold_deliver_deliverable [OF d])
  moreover have "list_ex (breaks (call_panics p m)) (records es) \<longleftrightarrow>
      \<not> list_all countable_call (concat (map emitted (records es)))"
    using d breaks_countable [OF assms(3)]
    by (auto simp: NewMetrics_Ok [OF assms(2)] list_ex_iff list_all_iff)
  ultimately show ?thesis by (simp add: log_all_deliver [OF typed])
qed

text \<open>A library as documented.\<close>

definition demo_prometheus :: prometheus where
  "demo_prometheus =
     \<lparr>labels_panic = (\<lambda>co ls. length ls \<noteq> length (co_labels co) \<or> \<not> list_all valid_utf8 ls),
      add_panics = (\<lambda>co n. co_kind co = Counter \<and> n < 0)\<rparr>"

definition demo_broken_name :: "server_event list" where
  "demo_broken_name =
     audited_relay demo_cfg demo_answers [CHR 0xFF] ''192.0.2.7:5000'' ''reverse::9000''"

lemma demo_broken_name_trace: "handler_trace demo_cfg demo_broken_name"
proof -
  have "fst (handleReverseConn demo_cfg demo_answers True True ''192.0.2.7:5000'' [CHR 0xFF] '':9000'') =
      demo_broken_name"
    by (simp add: handleReverseConn_def demo_broken_name_def)
  then show ?thesis unfolding handler_trace_def by metis
qed

lemma demo_metrics:
  "NewMetrics {} = Ok (new_collectors, {''longsocks_connections_total'', ''longsocks_connections_active'',
     ''longsocks_bytes_transmitted_total'', ''longsocks_auth_failures_total'',
     ''longsocks_connection_duration_seconds''})"
  by (simp add: NewMetrics_def new_collectors_def insert_commute)

lemma audit_delivered_witness:
  "log_all (call_panics demo_prometheus new_collectors) [JsonSink [] [] False, MetricsSink [], JsonSink [] [] True]
       (records demo_run) =
     Ok [JsonSink [] [] False, MetricsSink (concat (map emitted (records demo_run))),
         JsonSink [] (map (Pair []) (records demo_run)) True] \<and>
   log_all (call_panics demo_prometheus new_collectors) [MetricsSink []] (records demo_broken_name) = Panic"
proof -
  have p: "prometheus_documented demo_prometheus"
    by (simp add: prometheus_documented_def demo_prometheus_def)
  have run: "records demo_run = [LogOpen ''bob'' ''192.0.2.7:5000'' ''reverse::9000'',
      LogClose ''bob'' ''reverse::9000'' (an_duration demo_answers) (sint (fst (an_relay demo_answers))) (sint (snd (an_relay demo_answers)))]"
    by (simp add: demo_run_def audited_relay_def opened_def closed_def records_def demo_cfg_def)
  have bad: "records demo_broken_name = [LogOpen [CHR 0xFF] ''192.0.2.7:5000'' ''reverse::9000'',
      LogClose [CHR 0xFF] ''reverse::9000'' (an_duration demo_answers) (sint (fst (an_relay demo_answers))) (sint (snd (an_relay demo_answers)))]"
    by (simp add: demo_broken_name_def audited_relay_def opened_def closed_def records_def demo_cfg_def)
  have "list_all countable_call (concat (map emitted (records demo_run)))"
    by (simp add: run emitted_simps token_label_def countable_call_def demo_answers_def)
  moreover have "\<not> list_all countable_call (concat (map emitted (records demo_broken_name)))"
    by (simp add: bad emitted_simps token_label_def countable_call_def)
  ultimately show ?thesis
    using audit_delivered [OF demo_run_trace demo_metrics p]
      audit_delivered [OF demo_broken_name_trace demo_metrics p, of "[MetricsSink []]"]
    by (simp add: sink_after_def)
qed

end
