(* ===== verification/Server_Dispatch.thy ===== *)
theory Server_Dispatch
  imports Server_Books
begin

text \<open>
  The server as its listener sees it: the \<open>http.ServeMux\<close> that \<open>ListenAndServe\<close> of
  \<open>internal/server/server.go\<close> fills selects the route, the fingerprint middleware wraps the handler.

  The multiplexer redirects a path that is not clean, without calling a handler, except for CONNECT. A
  request \<open>CONNECT host:port\<close> in authority form has the empty path. (The request line \<open>OPTIONS *\<close> is left
  out.)
\<close>

definition run_handler ::
    "server_config \<Rightarrow> answers \<Rightarrow> bool \<Rightarrow> udp_round list \<Rightarrow> auth_chain \<Rightarrow> http_request \<Rightarrow> handler_id \<Rightarrow>
     server_event list \<times> auth_chain" where
  "run_handler cfg an yamux us ch r h =
     (case h of
        Healthz \<Rightarrow> (healthzHandler, ch)
      | Connect \<Rightarrow> connectHandler cfg an ch r
      | ConnectHTTP \<Rightarrow> connectHTTPHandler cfg an ch r
      | ConnectUDP \<Rightarrow> connectUDPHandler cfg an us ch r
      | MuxSession \<Rightarrow> (case muxHandler an yamux ch r of (es, ch', _) \<Rightarrow> (es, ch')))"

definition redirect_clean :: "http_request \<Rightarrow> server_event list" where
  "redirect_clean r =
     [SetHeader ''Location''
        (url_string (empty_url\<lparr>u_path := clean_path (rq_escaped_path r), u_raw_query := rq_raw_query r\<rparr>)),
      Respond 301 ''Moved Permanently'']"

definition serve_request ::
    "server_config \<Rightarrow> route list \<Rightarrow> answers \<Rightarrow> bool \<Rightarrow> udp_round list \<Rightarrow> auth_chain \<Rightarrow> http_request \<Rightarrow>
     server_event list \<times> auth_chain" where
  "serve_request cfg rs an yamux us ch r =
     (if rq_method r \<noteq> ''CONNECT'' \<and> clean_path (rq_escaped_path r) \<noteq> rq_escaped_path r then (redirect_clean r, ch)
      else case route_for rs (rq_path r) of
        None \<Rightarrow> ([Respond 404 ''404 page not found''], ch)
      | Some rt \<Rightarrow>
          (case run_handler cfg an yamux us ch r (rt_handler rt) of
             (es, ch') \<Rightarrow>
               (if rt_fingerprint rt then fingerprintMiddleware (sc_fingerprint cfg) es else es, ch')))"

text \<open>What a server does for a client beyond answering with a status.\<close>

definition serves :: "server_event \<Rightarrow> bool" where
  "serves e \<longleftrightarrow>
     (case e of
        Accepted \<Rightarrow> True | DialTCP t ok \<Rightarrow> True | SendUDP t p \<Rightarrow> True | SendFrame f \<Rightarrow> True | Relayed \<Rightarrow> True
      | Counted ops \<Rightarrow> True | Respond c b \<Rightarrow> False | _ \<Rightarrow> False)"

lemma serves_simps [simp]:
  "serves Accepted" "serves (DialTCP t ok)" "serves (SendUDP t p)" "serves (SendFrame f)" "serves Relayed"
  "serves (Counted ops)" "\<not> serves (Respond c b)" "\<not> serves (SetHeader k v)" "\<not> serves (Logged l)"
  "\<not> serves (log_event lv m as)" "\<not> serves ClosedClient" "\<not> serves ClosedTarget"
  by (simp_all add: serves_def log_event_def)

lemma refused_serves_nothing:
  assumes "authenticateRequest (an_auth an) ch r = (None, ch', es)"
  shows "run_handler cfg an yamux us ch r h =
      (case h of
         Healthz \<Rightarrow> (healthzHandler, ch)
       | ConnectHTTP \<Rightarrow>
           if rq_method r \<noteq> ''CONNECT'' then ([Respond 405 ''CONNECT method required''], ch) else (es, ch')
       | _ \<Rightarrow> (es, ch'))"
  using assms
  by (simp add: run_handler_def connectHandler_def connectHTTPHandler_def connectUDPHandler_def muxHandler_def
      split: handler_id.split)

lemma refused_events:
  assumes "authenticateRequest (an_auth an) ch r = (None, ch', es)" and "e \<in> set (fst (run_handler cfg an yamux us ch r h))"
  shows "\<not> serves e \<and> (\<forall>c b. e = Respond c b \<longrightarrow> c \<in> {200, 401, 405}) \<and> (h \<noteq> Healthz \<longrightarrow> (\<forall>b. e \<noteq> Respond 200 b))"
proof -
  obtain msg where "es = [Logged (LogAuthFailure (rq_remote r)), Respond 401 msg]"
    using authenticateRequest_refuses(1) [OF assms(1)] by blast
  then show ?thesis
    using assms(2) unfolding refused_serves_nothing [OF assms(1)]
    by (auto simp: healthzHandler_def split: handler_id.splits if_splits)
qed

lemma muxHandler_dial: "DialTCP t ok \<notin> set (fst (muxHandler an yamux ch r))" "SendUDP t p \<notin> set (fst (muxHandler an yamux ch r))"
  using no_dial_auth by (auto simp: muxHandler_def log_event_def split: prod.splits option.splits)

lemma run_handler_dial:
  "DialTCP t ok \<in> set (fst (run_handler cfg an yamux us ch r h)) \<Longrightarrow> validateTarget (an_lookup an) t = None"
  using ws_handler.run_dial [of t ok cfg "(an, ch, r)"] http_handler.run_dial [of t ok cfg "(an, ch, r)"]
    connectUDPHandler_dial muxHandler_dial(1) [of t ok an yamux ch r]
  by (cases h) (auto simp: run_handler_def run_connect_def run_http_def admitted_tcp_def healthzHandler_def split: prod.splits)

lemma connectUDPHandler_loop:
  assumes "SendUDP t p \<in> set (fst (connectUDPHandler cfg an us ch r))"
  shows "\<exists>u. u \<in> set us \<and> parseUDPFrame (ur_msg u) = Ok (t, p) \<and> validateTarget (ur_lookup u) t = None"
  using assms udp_loop_admitted
  by (fastforce simp: connectUDPHandler_def no_dial_auth opened_def closed_def log_event_def
      split: prod.splits option.splits if_splits)

lemma run_handler_send:
  "SendUDP t p \<in> set (fst (run_handler cfg an yamux us ch r h)) \<Longrightarrow>
   \<exists>u. u \<in> set us \<and> parseUDPFrame (ur_msg u) = Ok (t, p) \<and> validateTarget (ur_lookup u) t = None"
  using connectHandler_send [of t p cfg an ch r] connectHTTPHandler_send [of t p cfg an ch r]
    connectUDPHandler_loop [of t p cfg an us ch r] muxHandler_dial(2) [of t p an yamux ch r]
  by (cases h) (auto simp: run_handler_def healthzHandler_def split: prod.splits)

text \<open>The middleware adds the header in front; it is on every route but the ones of \<open>/healthz\<close> and \<open>/connect-http\<close>.\<close>

lemma set_middleware: "set (fingerprintMiddleware fp es) \<subseteq> insert (SetHeader ''X-Longsocks-Fingerprint'' fp) (set es)"
  by (auto simp: fingerprintMiddleware_def)

lemma serve_request_event:
  assumes "e \<in> set (fst (serve_request cfg rs an yamux us ch r))" and "serves e"
  shows "\<exists>rt. route_for rs (rq_path r) = Some rt \<and> e \<in> set (fst (run_handler cfg an yamux us ch r (rt_handler rt)))"
  using assms
  by (auto simp: serve_request_def redirect_clean_def fingerprintMiddleware_def split: option.splits prod.splits if_splits)

lemma routes_cases:
  assumes "server_routes ms = Ok rs" and "rt \<in> set rs"
  shows "rt \<in> set (mode_routes (effective_modes ms)) \<or>
    rt \<in> {\<lparr>rt_pattern = ''/healthz'', rt_handler = Healthz, rt_fingerprint = False\<rparr>,
           \<lparr>rt_pattern = ''/connect-udp'', rt_handler = ConnectUDP, rt_fingerprint = True\<rparr>,
           \<lparr>rt_pattern = ''/mux'', rt_handler = MuxSession, rt_fingerprint = True\<rparr>}"
  using assms by (auto simp: server_routes_eq Let_def split: if_splits)

lemma route_for_SomeD: "route_for rs p = Some rt \<Longrightarrow> rt \<in> set rs \<and> rt_pattern rt = p"
  by (auto simp: route_for_def find_Some_iff)

lemma wrapped_routes:
  assumes "server_routes ms = Ok rs" and "route_for rs p = Some rt" and "p \<in> {''/connect'', ''/connect-udp'', ''/mux''}"
  shows "rt_fingerprint rt"
proof -
  have m: "rt_fingerprint q" if "q \<in> set (mode_routes qs)" "rt_pattern q \<noteq> ''/connect-http''" for q qs
    using that by (induction qs) (auto simp: mode_route_def split: if_splits)
  have rt: "rt \<in> set rs" "rt_pattern rt = p" using route_for_SomeD [OF assms(2)] by simp_all
  then have "rt_pattern rt \<noteq> ''/connect-http''" "rt_pattern rt \<noteq> ''/healthz''" using assms(3) by auto
  then show ?thesis using routes_cases [OF assms(1) rt(1)] m by auto
qed

lemma empty_path_no_route:
  assumes "server_routes ms = Ok rs"
  shows "route_for rs [] = None"
proof (rule ccontr)
  assume "route_for rs [] \<noteq> None"
  then obtain rt where rt: "rt \<in> set rs" "rt_pattern rt = []" using route_for_SomeD by blast
  then show False using routes_cases [OF assms rt(1)] mode_routes_patterns by fastforce
qed

section \<open>Properties\<close>

text \<open>C0: The whole server does nothing for a client - no WebSocket, no dial, no datagram, no relaying - before
  it has let the request in: this holds for every path, route table and branch. It dials only targets that
  passed \<open>validateTarget\<close>, and sends only the datagrams of frames whose target passed it.\<close>

theorem no_service_before_checks:
  assumes "e \<in> set (fst (serve_request cfg rs an yamux us ch r))" and "serves e"
  shows "\<exists>i ch'. authenticateRequest (an_auth an) ch r = (Some i, ch', []) \<and>
    (\<forall>t ok. e = DialTCP t ok \<longrightarrow> validateTarget (an_lookup an) t = None) \<and>
    (\<forall>t p. e = SendUDP t p \<longrightarrow>
       (\<exists>u. u \<in> set us \<and> parseUDPFrame (ur_msg u) = Ok (t, p) \<and> validateTarget (ur_lookup u) t = None))"
proof -
  obtain h where h: "e \<in> set (fst (run_handler cfg an yamux us ch r h))"
    using serve_request_event [OF assms] by blast
  obtain i ch' es where a: "authenticateRequest (an_auth an) ch r = (i, ch', es)" by (metis prod_cases3)
  have "i \<noteq> None" using refused_events [OF _ h] a assms(2) by (cases i) simp_all
  then obtain j where j: "authenticateRequest (an_auth an) ch r = (Some j, ch', es)" using a by blast
  moreover have "es = []" by (rule authenticateRequest_accepts(1) [OF j])
  moreover have "validateTarget (an_lookup an) t = None" if "e = DialTCP t ok" for t ok
    using run_handler_dial h that by blast
  moreover have "\<exists>u. u \<in> set us \<and> parseUDPFrame (ur_msg u) = Ok (t, p) \<and> validateTarget (ur_lookup u) t = None"
    if "e = SendUDP t p" for t p
    using run_handler_send h that by blast
  ultimately show ?thesis by blast
qed

lemma no_service_before_checks_witness:
  "\<exists>i ch'. authenticateRequest (demo_lib, demo_get) (Some demo_chain) demo_request = (Some i, ch', [])"
proof -
  obtain rs where rs: "server_routes [] = Ok rs" by (simp add: server_routes_eq effective_modes_def)
  then obtain rt where rt: "route_for rs ''/connect'' = Some rt" "rt_handler rt = Connect"
    using connect_route [OF rs] by auto
  have p: "rq_path demo_request = ''/connect''" "clean_path (rq_escaped_path demo_request) = rq_escaped_path demo_request"
    using clean_path_segment [of "''connect''"] by (simp_all add: demo_request_def)
  have "Accepted \<in> set (fst (serve_request demo_cfg rs demo_answers True [] (Some demo_chain) demo_request))"
    using demo_connect
    by (auto simp: serve_request_def run_handler_def p rt fingerprintMiddleware_def split: prod.splits)
  from no_service_before_checks [OF this] show ?thesis by (simp add: demo_answers_def)
qed

text \<open>A standard HTTP CONNECT request, whose target stands in place of the path, never reaches
  \<open>connectHTTPHandler\<close>: whatever the modes, the server answers it with 404.\<close>

lemma authority_form_not_found:
  assumes "server_routes modes = Ok rs" and "rq_method r = ''CONNECT''" and "rq_path r = []"
  shows "serve_request cfg rs an yamux us ch r = ([Respond 404 ''404 page not found''], ch)"
  by (simp add: serve_request_def assms(2,3) empty_path_no_route [OF assms(1)])

end
