(* ===== verification/Fingerprint.thy ===== *)
theory Fingerprint
  imports Go_Encoding
begin

text \<open>
  \<open>internal/fingerprint/fingerprint.go\<close>: the server's Ed25519 key and the fingerprint of its
  public key. Key generation, the derivation of the public key and SHA-256 are the library's:
  the arguments \<open>gen\<close> (the pair that \<open>GenerateKey\<close> returns, if it does), \<open>public_of\<close> (from a
  seed) and \<open>sha256\<close>.
\<close>

datatype key_load_error = GenerateFailed | KeyUnreadable | WrongSize nat

definition SeedSize :: nat where
  "SeedSize = 32"

record ed25519_key =
  ek_public :: bytes
  ek_seed :: bytes

definition Generate :: "ed25519_key option \<Rightarrow> (key_load_error, ed25519_key) outcome" where
  "Generate gen = (case gen of None \<Rightarrow> Err GenerateFailed | Some k \<Rightarrow> Ok k)"

definition LoadOrGenerate ::
    "(bytes \<Rightarrow> bytes) \<Rightarrow> ed25519_key option \<Rightarrow> string \<Rightarrow> bytes option \<Rightarrow> (key_load_error, ed25519_key) outcome" where
  "LoadOrGenerate public_of gen path file =
     (if path = [] then Generate gen
      else case file of
             None \<Rightarrow> Err KeyUnreadable
           | Some d \<Rightarrow>
               if length d \<noteq> SeedSize then Err (WrongSize (length d))
               else Ok \<lparr>ek_public = public_of d, ek_seed = d\<rparr>)"

definition Compute :: "(bytes \<Rightarrow> bytes) \<Rightarrow> bytes \<Rightarrow> string" where
  "Compute sha256 pub = b64_std_encode (sha256 pub)"

lemma LoadOrGenerate_file:
  "path \<noteq> [] \<Longrightarrow> LoadOrGenerate public_of gen path file = Ok k \<longleftrightarrow>
     (\<exists>d. file = Some d \<and> length d = 32 \<and> k = \<lparr>ek_public = public_of d, ek_seed = d\<rparr>)"
  by (auto simp: LoadOrGenerate_def SeedSize_def split: option.splits)

lemma length_Compute: "length (sha256 pub) = 32 \<Longrightarrow> length (Compute sha256 pub) = 44"
  by (simp add: Compute_def length_b64_std_encode)

end
