(* ===== verification/Go_Time.thy ===== *)
theory Go_Time
  imports Go_Num
begin

text \<open>
  Durations of package \<open>time\<close>, in nanoseconds, and the rounding of \<open>float64\<close> operations to 53
  significant bits, ties to even. A positive float is a natural number in a fixed unit (\<open>round53\<close>) or a
  pair of a mantissa and a binary exponent (\<open>round_ratio\<close>).
\<close>

definition second :: int where
  "second = 1000000000"

definition minute :: int where
  "minute = 60 * second"

definition hour :: int where
  "hour = 60 * minute"

section \<open>Rounding to 53 significant bits\<close>

fun bit_len :: "nat \<Rightarrow> nat" where
  "bit_len n = (if n = 0 then 0 else Suc (bit_len (n div 2)))"

declare bit_len.simps [simp del]

definition round_half_even :: "nat \<Rightarrow> nat \<Rightarrow> nat" where
  "round_half_even u m =
     (let q = u div m; r = u mod m in if 2 * r < m \<or> 2 * r = m \<and> even q then q else Suc q)"

definition round53 :: "nat \<Rightarrow> nat" where
  "round53 u = (let m = 2 ^ (bit_len u - 53) in round_half_even u m * m)"

section \<open>Facts about the rounding\<close>

lemma bit_len_0 [simp]: "bit_len 0 = 0"
  by (simp add: bit_len.simps)

lemma bit_len_pos: "0 < n \<Longrightarrow> bit_len n = Suc (bit_len (n div 2))"
  by (subst bit_len.simps) simp

lemma bit_len_le_iff: "bit_len n \<le> k \<longleftrightarrow> n < 2 ^ k"
proof (induction k arbitrary: n)
  case 0
  then show ?case by (cases "n = 0") (simp_all add: bit_len_pos)
next
  case (Suc k)
  show ?case
  proof (cases "n = 0")
    case False
    then have "bit_len n \<le> Suc k \<longleftrightarrow> n div 2 < 2 ^ k" by (simp add: bit_len_pos Suc.IH)
    also have "\<dots> \<longleftrightarrow> n < 2 ^ Suc k" by auto
    finally show ?thesis .
  qed simp
qed

lemma less_two_power_bit_len: "n < 2 ^ bit_len n"
  using bit_len_le_iff [of n "bit_len n"] by simp

lemma two_power_bit_len_le: "0 < n \<Longrightarrow> 2 ^ (bit_len n - 1) \<le> n"
  using bit_len_le_iff [of n "bit_len n - 1"] by (cases "bit_len n") (auto simp: bit_len_pos)

lemma bit_len_mono: "m \<le> n \<Longrightarrow> bit_len m \<le> bit_len n"
  using bit_len_le_iff [of m "bit_len n"] less_two_power_bit_len [of n] by simp

lemma round_half_even_dvd: "0 < m \<Longrightarrow> m dvd u \<Longrightarrow> round_half_even u m = u div m"
  by (simp add: round_half_even_def)

lemma round_half_even_bounds:
  "u div m \<le> round_half_even u m" "round_half_even u m \<le> Suc (u div m)"
  by (simp_all add: round_half_even_def Let_def)

lemma round_half_even_mono:
  assumes "u \<le> v"
  shows "round_half_even u m \<le> round_half_even v m"
proof (cases "u div m = v div m")
  case True
  with assms have "u mod m \<le> v mod m"
    by (metis add_le_cancel_left div_mult_mod_eq)
  with True show ?thesis by (auto simp: round_half_even_def Let_def)
next
  case False
  with assms have "Suc (u div m) \<le> v div m"
    by (metis div_le_mono le_neq_implies_less Suc_leI)
  then show ?thesis
    using round_half_even_bounds(2) [of u m] round_half_even_bounds(1) [of v m] by linarith
qed

lemma round53_representable:
  assumes "m < 2 ^ 53"
  shows "round53 (m * 2 ^ e) = m * 2 ^ e"
proof -
  have "m * 2 ^ e < 2 ^ (53 + e)" using assms by (simp add: power_add)
  then have "bit_len (m * 2 ^ e) - 53 \<le> e" by (simp add: bit_len_le_iff [symmetric])
  then have "(2 :: nat) ^ (bit_len (m * 2 ^ e) - 53) dvd m * 2 ^ e"
    by (simp add: le_imp_power_dvd dvd_mult)
  then show ?thesis by (simp add: round53_def round_half_even_dvd Let_def)
qed

lemma round53_small: "u < 2 ^ 53 \<Longrightarrow> round53 u = u"
  using round53_representable [of u 0] by simp

lemma round53_le_power: "round53 u \<le> 2 ^ bit_len u"
proof (cases "bit_len u \<le> 53")
  case True
  then show ?thesis using less_two_power_bit_len [of u] by (simp add: round53_small bit_len_le_iff)
next
  case False
  define e where "e = bit_len u - 53"
  have "bit_len u = 53 + e" using False by (simp add: e_def)
  then have pow: "(2 :: nat) ^ bit_len u = 2 ^ 53 * 2 ^ e" by (simp only: power_add)
  then have "u < 2 ^ 53 * 2 ^ e" using less_two_power_bit_len [of u] by simp
  then have "u div 2 ^ e < 2 ^ 53" by (simp add: less_mult_imp_div_less)
  then have "round_half_even u (2 ^ e) \<le> 2 ^ 53"
    using round_half_even_bounds(2) [of u "2 ^ e"] by linarith
  then have "round53 u \<le> 2 ^ 53 * 2 ^ e" by (simp add: round53_def e_def Let_def)
  also have "\<dots> = 2 ^ bit_len u" using pow by simp
  finally show ?thesis .
qed

lemma round53_ge_power:
  assumes "0 < u"
  shows "2 ^ (bit_len u - 1) \<le> round53 u"
proof (cases "bit_len u \<le> 53")
  case True
  then show ?thesis using two_power_bit_len_le [OF assms] by (simp add: round53_small bit_len_le_iff)
next
  case False
  define e where "e = bit_len u - 53"
  have "bit_len u - 1 = 52 + e" using False by (simp add: e_def)
  then have "(2 :: nat) ^ (bit_len u - 1) = 2 ^ 52 * 2 ^ e" by (simp only: power_add)
  moreover from this two_power_bit_len_le [OF assms] have "2 ^ 52 \<le> u div 2 ^ e"
    by (simp add: less_eq_div_iff_mult_less_eq)
  then have "2 ^ 52 \<le> round_half_even u (2 ^ e)"
    using round_half_even_bounds(1) [of u "2 ^ e"] by linarith
  ultimately show ?thesis by (simp add: round53_def e_def Let_def)
qed

lemma round53_mono:
  assumes "u \<le> v"
  shows "round53 u \<le> round53 v"
proof (cases "bit_len u = bit_len v")
  case True
  then show ?thesis using round_half_even_mono [OF assms] by (simp add: round53_def Let_def)
next
  case False
  with bit_len_mono [OF assms] have less: "bit_len u < bit_len v" by simp
  then have "0 < v" by (cases v) auto
  have "round53 u \<le> 2 ^ bit_len u" by (rule round53_le_power)
  also have "\<dots> \<le> 2 ^ (bit_len v - 1)" using less by simp
  also have "\<dots> \<le> round53 v" by (rule round53_ge_power [OF \<open>0 < v\<close>])
  finally show ?thesis .
qed

section \<open>Parsing a duration\<close>

text \<open>\<open>round_ratio p q\<close> is the float next to \<open>p / q\<close>.\<close>

definition round_ratio :: "nat \<Rightarrow> nat \<Rightarrow> nat \<times> int" where
  "round_ratio p q =
     (let k = 53 + int (bit_len q) - int (bit_len p);
          scaled = (\<lambda>k. if 0 \<le> k then (p * 2 ^ nat k, q) else (p, q * 2 ^ nat (- k)));
          k' = (if 2 ^ 53 \<le> fst (scaled k) div snd (scaled k) then k - 1 else k)
      in (round_half_even (fst (scaled k')) (snd (scaled k')), - k'))"

text \<open>\<open>uint64(float64(f) * (float64(unit) / scale))\<close>\<close>

definition fraction_value :: "nat \<Rightarrow> nat \<Rightarrow> nat \<Rightarrow> nat" where
  "fraction_value f unit scale =
     (let (m1, e1) = round_ratio f 1;
          (m2, e2) = round_ratio unit scale;
          (m, e) = round_ratio (m1 * m2) 1;
          ex = e + e1 + e2
      in if 0 \<le> ex then m * 2 ^ nat ex else m div 2 ^ nat (- ex))"

fun leadingInt :: "string \<Rightarrow> nat \<Rightarrow> (nat \<times> string) option" where
  "leadingInt [] x = Some (x, [])"
| "leadingInt (c # s) x =
     (if \<not> is_digit c then Some (x, c # s)
      else if x > 2 ^ 63 div 10 then None
      else let x' = 10 * x + digit_val c in if x' > 2 ^ 63 then None else leadingInt s x')"

text \<open>The digits of a fraction, its power of ten and the rest; digits that overflow are dropped.\<close>

fun leadingFraction :: "string \<Rightarrow> nat \<Rightarrow> nat \<Rightarrow> bool \<Rightarrow> nat \<times> nat \<times> string" where
  "leadingFraction [] x scale ov = (x, scale, [])"
| "leadingFraction (c # s) x scale ov =
     (if \<not> is_digit c then (x, scale, c # s)
      else if ov \<or> x > (2 ^ 63 - 1) div 10 then leadingFraction s x scale True
      else let y = 10 * x + digit_val c
           in if y > 2 ^ 63 then leadingFraction s x scale True else leadingFraction s y (10 * scale) False)"

definition time_units :: "(string \<times> nat) list" where
  "time_units =
     [(''ns'', 1), (''us'', 1000), ([CHR 0xC2, CHR 0xB5, CHR ''s''], 1000), ([CHR 0xCE, CHR 0xBC, CHR ''s''], 1000),
      (''ms'', 1000000), (''s'', 1000000000), (''m'', 60000000000), (''h'', 3600000000000)]"

definition number_char :: "char \<Rightarrow> bool" where
  "number_char c \<longleftrightarrow> c = CHR ''.'' \<or> is_digit c"

text \<open>One round of the loop: a number, as its integer part, its fraction and the rest; then its unit.\<close>

definition duration_number :: "string \<Rightarrow> (nat \<times> nat \<times> nat \<times> string) option" where
  "duration_number s =
     (case leadingInt s 0 of
        None \<Rightarrow> None
      | Some (v, s1) \<Rightarrow>
          let pre = length s1 \<noteq> length s
          in if s1 \<noteq> [] \<and> hd s1 = CHR ''.'' then
               (case leadingFraction (tl s1) 0 1 False of
                  (f, scale, s2) \<Rightarrow>
                    if \<not> pre \<and> length s2 = length (tl s1) then None else Some (v, f, scale, s2))
             else if \<not> pre then None
             else Some (v, 0, 1, s1))"

definition duration_item :: "string \<Rightarrow> (nat \<times> string) option" where
  "duration_item s =
     (if s = [] \<or> \<not> number_char (hd s) then None
      else case duration_number s of
             None \<Rightarrow> None
           | Some (v, f, scale, s2) \<Rightarrow>
               let u = takeWhile (\<lambda>c. \<not> number_char c) s2;
                   rest = dropWhile (\<lambda>c. \<not> number_char c) s2
               in if u = [] then None
                  else case map_of time_units u of
                         None \<Rightarrow> None
                       | Some unit \<Rightarrow>
                           if v > 2 ^ 63 div unit then None
                           else if f = 0 then Some (v * unit, rest)
                           else let v' = v * unit + fraction_value f unit scale
                                in if v' > 2 ^ 63 then None else Some (v', rest))"

lemma leadingInt_length: "leadingInt s x = Some (v, r) \<Longrightarrow> length r \<le> length s"
  by (induction s x rule: leadingInt.induct) (auto simp: Let_def split: if_splits)

lemma leadingFraction_length: "leadingFraction s x sc ov = (f, sc', r) \<Longrightarrow> length r \<le> length s"
  by (induction s x sc ov rule: leadingFraction.induct) (force simp: Let_def split: if_splits)+

lemma duration_number_length: "duration_number s = Some (v, f, sc, r) \<Longrightarrow> length r \<le> length s"
  by (auto simp: duration_number_def Let_def split: option.splits prod.splits if_splits
      dest!: leadingInt_length leadingFraction_length)

lemma duration_item_shorter:
  assumes "duration_item s = Some (x, r)"
  shows "length r < length s"
proof -
  obtain v f sc s2 where n: "duration_number s = Some (v, f, sc, s2)"
    and u: "takeWhile (\<lambda>c. \<not> number_char c) s2 \<noteq> []" and r: "r = dropWhile (\<lambda>c. \<not> number_char c) s2"
    using assms by (auto simp: duration_item_def Let_def split: if_splits option.splits)
  have "length s2 = length (takeWhile (\<lambda>c. \<not> number_char c) s2) + length r"
    unfolding r by (metis length_append takeWhile_dropWhile_id)
  then have "length r < length s2" using u by (cases "takeWhile (\<lambda>c. \<not> number_char c) s2") simp_all
  then show ?thesis using duration_number_length [OF n] by simp
qed

function duration_items :: "string \<Rightarrow> nat \<Rightarrow> nat option" where
  "duration_items s d =
     (if s = [] then Some d
      else case duration_item s of
             None \<Rightarrow> None
           | Some (v, r) \<Rightarrow> if d + v > 2 ^ 63 then None else duration_items r (d + v))"
  by pat_completeness auto

termination
  by (relation "measure (length \<circ> fst)") (auto dest: duration_item_shorter)

declare duration_items.simps [simp del]

definition ParseDuration :: "string \<Rightarrow> int option" where
  "ParseDuration s =
     (let signed = (s \<noteq> [] \<and> hd s \<in> {CHR ''-'', CHR ''+''});
          neg = (signed \<and> hd s = CHR ''-'');
          s' = (if signed then tl s else s)
      in if s' = ''0'' then Some 0
         else if s' = [] then None
         else case duration_items s' 0 of
                None \<Rightarrow> None
              | Some d \<Rightarrow> if neg then Some (- int d) else if d > 2 ^ 63 - 1 then None else Some (int d))"

section \<open>Whole numbers of one unit\<close>

lemma foldl_digits_ge: "(x :: nat) \<le> foldl (\<lambda>a c. 10 * a + digit_val c) x ds"
proof (induction ds arbitrary: x)
  case (Cons d ds)
  have "x \<le> 10 * x + digit_val d" by simp
  also have "\<dots> \<le> foldl (\<lambda>a c. 10 * a + digit_val c) (10 * x + digit_val d) ds" by (rule Cons.IH)
  finally show ?case by simp
qed simp

lemma leadingInt_digits:
  assumes "\<forall>c \<in> set ds. is_digit c" and "foldl (\<lambda>a c. 10 * a + digit_val c) x ds \<le> 2 ^ 63"
    and "r = [] \<or> \<not> is_digit (hd r)"
  shows "leadingInt (ds @ r) x = Some (foldl (\<lambda>a c. 10 * a + digit_val c) x ds, r)"
  using assms(1,2)
proof (induction ds arbitrary: x)
  case Nil
  then show ?case using assms(3) by (cases r) simp_all
next
  case (Cons d ds)
  let ?x = "10 * x + digit_val d"
  have le: "?x \<le> 2 ^ 63"
    using order_trans [OF foldl_digits_ge [of ?x ds]] Cons.prems(2) by simp
  then have "x \<le> 2 ^ 63 div 10" by linarith
  then show ?case using Cons le by (simp add: Let_def)
qed

lemma leadingInt_itoa:
  "n \<le> 2 ^ 63 \<Longrightarrow> r = [] \<or> \<not> is_digit (hd r) \<Longrightarrow> leadingInt (itoa n @ r) 0 = Some (n, r)"
  using leadingInt_digits [of "itoa n" 0 r] itoa_digits [of _ n] dec_value_itoa [of n]
  by (simp add: dec_value_def)

lemma ParseDuration_whole:
  assumes "map_of time_units u = Some k" and "\<forall>c \<in> set u. \<not> number_char c" and "n * k < 2 ^ 63" and "0 < k"
  shows "ParseDuration (itoa n @ u) = Some (int (n * k))"
proof -
  have u: "u \<noteq> []" using assms(1) by (auto simp: time_units_def)
  obtain c s where c: "itoa n = c # s" "is_digit c" using itoa_Cons by blast
  have sign: "hd (itoa n @ u) \<notin> {CHR ''-'', CHR ''+''}" using c by (auto simp: is_digit_def)
  have nz: "itoa n @ u \<noteq> ''0''" using c u by (cases u) auto
  have hu: "\<not> is_digit (hd u)" "hd u \<noteq> CHR ''.''" using assms(2) u by (auto simp: number_char_def)
  have n: "n \<le> 2 ^ 63 div k" using assms(3,4) by (simp add: less_eq_div_iff_mult_less_eq)
  moreover have "2 ^ 63 div k \<le> (2 ^ 63 :: nat)" by (rule div_le_dividend)
  ultimately have "leadingInt (itoa n @ u) 0 = Some (n, u)" using hu by (intro leadingInt_itoa) linarith+
  then have dn: "duration_number (itoa n @ u) = Some (n, 0, 1, u)" using u hu c by (simp add: duration_number_def)
  have tw: "takeWhile (\<lambda>c. \<not> number_char c) u = u"
    by (rule takeWhile_eq_all_conv [THEN iffD2, OF assms(2)])
  have dw: "dropWhile (\<lambda>c. \<not> number_char c) u = []"
    by (rule dropWhile_eq_Nil_conv [THEN iffD2, OF assms(2)])
  have hd: "number_char (hd (itoa n))" using c by (simp add: number_char_def)
  have "duration_item (itoa n @ u) = Some (n * k, [])"
    using n u by (simp add: duration_item_def Let_def tw dw hd dn assms(1))
  then have "duration_items (itoa n @ u) 0 = Some (n * k)"
    using u assms(3) by (subst duration_items.simps) (simp add: duration_items.simps [of "[]"])
  then show ?thesis
    using sign nz u assms(3) unfolding ParseDuration_def Let_def by auto
qed

lemma ParseDuration_hours: "n \<le> 2562047 \<Longrightarrow> ParseDuration (itoa n @ ''h'') = Some (int n * 3600000000000)"
  using ParseDuration_whole [of "''h''" 3600000000000 n] by (simp add: time_units_def number_char_def is_digit_def)

end
