(* ===== verification/Backoff.thy ===== *)
theory Backoff
  imports Go_Time
begin

text \<open>
  \<open>internal/backoff/backoff.go\<close>: exponential backoff with jitter.

  The code computes in \<open>float64\<close>. All its values are non-negative multiples of 2^-53, so a float
  is represented by a natural number in a fixed unit: 1 ns for the delay before the jitter,
  2^-53 (ns) for the jitter and for the product. \<open>round53\<close> is the rounding of a float operation
  (to the nearest value with 53 significant bits, ties to even), so the model computes the code's
  result bit for bit. \<open>rand.Float64()\<close> is \<open>k / 2^53\<close> for the integer \<open>k < 2^53\<close> that the
  generator draws, a parameter here. The conversion to \<open>time.Duration\<close> of a value of 2^63 or
  more is implementation-defined in Go; it is the parameter \<open>ovf\<close>.

  The lemmas show monotonicity and exactness of the rounding, the bounds of the delay and when
  \<open>Next\<close> refuses.
\<close>

record backoff =
  attempt :: nat
  max_retries :: int
  max_interval :: int

text \<open>\<open>New\<close>\<close>

definition new_backoff :: "int \<Rightarrow> int \<Rightarrow> backoff" where
  "new_backoff maxRetries maxInterval =
     (let maxInterval = (if maxInterval \<le> 0 then 5 * minute else maxInterval)
      in \<lparr>attempt = 0, max_retries = maxRetries, max_interval = maxInterval\<rparr>)"

section \<open>Delays\<close>

text \<open>
  \<open>Next\<close>. \<open>float64(time.Second) * math.Pow(2, float64(b.attempt))\<close> is exact (30 significant
  bits); where Go's power overflows to infinity the comparison has the same outcome.
\<close>

definition capped_delay :: "backoff \<Rightarrow> nat" where
  "capped_delay b =
     (let delay = nat second * 2 ^ attempt b; cap = round53 (nat (max_interval b))
      in if delay > cap then cap else delay)"

definition jitter :: "nat \<Rightarrow> nat" where
  "jitter k = round53 (2 ^ 52 + k)"

definition to_duration :: "(nat \<Rightarrow> int) \<Rightarrow> nat \<Rightarrow> int" where
  "to_duration ovf u = (let d = u div 2 ^ 53 in if d < 2 ^ 63 then int d else ovf d)"

definition next_delay :: "(nat \<Rightarrow> int) \<Rightarrow> nat \<Rightarrow> backoff \<Rightarrow> (int \<times> bool) \<times> backoff" where
  "next_delay ovf k b =
     (if max_retries b > 0 \<and> int (attempt b) \<ge> max_retries b then ((0, False), b)
      else ((to_duration ovf (round53 (capped_delay b * jitter k)), True),
            b\<lparr>attempt := attempt b + 1\<rparr>))"

text \<open>\<open>Reset\<close>\<close>

definition reset_backoff :: "backoff \<Rightarrow> backoff" where
  "reset_backoff b = b\<lparr>attempt := 0\<rparr>"

section \<open>Bounds of the delay\<close>

lemma jitter_ge: "2 ^ 52 \<le> jitter k"
  using round53_mono [of "2 ^ 52" "2 ^ 52 + k"] round53_representable [of 1 52] by (simp add: jitter_def)

lemma jitter_le:
  assumes "k < 2 ^ 53"
  shows "jitter k \<le> 3 * 2 ^ 52"
proof -
  have "2 ^ 52 + k \<le> 3 * 2 ^ 52" using assms by simp
  from round53_mono [OF this] show ?thesis
    using round53_representable [of 3 52] by (simp add: jitter_def)
qed

lemma capped_delay_min:
  assumes "0 \<le> max_interval b" and "max_interval b < 2 ^ 53"
  shows "capped_delay b = min (nat second * 2 ^ attempt b) (nat (max_interval b))"
proof -
  have "nat (max_interval b) < 2 ^ 53" using assms by (simp add: nat_less_iff)
  then show ?thesis by (simp add: capped_delay_def round53_small Let_def min_def not_less)
qed

lemma product_bounds:
  assumes "k < 2 ^ 53" and "3 * D < 2 ^ 53"
  shows "D * 2 ^ 52 \<le> round53 (D * jitter k)" and "round53 (D * jitter k) \<le> 3 * D * 2 ^ 52"
proof -
  have "D * 2 ^ 52 \<le> D * jitter k" using jitter_ge by simp
  from round53_mono [OF this] show "D * 2 ^ 52 \<le> round53 (D * jitter k)"
    using round53_representable [of D 52] assms(2) by simp
  have "D * jitter k \<le> 3 * D * 2 ^ 52" using jitter_le [OF assms(1)] by (simp add: mult_le_mono2)
  from round53_mono [OF this] show "round53 (D * jitter k) \<le> 3 * D * 2 ^ 52"
    using round53_representable [of "3 * D" 52] assms(2) by simp
qed

lemma next_delay_range:
  assumes "next_delay ovf k b = ((d, True), b')" and "k < 2 ^ 53"
    and "0 < max_interval b" and "max_interval b \<le> 2 ^ 51"
  shows "int (capped_delay b div 2) \<le> d" and "2 * d \<le> 3 * int (capped_delay b)"
proof -
  let ?D = "capped_delay b" let ?p = "round53 (capped_delay b * jitter k)"
  have "?D \<le> nat (max_interval b)" using assms(3,4) by (simp add: capped_delay_min)
  then have D: "3 * ?D < 2 ^ 53" using assms(4) by simp
  have lo: "?D * 2 ^ 52 \<le> ?p" and hi: "?p \<le> 3 * ?D * 2 ^ 52" using product_bounds [OF assms(2) D] by auto
  have l: "?D div 2 \<le> ?p div 2 ^ 53"
    using div_le_mono [OF lo, of "2 ^ 53"] div_mult_mult2 [of "2 ^ 52" ?D 2] by (simp add: mult.commute)
  have h: "?p div 2 ^ 53 \<le> 3 * ?D div 2"
    using div_le_mono [OF hi, of "2 ^ 53"] div_mult_mult2 [of "2 ^ 52" "3 * ?D" 2] by (simp add: mult.commute)
  then have "d = int (?p div 2 ^ 53)"
    using assms(1) D by (auto simp: next_delay_def to_duration_def Let_def split: if_splits)
  with l h show "int (?D div 2) \<le> d" "2 * d \<le> 3 * int ?D" by linarith+
qed

section \<open>When Next refuses\<close>

lemma next_delay_ok_iff:
  "snd (fst (next_delay ovf k b)) \<longleftrightarrow> \<not> (0 < max_retries b \<and> max_retries b \<le> int (attempt b))"
  by (simp add: next_delay_def)

lemma next_delay_state:
  "snd (next_delay ovf k b) =
     (if snd (fst (next_delay ovf k b)) then b\<lparr>attempt := attempt b + 1\<rparr> else b)"
  by (simp add: next_delay_def)

text \<open>\<open>n\<close> calls in a row, with the draws \<open>rnd\<close>.\<close>

fun next_n :: "(nat \<Rightarrow> int) \<Rightarrow> (nat \<Rightarrow> nat) \<Rightarrow> nat \<Rightarrow> backoff \<Rightarrow> backoff" where
  "next_n ovf rnd 0 b = b"
| "next_n ovf rnd (Suc n) b = snd (next_delay ovf (rnd n) (next_n ovf rnd n b))"

lemma next_n_frame [simp]:
  "max_retries (next_n ovf rnd n b) = max_retries b" "max_interval (next_n ovf rnd n b) = max_interval b"
  by (induction n) (simp_all add: next_delay_state)

lemma next_n_attempt:
  "attempt b = 0 \<Longrightarrow>
   attempt (next_n ovf rnd n b) = (if 0 < max_retries b then min n (nat (max_retries b)) else n)"
  by (induction n) (auto simp: next_delay_state next_delay_ok_iff)

section \<open>Properties\<close>

text \<open>C0: When \<open>Next\<close> permits a retry, the delay lies between one half and three halves of the
  exponential delay capped by \<open>maxInterval\<close> (both computed in \<open>float64\<close>; for a cap of at most 2^51 ns,
  which is 26 days), the attempt is counted, and it refuses exactly when a limit is set and used up.\<close>

theorem backoff_next:
  assumes "k < 2 ^ 53" and "0 < max_interval b" and "max_interval b \<le> 2 ^ 51"
  shows "case next_delay ovf k b of
     ((d, True), b') \<Rightarrow>
       int (min (nat second * 2 ^ attempt b) (nat (max_interval b)) div 2) \<le> d \<and>
       2 * d \<le> 3 * int (min (nat second * 2 ^ attempt b) (nat (max_interval b))) \<and>
       b' = b\<lparr>attempt := attempt b + 1\<rparr> \<and> \<not> (0 < max_retries b \<and> max_retries b \<le> int (attempt b))
   | ((d, False), b') \<Rightarrow> b' = b \<and> 0 < max_retries b \<and> max_retries b \<le> int (attempt b)"
proof -
  obtain d ok b' where n: "next_delay ovf k b = ((d, ok), b')" by (metis prod.collapse)
  have c: "capped_delay b = min (nat second * 2 ^ attempt b) (nat (max_interval b))"
    using assms(2,3) by (intro capped_delay_min) simp_all
  show ?thesis
  proof (cases ok)
    case True
    with next_delay_range [of ovf k b d b'] assms n c show ?thesis
      using next_delay_ok_iff [of ovf k b] next_delay_state [of ovf k b] by simp
  next
    case False
    with n next_delay_ok_iff [of ovf k b] next_delay_state [of ovf k b] show ?thesis by simp
  qed
qed

lemma backoff_next_witness:
  "case next_delay (\<lambda>_. 0) 0 (new_backoff 3 0) of
     ((d, True), b') \<Rightarrow> 500000000 \<le> d \<and> 2 * d \<le> 3000000000 \<and> attempt b' = 1
   | ((d, False), b') \<Rightarrow> False"
  using backoff_next [of 0 "new_backoff 3 0" "\<lambda>_. 0"]
  by (simp add: new_backoff_def minute_def second_def split: prod.splits bool.splits)

text \<open>From a fresh backoff with limit \<open>n > 0\<close> exactly \<open>n\<close> calls of \<open>Next\<close> permit a retry, whatever the
  jitter; with a limit of 0 every call does.\<close>

lemma backoff_limit:
  "snd (fst (next_delay ovf (rnd m) (next_n ovf rnd m (new_backoff n iv)))) = (n \<le> 0 \<or> int m < n)"
  by (auto simp: next_delay_ok_iff next_n_attempt new_backoff_def Let_def min_def)

end
