(* ===== verification/Client_Dial.thy ===== *)
theory Client_Dial
  imports Backoff Mux_Proto Audit_Log Go_URL_Text
begin

text \<open>
  How the client reaches the server (\<open>internal/client\<close>: \<open>dial.go\<close>, \<open>client.go\<close>, \<open>session.go\<close>):
  \<open>Config\<close>, the options and the fingerprint check of \<open>dialWebSocket\<close>, the URLs of the endpoints,
  the retry loops and \<open>wrapConn\<close>.

  The WebSocket library is the argument \<open>ws\<close>: what a dial of a URL with given options returns, the
  connection and the fingerprint header of the response (\<open>None\<close> when there is no response).
\<close>

record client_config =
  cc_addr :: string
  cc_server_url :: string
  cc_token :: string
  cc_max_retry_count :: int
  cc_max_retry_interval :: int
  cc_fingerprint :: string
  cc_tls_cert :: string
  cc_tls_key :: string
  cc_mux :: bool

section \<open>Dialing once\<close>

record 'k dial_options =
  do_authorization :: "string option"
  do_certificate :: "'k option"

definition buildDialOptions :: "(string \<Rightarrow> string \<Rightarrow> 'k option) \<Rightarrow> client_config \<Rightarrow> 'k dial_options" where
  "buildDialOptions load cfg =
     \<lparr>do_authorization = (if cc_token cfg \<noteq> [] then Some (''Bearer '' @ cc_token cfg) else None),
      do_certificate =
        (if cc_tls_cert cfg \<noteq> [] \<and> cc_tls_key cfg \<noteq> [] then load (cc_tls_cert cfg) (cc_tls_key cfg) else None)\<rparr>"

datatype dial_error = WebSocketFailed | FingerprintMismatch string string | YamuxFailed

type_synonym ('k, 'c) websocket = "string \<Rightarrow> 'k dial_options \<Rightarrow> ('c \<times> string option) option"

definition dialWebSocket ::
    "(string \<Rightarrow> string \<Rightarrow> 'k option) \<Rightarrow> ('k, 'c) websocket \<Rightarrow> string \<Rightarrow> client_config \<Rightarrow> (dial_error, 'c) outcome" where
  "dialWebSocket load ws rawURL cfg =
     (case ws rawURL (buildDialOptions load cfg) of
        None \<Rightarrow> Err WebSocketFailed
      | Some (conn, resp) \<Rightarrow>
          (case resp of
             None \<Rightarrow> Ok conn
           | Some fp \<Rightarrow>
               if cc_fingerprint cfg \<noteq> [] \<and> fp \<noteq> cc_fingerprint cfg
               then Err (FingerprintMismatch fp (cc_fingerprint cfg))
               else Ok conn))"

section \<open>The URLs\<close>

text \<open>\<open>makeDialer\<close> keeps \<open>wss\<close> only; the other dialers take \<open>https\<close> for \<open>wss\<close> as well.\<close>

definition dialer_scheme :: "string \<Rightarrow> string" where
  "dialer_scheme s = (if s = ''wss'' then ''wss'' else ''ws'')"

definition other_scheme :: "string \<Rightarrow> string" where
  "other_scheme s = (if s = ''wss'' \<or> s = ''https'' then ''wss'' else ''ws'')"

definition with_target :: "string \<Rightarrow> go_url \<Rightarrow> go_url" where
  "with_target addr u =
     u\<lparr>u_path := ''/connect'',
       u_raw_query := values_encode (values_set ''target'' addr (parse_query (u_raw_query u)))\<rparr>"

definition makeDialer_url :: "go_url \<Rightarrow> string \<Rightarrow> go_url" where
  "makeDialer_url u addr = with_target addr (u\<lparr>u_scheme := dialer_scheme (u_scheme u)\<rparr>)"

definition dialServer_url :: "go_url \<Rightarrow> string \<Rightarrow> go_url" where
  "dialServer_url u target = with_target target (u\<lparr>u_scheme := other_scheme (u_scheme u)\<rparr>)"

definition mux_url :: "go_url \<Rightarrow> go_url" where
  "mux_url u = u\<lparr>u_scheme := other_scheme (u_scheme u), u_path := ''/mux''\<rparr>"

definition udp_url :: "go_url \<Rightarrow> go_url" where
  "udp_url u = u\<lparr>u_scheme := other_scheme (u_scheme u), u_path := ''/connect-udp''\<rparr>"

section \<open>Retrying\<close>

text \<open>
  The loop that the four dialers share. \<open>dial_at n\<close> is the outcome of attempt \<open>n\<close>, or \<open>None\<close> when this
  dial never returns (the contexts have no deadline); \<open>rnd n\<close> is the draw for the jitter after it, \<open>cancelled n\<close> says whether the context ends while the loop waits. With an
  unlimited number of retries the loop may run for ever, so it is a partial function. The result
  comes with the delays that were waited for, or about to be, in order.
\<close>

datatype ('e, 'a) retried = Connected 'a | Exhausted 'e | ContextDone

partial_function (option) retry ::
    "(nat \<Rightarrow> int) \<Rightarrow> (nat \<Rightarrow> nat) \<Rightarrow> (nat \<Rightarrow> bool) \<Rightarrow> (nat \<Rightarrow> ('e, 'a) outcome option) \<Rightarrow> nat \<Rightarrow> backoff \<Rightarrow>
     (('e, 'a) retried \<times> int list) option" where
  "retry ovf rnd cancelled dial_at n bo =
     (case dial_at n of
        None \<Rightarrow> None
      | Some Panic \<Rightarrow> None
      | Some (Ok x) \<Rightarrow> Some (Connected x, [])
      | Some (Err e) \<Rightarrow>
          (case next_delay ovf (rnd n) bo of
             ((delay, ok), bo') \<Rightarrow>
               if \<not> ok then Some (Exhausted e, [])
               else if cancelled n then Some (ContextDone, [delay])
               else Option.bind (retry ovf rnd cancelled dial_at (Suc n) bo')
                      (\<lambda>(r, ds). Some (r, delay # ds))))"

record env =
  ev_ovf :: "nat \<Rightarrow> int"
  ev_rnd :: "nat \<Rightarrow> nat"
  ev_cancelled :: "nat \<Rightarrow> bool"
  ev_hangs :: "nat \<Rightarrow> bool" \<comment> \<open>this dial never returns\<close>

definition with_backoff ::
    "env \<Rightarrow> client_config \<Rightarrow> (nat \<Rightarrow> ('e, 'a) outcome) \<Rightarrow> (('e, 'a) retried \<times> int list) option" where
  "with_backoff ev cfg dial_at =
     retry (ev_ovf ev) (ev_rnd ev) (ev_cancelled ev) (\<lambda>n. if ev_hangs ev n then None else Some (dial_at n)) 0
       (new_backoff (cc_max_retry_count cfg) (cc_max_retry_interval cfg))"

text \<open>The SOCKS5 dialer, the CONNECT proxy's, the session's and the datagram relay's; \<open>ws n\<close> is the
  library at attempt \<open>n\<close>. The relay sleeps without a context.\<close>

definition makeDialer where
  "makeDialer load ws ev u cfg addr =
     with_backoff ev cfg (\<lambda>n. dialWebSocket load (ws n) (url_string (makeDialer_url u addr)) cfg)"

definition dialServer where
  "dialServer load ws ev u cfg target =
     with_backoff ev cfg (\<lambda>n. dialWebSocket load (ws n) (url_string (dialServer_url u target)) cfg)"

definition tryDialMux ::
    "(string \<Rightarrow> string \<Rightarrow> 'k option) \<Rightarrow> ('k, 'c) websocket \<Rightarrow> ('c \<Rightarrow> 's option) \<Rightarrow> go_url \<Rightarrow> client_config \<Rightarrow>
     (dial_error, 's) outcome" where
  "tryDialMux load ws yamux u cfg =
     obind (dialWebSocket load ws (url_string (mux_url u)) cfg) (\<lambda>conn.
       case yamux conn of None \<Rightarrow> Err YamuxFailed | Some s \<Rightarrow> Ok s)"

definition dialMuxSession where
  "dialMuxSession load ws yamux ev u cfg =
     with_backoff ev cfg (\<lambda>n. tryDialMux load (ws n) (yamux n) u cfg)"

definition dialUDP where
  "dialUDP load ws ev u cfg =
     with_backoff (ev\<lparr>ev_cancelled := (\<lambda>_. False)\<rparr>) cfg
       (\<lambda>n. dialWebSocket load (ws n) (url_string (udp_url u)) cfg)"

section \<open>The address of a wrapped connection\<close>

text \<open>The IP address and the port of the \<open>*net.TCPAddr\<close> that \<open>RemoteAddr\<close> returns.\<close>

definition wrapConn :: "(string \<Rightarrow> string list option) \<Rightarrow> string \<Rightarrow> bytes \<times> int" where
  "wrapConn lookup addr =
     (let (host, portStr) = (case split_host_port addr of Ok hp \<Rightarrow> hp | _ \<Rightarrow> ([], []));
          remoteIP =
            (case parse_ip host of
               Some resolved \<Rightarrow> resolved
             | None \<Rightarrow>
                 (case lookup host of
                    Some (a # _) \<Rightarrow>
                      (case parse_ip a of Some ip \<Rightarrow> ip | None \<Rightarrow> v4_prefix @ [0, 0, 0, 0])
                  | _ \<Rightarrow> v4_prefix @ [0, 0, 0, 0]))
      in (remoteIP, fst (atoi portStr)))"

definition tcpAddrConn_LocalAddr :: "bytes \<times> int" where
  "tcpAddrConn_LocalAddr = (v4_prefix @ [127, 0, 0, 1], 0)"

section \<open>Facts about the URLs\<close>

definition client_urls :: "go_url \<Rightarrow> string \<Rightarrow> go_url set" where
  "client_urls u addr = {makeDialer_url u addr, dialServer_url u addr, mux_url u, udp_url u}"

lemma client_urls_shape:
  assumes "u' \<in> client_urls u addr"
  shows "u_scheme u' \<in> {''ws'', ''wss''}" "u_host u' = u_host u"
    "u_path u' \<in> {''/connect'', ''/mux'', ''/connect-udp''}"
  using assms
  by (auto simp: client_urls_def makeDialer_url_def dialServer_url_def with_target_def mux_url_def udp_url_def
      dialer_scheme_def other_scheme_def)

lemma url_ok_client_urls:
  assumes "url_ok u" and "u' \<in> client_urls u addr"
  shows "url_ok u'"
proof -
  have "u_opaque u' = u_opaque u \<and> u_host u' = u_host u \<and> u_raw_path u' = u_raw_path u"
    using assms(2)
    by (auto simp: client_urls_def makeDialer_url_def dialServer_url_def with_target_def mux_url_def udp_url_def)
  moreover have "u_raw_query u' = u_raw_query u \<or> (\<exists>vs. u_raw_query u' = values_encode vs)"
    using assms(2)
    by (auto simp: client_urls_def makeDialer_url_def dialServer_url_def with_target_def mux_url_def udp_url_def)
  ultimately show ?thesis
    using assms(1) values_encode_chars unfolding url_ok_def by metis
qed

text \<open>The text that a dialer hands to the WebSocket library is read as the URL that it stands for.\<close>

lemma client_url_text:
  assumes "url_ok u" and "u' \<in> client_urls u addr"
  shows "\<exists>v. url_parse (url_string u') = Some v \<and> same_endpoint u' v \<and> url_ok v"
proof -
  have "u_path u' \<noteq> [] \<and> hd (u_path u') = CHR ''/''" using client_urls_shape(3) [OF assms(2)] by auto
  then show ?thesis using url_parse_string url_ok_client_urls [OF assms] client_urls_shape(1) [OF assms(2)] by blast
qed

section \<open>Facts about dialing\<close>

lemma dialWebSocket_pinned:
  assumes "dialWebSocket load ws u cfg = Ok conn" and "cc_fingerprint cfg \<noteq> []"
  shows "\<exists>resp. ws u (buildDialOptions load cfg) = Some (conn, resp) \<and> resp \<in> {None, Some (cc_fingerprint cfg)}"
  using assms by (auto simp: dialWebSocket_def split: option.splits if_splits)

lemma dialWebSocket_not_Panic [simp]: "dialWebSocket load ws u cfg \<noteq> Panic"
  by (auto simp: dialWebSocket_def split: option.splits)

lemma tryDialMux_not_Panic [simp]: "tryDialMux load ws yamux u cfg \<noteq> Panic"
  by (auto simp: tryDialMux_def outcome_simps split: option.splits)

lemma target_of_url:
  "values_get ''target'' (parse_query (u_raw_query (with_target addr u))) = addr"
  by (simp add: with_target_def get_set_encode)

lemma length_wrapConn_ip: "length (fst (wrapConn lookup addr)) = 16"
  by (auto simp: wrapConn_def parse_ip_length Let_def split: option.split list.split outcome.split)

section \<open>Facts about retrying\<close>

text \<open>The retries that the backoff still allows.\<close>

definition allows :: "backoff \<Rightarrow> nat \<Rightarrow> bool" where
  "allows bo k \<longleftrightarrow> \<not> (0 < max_retries bo \<and> max_retries bo < int (attempt bo + k))"

lemma next_delay_allowed:
  assumes "allows bo (Suc k)"
  shows "\<exists>d. next_delay ovf r bo = ((d, True), bo\<lparr>attempt := attempt bo + 1\<rparr>)"
    and "allows (bo\<lparr>attempt := attempt bo + 1\<rparr>) k"
  using assms by (auto simp: allows_def next_delay_def)

text \<open>The loop connects at the first attempt that succeeds, if the retries last that long.\<close>

lemma retry_connects:
  assumes "dial_at (n + k) = Some (Ok x)" and "\<forall>i < k. \<exists>e. dial_at (n + i) = Some (Err e)"
    and "\<forall>i < k. \<not> cancelled (n + i)" and "allows bo k"
  shows "\<exists>ds. retry ovf rnd cancelled dial_at n bo = Some (Connected x, ds) \<and> length ds = k"
  using assms
proof (induction k arbitrary: n bo)
  case 0
  then show ?case by (subst retry.simps) simp
next
  case (Suc k)
  obtain e where e: "dial_at n = Some (Err e)" using Suc.prems(2) by fastforce
  obtain d where d: "next_delay ovf (rnd n) bo = ((d, True), bo\<lparr>attempt := attempt bo + 1\<rparr>)"
    using next_delay_allowed(1) [OF Suc.prems(4)] by blast
  have "\<exists>ds. retry ovf rnd cancelled dial_at (Suc n) (bo\<lparr>attempt := attempt bo + 1\<rparr>) = Some (Connected x, ds) \<and>
      length ds = k"
  proof (rule Suc.IH)
    show "dial_at (Suc n + k) = Some (Ok x)" using Suc.prems(1) by simp
    show "\<forall>i < k. \<exists>e. dial_at (Suc n + i) = Some (Err e)" using Suc.prems(2) by (metis Suc_less_eq add_Suc_shift)
    show "\<forall>i < k. \<not> cancelled (Suc n + i)" using Suc.prems(3) by (metis Suc_less_eq add_Suc_shift)
    show "allows (bo\<lparr>attempt := attempt bo + 1\<rparr>) k" by (rule next_delay_allowed(2) [OF Suc.prems(4)])
  qed
  then obtain ds where ds: "retry ovf rnd cancelled dial_at (Suc n) (bo\<lparr>attempt := attempt bo + 1\<rparr>) =
      Some (Connected x, ds)" "length ds = k" by blast
  have "\<not> cancelled n" using Suc.prems(3) by fastforce
  then have "retry ovf rnd cancelled dial_at n bo = Some (Connected x, d # ds)"
    using e d ds by (subst retry.simps) simp
  then show ?case using ds(2) by auto
qed

text \<open>With a limit on the retries the loop ends, after at most one attempt more than the limit.\<close>

lemma retry_total:
  assumes "0 < max_retries bo" and "\<And>i. dial_at i \<noteq> None" and "\<And>i. dial_at i \<noteq> Some Panic"
  shows "\<exists>r ds. retry ovf rnd cancelled dial_at n bo = Some (r, ds) \<and>
    length ds \<le> nat (max_retries bo) - attempt bo"
proof -
  have round: "(\<exists>x. dial_at i = Some (Ok x)) \<or> (\<exists>e. dial_at i = Some (Err e))" for i
    using assms(2,3) [of i] by (cases "dial_at i") (auto intro: outcome.exhaust)
  show ?thesis
    using assms(1)
  proof (induction "nat (max_retries bo) - attempt bo" arbitrary: n bo)
    case 0
    then have "next_delay ovf (rnd n) bo = ((0, False), bo)" by (auto simp: next_delay_def)
    then show ?case
      using round [of n] by (subst retry.simps) auto
  next
    case (Suc m)
    let ?b = "bo\<lparr>attempt := attempt bo + 1\<rparr>"
    have "allows bo (Suc 0)" using Suc.hyps(2) Suc.prems by (auto simp: allows_def)
    then obtain d where d: "next_delay ovf (rnd n) bo = ((d, True), ?b)"
      using next_delay_allowed(1) by blast
    have "m = nat (max_retries ?b) - attempt ?b" using Suc.hyps(2) by simp
    from Suc.hyps(1) [OF this] Suc.prems
    obtain r ds where "retry ovf rnd cancelled dial_at (Suc n) ?b = Some (r, ds)"
      "length ds \<le> nat (max_retries bo) - (attempt bo + 1)"
      by (metis backoff.select_convs(1) backoff.select_convs(2) backoff.simps(4) backoff.simps(5)
          backoff.update_convs(1) backoff.surjective)
    then show ?case
      using round [of n] d Suc.hyps(2) by (subst retry.simps) auto
  qed
qed

text \<open>The first round of a loop that returns after waiting.\<close>

lemma retry_Cons:
  assumes "retry ovf rnd cancelled dial_at n bo = Some (r, d # ds)"
  shows "\<exists>e. dial_at n = Some (Err e)"
    and "next_delay ovf (rnd n) bo = ((d, True), bo\<lparr>attempt := attempt bo + 1\<rparr>)"
    and "cancelled n \<and> r = ContextDone \<and> ds = [] \<or>
         retry ovf rnd cancelled dial_at (Suc n) (bo\<lparr>attempt := attempt bo + 1\<rparr>) = Some (r, ds)"
proof -
  from assms obtain e where e: "dial_at n = Some (Err e)"
    by (subst (asm) retry.simps) (auto split: outcome.splits option.splits)
  obtain d' ok bo' where nd: "next_delay ovf (rnd n) bo = ((d', ok), bo')" by (metis prod.collapse)
  have ok: ok
  proof (rule ccontr)
    assume "\<not> ok"
    with assms e nd show False by (subst (asm) retry.simps) simp
  qed
  then have b: "bo' = bo\<lparr>attempt := attempt bo + 1\<rparr>"
    using nd next_delay_state [of ovf "rnd n" bo] by simp
  have un: "retry ovf rnd cancelled dial_at n bo =
      (if cancelled n then Some (ContextDone, [d'])
       else Option.bind (retry ovf rnd cancelled dial_at (Suc n) bo') (\<lambda>(r, ds). Some (r, d' # ds)))"
    using e nd ok by (subst retry.simps) simp
  show "\<exists>e. dial_at n = Some (Err e)" using e by blast
  show "next_delay ovf (rnd n) bo = ((d, True), bo\<lparr>attempt := attempt bo + 1\<rparr>)"
    using un assms nd ok b by (auto split: if_splits bind_splits)
  show "cancelled n \<and> r = ContextDone \<and> ds = [] \<or>
         retry ovf rnd cancelled dial_at (Suc n) (bo\<lparr>attempt := attempt bo + 1\<rparr>) = Some (r, ds)"
    using un assms b by (auto split: if_splits bind_splits)
qed

text \<open>What a loop that returns has done.\<close>

definition retry_post ::
    "(nat \<Rightarrow> bool) \<Rightarrow> (nat \<Rightarrow> ('e, 'a) outcome option) \<Rightarrow> nat \<Rightarrow> backoff \<Rightarrow> ('e, 'a) retried \<Rightarrow> nat \<Rightarrow> bool" where
  "retry_post cancelled dial_at n bo r k \<longleftrightarrow>
     (\<forall>i < k. \<exists>e. dial_at (n + i) = Some (Err e)) \<and>
     (case r of
        Connected x \<Rightarrow> dial_at (n + k) = Some (Ok x)
      | Exhausted e \<Rightarrow> dial_at (n + k) = Some (Err e) \<and> \<not> allows bo (Suc k)
      | ContextDone \<Rightarrow> 0 < k \<and> cancelled (n + k - 1))"

lemma retry_SomeD:
  "retry ovf rnd cancelled dial_at n bo = Some (r, ds) \<Longrightarrow> retry_post cancelled dial_at n bo r (length ds)"
proof (induction ds arbitrary: n bo)
  case Nil
  then show ?case
    by (subst (asm) retry.simps)
      (auto simp: retry_post_def allows_def next_delay_def split: outcome.splits option.splits prod.splits if_splits bind_splits)
next
  case (Cons d ds)
  let ?b = "bo\<lparr>attempt := attempt bo + 1\<rparr>"
  obtain e where e: "dial_at n = Some (Err e)" using retry_Cons(1) [OF Cons.prems] by blast
  from retry_Cons(3) [OF Cons.prems] consider
      "cancelled n" "r = ContextDone" "ds = []" | "retry ovf rnd cancelled dial_at (Suc n) ?b = Some (r, ds)"
    by blast
  then show ?case
  proof cases
    case 1
    then show ?thesis using e by (simp add: retry_post_def)
  next
    case 2
    from Cons.IH [OF this] have post: "retry_post cancelled dial_at (Suc n) ?b r (length ds)" .
    then have "\<forall>i < Suc (length ds). \<exists>e. dial_at (n + i) = Some (Err e)"
      using e unfolding retry_post_def by (metis add.right_neutral add_Suc_shift less_Suc_eq_0_disj)
    then show ?thesis
      using post by (cases r) (auto simp: retry_post_def allows_def)
  qed
qed

text \<open>Without a limit and without a success the loop does not return.\<close>

lemma retry_diverges:
  assumes "max_retries bo \<le> 0" and "\<And>i. \<exists>e. dial_at i = Some (Err e)" and "\<And>i. \<not> cancelled i"
  shows "retry ovf rnd cancelled dial_at n bo = None"
proof (rule ccontr)
  assume "retry ovf rnd cancelled dial_at n bo \<noteq> None"
  then obtain r ds where "retry ovf rnd cancelled dial_at n bo = Some (r, ds)" by fastforce
  from retry_SomeD [OF this] assms show False
    by (cases r) (auto simp: retry_post_def allows_def, metis option.inject outcome.distinct(1))
qed

text \<open>The delays are those of the backoff, one attempt after the other.\<close>

lemma retry_delays:
  "retry ovf rnd cancelled dial_at n bo = Some (r, ds) \<Longrightarrow> i < length ds \<Longrightarrow>
     ((ds ! i, True), bo\<lparr>attempt := attempt bo + i + 1\<rparr>) =
       next_delay ovf (rnd (n + i)) (bo\<lparr>attempt := attempt bo + i\<rparr>)"
proof (induction ds arbitrary: n bo i)
  case (Cons d ds)
  let ?b = "bo\<lparr>attempt := attempt bo + 1\<rparr>"
  note round = retry_Cons [OF Cons.prems(1)]
  show ?case
  proof (cases i)
    case 0
    then show ?thesis using round(2) by simp
  next
    case (Suc j)
    with Cons.prems have "j < length ds" by simp
    moreover from this round(3) have "retry ovf rnd cancelled dial_at (Suc n) ?b = Some (r, ds)" by auto
    ultimately show ?thesis using Cons.IH [of "Suc n" ?b j] Suc by simp
  qed
qed simp

lemma dialWebSocket_no_panic: "dialWebSocket load w v cfg \<noteq> Panic"
  by (auto simp: dialWebSocket_def split: option.splits)

lemma with_backoff_total:
  assumes "0 < cc_max_retry_count cfg" and "\<And>i. f i \<noteq> Panic" and "\<And>i. \<not> ev_hangs e i"
  shows "\<exists>r ds. with_backoff e cfg f = Some (r, ds) \<and> length ds \<le> nat (cc_max_retry_count cfg)"
  using retry_total [of "new_backoff (cc_max_retry_count cfg) (cc_max_retry_interval cfg)"
      "\<lambda>n. if ev_hangs e n then None else Some (f n)"] assms
  unfolding with_backoff_def by (simp add: new_backoff_def Let_def)

section \<open>Properties\<close>

text \<open>C21: With a limit on the retries each of the four dialers of the client returns, after at most that many
  delays, whatever the server answers and the context does, as long as each single dial of the WebSocket
  library returns. A dial that does not return is not given up: then the dialers do not return either.\<close>

theorem dialers_return:
  assumes "0 < cc_max_retry_count cfg" and "\<forall>n. \<not> ev_hangs ev n"
  shows "\<exists>r1 d1 r2 d2 r3 d3 r4 d4.
     makeDialer load ws ev u cfg addr = Some (r1, d1) \<and> dialServer load ws ev u cfg addr = Some (r2, d2) \<and>
     dialMuxSession load ws yamux ev u cfg = Some (r3, d3) \<and> dialUDP load ws ev u cfg = Some (r4, d4) \<and>
     (\<forall>d. d \<in> {d1, d2, d3, d4} \<longrightarrow> length d \<le> nat (cc_max_retry_count cfg))"
proof -
  have tries: "dialWebSocket load w v cfg \<noteq> Panic" "tryDialMux load w y u cfg \<noteq> Panic" for w v y
    using dialWebSocket_no_panic [of load w] by (auto simp: tryDialMux_def obind_def split: outcome.splits option.splits)
  have total: "\<exists>r ds. with_backoff e cfg f = Some (r, ds) \<and> length ds \<le> nat (cc_max_retry_count cfg)"
    if "\<And>i. f i \<noteq> Panic" and "ev_hangs e = ev_hangs ev" for e f
    using with_backoff_total [OF assms(1) that(1)] assms(2) that(2) by simp
  obtain r1 d1 where 1: "makeDialer load ws ev u cfg addr = Some (r1, d1)" "length d1 \<le> nat (cc_max_retry_count cfg)"
    unfolding makeDialer_def using total [of "\<lambda>n. dialWebSocket load (ws n) (url_string (makeDialer_url u addr)) cfg" ev] tries(1) by auto
  obtain r2 d2 where 2: "dialServer load ws ev u cfg addr = Some (r2, d2)" "length d2 \<le> nat (cc_max_retry_count cfg)"
    unfolding dialServer_def using total [of "\<lambda>n. dialWebSocket load (ws n) (url_string (dialServer_url u addr)) cfg" ev] tries(1) by auto
  obtain r3 d3 where 3: "dialMuxSession load ws yamux ev u cfg = Some (r3, d3)" "length d3 \<le> nat (cc_max_retry_count cfg)"
    unfolding dialMuxSession_def using total [of "\<lambda>n. tryDialMux load (ws n) (yamux n) u cfg" ev] tries(2) by auto
  obtain r4 d4 where 4: "dialUDP load ws ev u cfg = Some (r4, d4)" "length d4 \<le> nat (cc_max_retry_count cfg)"
    unfolding dialUDP_def using total [of "\<lambda>n. dialWebSocket load (ws n) (url_string (udp_url u)) cfg" "ev\<lparr>ev_cancelled := (\<lambda>_. False)\<rparr>"] tries(1) by auto
  show ?thesis using 1 2 3 4 by auto
qed

definition demo_client :: client_config where
  "demo_client =
     \<lparr>cc_addr = ''127.0.0.1:1080'', cc_server_url = ''wss://relay'', cc_token = ''b'', cc_max_retry_count = 2,
      cc_max_retry_interval = 0, cc_fingerprint = ''fp'', cc_tls_cert = [], cc_tls_key = [], cc_mux = False\<rparr>"

definition demo_env :: env where
  "demo_env = \<lparr>ev_ovf = (\<lambda>_. 0), ev_rnd = (\<lambda>_. 0), ev_cancelled = (\<lambda>_. False), ev_hangs = (\<lambda>_. False)\<rparr>"

definition demo_url :: go_url where
  "demo_url = empty_url\<lparr>u_scheme := ''wss'', u_host := ''relay''\<rparr>"

lemma dialers_return_witness:
  "\<exists>r ds. makeDialer (\<lambda>_ _. None :: unit option) (\<lambda>_ _ _. None :: (unit \<times> string option) option) demo_env demo_url
            demo_client ''10.0.0.1:22'' = Some (r, ds) \<and> length ds \<le> 2"
  using dialers_return [of demo_client demo_env "\<lambda>_ _. None :: unit option" "\<lambda>_ _ _. None :: (unit \<times> string option) option"
      demo_url "''10.0.0.1:22''" "\<lambda>_ _. None :: unit option"]
  by (auto simp: demo_client_def demo_env_def)

text \<open>A dial that never returns blocks the dialer, limit or not.\<close>

lemma hanging_dial_blocks:
  assumes "ev_hangs ev 0"
  shows "makeDialer load ws ev u cfg addr = None" "dialServer load ws ev u cfg addr = None"
    "dialMuxSession load ws yamux ev u cfg = None" "dialUDP load ws ev u cfg = None"
  using assms unfolding makeDialer_def dialServer_def dialMuxSession_def dialUDP_def with_backoff_def
  by (subst retry.simps; simp)+

text \<open>C22: A dialer that returns a connection has pinned the server: the response of the attempt that
  succeeded carried the configured fingerprint (or there was no response to look at), the request carried
  the bearer token, and every attempt before it had failed and was followed by the backoff's delay.\<close>

theorem connection_is_pinned:
  assumes "makeDialer load ws ev u cfg addr = Some (Connected conn, ds)" and "cc_fingerprint cfg \<noteq> []"
  shows "\<exists>resp. ws (length ds) (url_string (makeDialer_url u addr)) (buildDialOptions load cfg) = Some (conn, resp) \<and>
    resp \<in> {None, Some (cc_fingerprint cfg)} \<and>
    (\<forall>i. i < length ds \<longrightarrow> (\<exists>e. dialWebSocket load (ws i) (url_string (makeDialer_url u addr)) cfg = Err e) \<and>
       ((ds ! i, True), \<lparr>attempt = i + 1, max_retries = cc_max_retry_count cfg,
           max_interval = max_interval (new_backoff (cc_max_retry_count cfg) (cc_max_retry_interval cfg))\<rparr>) =
       next_delay (ev_ovf ev) (ev_rnd ev i)
         \<lparr>attempt = i, max_retries = cc_max_retry_count cfg,
          max_interval = max_interval (new_backoff (cc_max_retry_count cfg) (cc_max_retry_interval cfg))\<rparr>)"
proof -
  let ?bo = "new_backoff (cc_max_retry_count cfg) (cc_max_retry_interval cfg)"
  let ?dial = "\<lambda>n. dialWebSocket load (ws n) (url_string (makeDialer_url u addr)) cfg"
  let ?dial_at = "\<lambda>n. if ev_hangs ev n then None else Some (?dial n)"
  have r: "retry (ev_ovf ev) (ev_rnd ev) (ev_cancelled ev) ?dial_at 0 ?bo = Some (Connected conn, ds)"
    using assms(1) by (simp add: makeDialer_def with_backoff_def)
  have "retry_post (ev_cancelled ev) ?dial_at 0 ?bo (Connected conn) (length ds)" by (rule retry_SomeD [OF r])
  then have post: "?dial (length ds) = Ok conn" "\<forall>i < length ds. \<exists>e. ?dial i = Err e"
    by (auto simp: retry_post_def split: if_splits)
  have bo: "?bo\<lparr>attempt := k\<rparr> = \<lparr>attempt = k, max_retries = cc_max_retry_count cfg, max_interval = max_interval ?bo\<rparr>"
    and "attempt ?bo = 0" for k by (simp_all add: new_backoff_def Let_def)
  then have "((ds ! i, True), ?bo\<lparr>attempt := i + 1\<rparr>) = next_delay (ev_ovf ev) (ev_rnd ev i) (?bo\<lparr>attempt := i\<rparr>)"
    if "i < length ds" for i using retry_delays [OF r that] by simp
  then show ?thesis
    using dialWebSocket_pinned [OF post(1) assms(2)] post(2) unfolding bo by blast
qed

definition demo_ws :: "(unit, nat) websocket" where
  "demo_ws u opts = (if do_authorization opts = Some ''Bearer b'' then Some (7, Some ''fp'') else None)"

lemma demo_dial:
  "makeDialer (\<lambda>_ _. None) (\<lambda>_. demo_ws) demo_env demo_url demo_client ''10.0.0.1:22'' = Some (Connected 7, [])"
  unfolding makeDialer_def with_backoff_def
  by (subst retry.simps) (simp add: dialWebSocket_def demo_ws_def buildDialOptions_def demo_client_def demo_env_def)

lemma connection_is_pinned_witness:
  "\<exists>resp. demo_ws (url_string (makeDialer_url demo_url ''10.0.0.1:22'')) (buildDialOptions (\<lambda>_ _. None) demo_client) = Some (7, resp) \<and>
     resp \<in> {None, Some ''fp''}"
  using connection_is_pinned [OF demo_dial] by (simp add: demo_client_def)

text \<open>A fingerprint mismatch is retried like any other failure: with the default, unlimited number of
  retries a client that reaches a server with another key never gives up and never reports it.\<close>

lemma mismatch_never_returns:
  assumes "cc_max_retry_count cfg \<le> 0" and "cc_fingerprint cfg \<noteq> []"
    and "\<forall>n opts. \<exists>conn fp. ws n (url_string (makeDialer_url u addr)) opts = Some (conn, Some fp) \<and> fp \<noteq> cc_fingerprint cfg"
    and "\<forall>n. \<not> ev_cancelled ev n" and "\<forall>n. \<not> ev_hangs ev n"
  shows "makeDialer load ws ev u cfg addr = None"
proof -
  have "\<exists>e. dialWebSocket load (ws n) (url_string (makeDialer_url u addr)) cfg = Err e" for n
  proof -
    obtain conn fp where "ws n (url_string (makeDialer_url u addr)) (buildDialOptions load cfg) = Some (conn, Some fp)"
      "fp \<noteq> cc_fingerprint cfg" using assms(3) by blast
    then show ?thesis using assms(2) by (simp add: dialWebSocket_def)
  qed
  then show ?thesis
    unfolding makeDialer_def with_backoff_def
    using assms(1,4,5) by (intro retry_diverges) (simp_all add: new_backoff_def Let_def)
qed

end
