(* ===== verification/Client_Proxy.thy ===== *)
theory Client_Proxy
  imports Client_Dial
begin

text \<open>
  The HTTP CONNECT proxy of \<open>internal/client/connect.go\<close> and the datagram relay of
  \<open>internal/client/udp.go\<close>.
\<close>

section \<open>The CONNECT proxy\<close>

datatype proxy_event =
    PRespond nat string
  | PLogged log_record
  | PRelayed
  | PClosedServer

definition proxy_log :: "level \<Rightarrow> string \<Rightarrow> (string \<times> attr_value) list \<Rightarrow> proxy_event" where
  "proxy_log l m as = PLogged \<lparr>lr_level = l, lr_message = m, lr_attrs = as\<rparr>"

text \<open>A warning for each delay that \<open>dialServer\<close> waited for.\<close>

definition retry_warnings :: "string \<Rightarrow> int list \<Rightarrow> proxy_event list" where
  "retry_warnings target ds =
     map (\<lambda>d. proxy_log LWarn ''dial failed, retrying'' [(''target'', AStr target), (''delay'', AInt d)]) ds"

text \<open>\<open>dialed\<close> is what \<open>dialServer\<close> returns for the target, \<open>None\<close> if it never does.\<close>

definition handleConnect ::
    "(string \<Rightarrow> ((dial_error, 'c) retried \<times> int list) option) \<Rightarrow> bool \<Rightarrow> bool \<Rightarrow> string \<Rightarrow> proxy_event list option" where
  "handleConnect dialed hijacker hijack target =
     (if target = [] then Some [PRespond 400 ''missing target host'']
      else case dialed target of
             None \<Rightarrow> None
           | Some (Connected c, ds) \<Rightarrow>
               Some (retry_warnings target ds @ [PRespond 200 []] @
                 (if \<not> hijacker then [proxy_log LError ''hijack not supported'' [], PClosedServer]
                  else if \<not> hijack then [proxy_log LError ''hijack failed'' [], PClosedServer]
                  else [PRelayed]))
           | Some (_, ds) \<Rightarrow>
               Some (retry_warnings target ds @
                 [proxy_log LError ''websocket dial failed'' [(''target'', AStr target)],
                  PRespond 502 ''tunnel dial failed'']))"

definition proxy_ServeHTTP ::
    "(string \<Rightarrow> ((dial_error, 'c) retried \<times> int list) option) \<Rightarrow> bool \<Rightarrow> bool \<Rightarrow> string \<Rightarrow> string \<Rightarrow> proxy_event list option" where
  "proxy_ServeHTTP dialed hijacker hijack meth host =
     (if meth = ''CONNECT'' then handleConnect dialed hijacker hijack host
      else Some [PRespond 405 ''only CONNECT method is supported''])"

text \<open>\<open>200\<close> is only sent once the server's WebSocket is up.\<close>

lemma proxy_200:
  assumes "proxy_ServeHTTP dialed hijacker hijack meth host = Some es" and "PRespond 200 b \<in> set es"
  shows "meth = ''CONNECT'' \<and> host \<noteq> [] \<and> (\<exists>c ds. dialed host = Some (Connected c, ds))"
  using assms
  by (auto simp: proxy_ServeHTTP_def handleConnect_def retry_warnings_def proxy_log_def
      split: if_splits option.splits prod.splits retried.splits)

section \<open>The datagram relay\<close>

text \<open>
  The state that the two goroutines share. An input is a datagram from a local client (with the
  outcome of the WebSocket write), the error that ends \<open>Run\<close>, a message from the server, or the
  error that ends \<open>readFromServer\<close>. \<open>limit\<close> is the read limit of the WebSocket library, which the
  program does not set: reading a longer message fails, and the loop ends.
\<close>

record udp_relay =
  re_client :: "string option"
  re_running :: bool
  re_reading :: bool

datatype relay_input = LocalDatagram string bytes bool | LocalError | ServerMessage bytes | ServerError

datatype relay_output = ToServer bytes | ToClient string bytes | RelayLogged log_record

definition NewUDPRelay :: udp_relay where
  "NewUDPRelay = \<lparr>re_client = None, re_running = True, re_reading = True\<rparr>"

fun relay_round :: "nat \<Rightarrow> relay_input \<Rightarrow> udp_relay \<Rightarrow> relay_output list \<times> udp_relay" where
  "relay_round limit (LocalDatagram addr d ok) s =
     (if \<not> re_running s then ([], s)
      else let s' = s\<lparr>re_client := Some addr\<rparr>
           in if ok then ([ToServer (take 65535 d)], s')
              else ([RelayLogged \<lparr>lr_level = LError, lr_message = ''websocket write failed'', lr_attrs = []\<rparr>],
                    s'\<lparr>re_running := False\<rparr>))"
| "relay_round limit LocalError s = ([], s\<lparr>re_running := False\<rparr>)"
| "relay_round limit (ServerMessage msg) s =
     (if \<not> re_reading s then ([], s)
      else if limit < length msg then ([], s\<lparr>re_reading := False\<rparr>)
      else case re_client s of
             None \<Rightarrow> ([], s)
           | Some addr \<Rightarrow> ([ToClient addr msg], s))"
| "relay_round limit ServerError s = ([], s\<lparr>re_reading := False\<rparr>)"

fun relay_rounds :: "nat \<Rightarrow> relay_input list \<Rightarrow> udp_relay \<Rightarrow> relay_output list \<times> udp_relay" where
  "relay_rounds limit [] s = ([], s)"
| "relay_rounds limit (i # ins) s =
     (case relay_round limit i s of
        (os, s') \<Rightarrow> (case relay_rounds limit ins s' of (os', s'') \<Rightarrow> (os @ os', s'')))"

text \<open>\<open>Close\<close> closes both sockets, so that the next read of each goroutine fails.\<close>

definition relay_close :: "udp_relay \<Rightarrow> udp_relay" where
  "relay_close s = s\<lparr>re_running := False, re_reading := False\<rparr>"

text \<open>The address that sent last.\<close>

fun last_sender :: "relay_input list \<Rightarrow> string option \<Rightarrow> string option" where
  "last_sender [] a = a"
| "last_sender (LocalDatagram addr d ok # ins) a = last_sender ins (Some addr)"
| "last_sender (LocalError # ins) a = last_sender ins a"
| "last_sender (ServerMessage m # ins) a = last_sender ins a"
| "last_sender (ServerError # ins) a = last_sender ins a"

lemma relay_rounds_append:
  "relay_rounds limit (ins @ js) s =
     (case relay_rounds limit ins s of (os, s') \<Rightarrow> (case relay_rounds limit js s' of (os', s'') \<Rightarrow> (os @ os', s'')))"
  by (induction ins arbitrary: s) (simp_all split: prod.split)

lemma relay_rounds_Cons:
  "fst (relay_rounds limit (i # ins) s) = fst (relay_round limit i s) @ fst (relay_rounds limit ins (snd (relay_round limit i s)))"
  "snd (relay_rounds limit (i # ins) s) = snd (relay_rounds limit ins (snd (relay_round limit i s)))"
  by (simp_all split: prod.split)

declare relay_rounds.simps(2) [simp del]

definition good_input :: "nat \<Rightarrow> relay_input \<Rightarrow> bool" where
  "good_input limit i =
     (case i of LocalDatagram a d ok \<Rightarrow> ok | ServerMessage m \<Rightarrow> length m \<le> limit | _ \<Rightarrow> False)"

lemma relay_rounds_state:
  "\<forall>i \<in> set ins. good_input limit i \<Longrightarrow> re_running s \<Longrightarrow> re_reading s \<Longrightarrow>
   snd (relay_rounds limit ins s) = s\<lparr>re_client := last_sender ins (re_client s)\<rparr>"
proof (induction ins arbitrary: s)
  case (Cons i ins)
  then show ?case
    by (cases i) (auto simp: relay_rounds_Cons good_input_def Let_def split: option.splits)
qed simp

text \<open>A message from the server goes to the address that sent last, whoever it answers.\<close>

lemma relay_reply_to_last:
  assumes "\<forall>i \<in> set ins. good_input limit i" and "re_running s" and "re_reading s"
    and "last_sender ins (re_client s) = Some a" and "length m \<le> limit"
  shows "fst (relay_rounds limit (ins @ [ServerMessage m]) s) = fst (relay_rounds limit ins s) @ [ToClient a m]"
proof -
  obtain os s' where "relay_rounds limit ins s = (os, s')" by fastforce
  moreover have "fst (relay_rounds limit [ServerMessage m] (s\<lparr>re_client := Some a\<rparr>)) = [ToClient a m]"
    using assms(3,5) by (simp add: relay_rounds_Cons)
  ultimately show ?thesis
    using relay_rounds_state [OF assms(1-3)] assms(4)
    by (cases "relay_rounds limit [ServerMessage m] (s\<lparr>re_client := Some a\<rparr>)") (simp add: relay_rounds_append)
qed

text \<open>Every datagram that \<open>Run\<close> takes before it stops is handed to the server, in order.\<close>

lemma relay_rounds_sent:
  assumes "\<forall>i \<in> set ins. good_input limit i" and "re_running s"
  shows "[d. ToServer d \<leftarrow> fst (relay_rounds limit ins s)] = [take 65535 d. LocalDatagram a d ok \<leftarrow> ins]"
  using assms
proof (induction ins arbitrary: s)
  case (Cons i ins)
  then show ?case
    by (cases i) (auto simp: relay_rounds_Cons good_input_def Let_def split: option.splits)
qed simp

lemma relay_close_silent: "fst (relay_rounds limit ins (relay_close s)) = []"
proof -
  have "fst (relay_rounds limit ins s) = []" if "\<not> re_running s" "\<not> re_reading s" for s
    using that
  proof (induction ins arbitrary: s)
    case (Cons i ins)
    then show ?case by (cases i) (simp_all add: relay_rounds_Cons)
  qed simp
  then show ?thesis by (simp add: relay_close_def)
qed

end
