(* ===== verification/Client_Mux.thy ===== *)
theory Client_Mux
  imports Client_Dial
begin

text \<open>
  The client's use of a multiplexed session: \<open>muxDialer\<close> of \<open>internal/client/client.go\<close> and the
  handlers of \<open>internal/client/forward.go\<close>. A session is known by a number; the argument
  \<open>is_closed\<close> says which sessions are closed. A stream is the list of bytes written to it.
\<close>

section \<open>The dialer that shares a session\<close>

record mux_dialer =
  md_session :: "nat option"

datatype stream_error = NoSession | OpenFailed | HeaderFailed

text \<open>\<open>redial\<close> is what \<open>dialMuxSession\<close> returns, \<open>None\<close> if it never does (the lock is then held
  for ever).\<close>

definition getSession ::
    "(nat \<Rightarrow> bool) \<Rightarrow> (dial_error, nat) retried option \<Rightarrow> mux_dialer \<Rightarrow> ((stream_error, nat) outcome \<times> mux_dialer) option" where
  "getSession is_closed redial d =
     (let fresh = (case redial of
                     None \<Rightarrow> None
                   | Some (Connected s) \<Rightarrow> Some (Ok s, d\<lparr>md_session := Some s\<rparr>)
                   | Some _ \<Rightarrow> Some (Err NoSession, d))
      in case md_session d of
           Some s \<Rightarrow> if \<not> is_closed s then Some (Ok s, d) else fresh
         | None \<Rightarrow> fresh)"

definition drop_session :: "mux_dialer \<Rightarrow> mux_dialer" where
  "drop_session d = d\<lparr>md_session := None\<rparr>"

definition open_stream ::
    "bool \<Rightarrow> bool \<Rightarrow> string \<Rightarrow> nat \<Rightarrow> mux_dialer \<Rightarrow> (stream_error, nat \<times> bytes) outcome \<times> mux_dialer" where
  "open_stream opens writes addr s d =
     (if \<not> opens then (Err OpenFailed, drop_session d)
      else case WriteHeader (stream_write writes) CmdConnect addr [] of
             (Some e, _) \<Rightarrow> (Err HeaderFailed, d)
           | (None, written) \<Rightarrow> (Ok (s, written), d))"

text \<open>\<open>muxDialer.dial\<close>: the session, the bytes on the stream and the address of the wrapped
  connection.\<close>

definition muxDialer_dial ::
    "(nat \<Rightarrow> bool) \<Rightarrow> (dial_error, nat) retried option \<Rightarrow> bool \<Rightarrow> bool \<Rightarrow> (string \<Rightarrow> string list option) \<Rightarrow>
     string \<Rightarrow> mux_dialer \<Rightarrow> ((stream_error, nat \<times> bytes \<times> bytes \<times> int) outcome \<times> mux_dialer) option" where
  "muxDialer_dial is_closed redial opens writes lookup addr d =
     (case getSession is_closed redial d of
        None \<Rightarrow> None
      | Some (Ok s, d1) \<Rightarrow>
          (case open_stream opens writes addr s d1 of
             (r, d2) \<Rightarrow> Some (obind r (\<lambda>(s, written). Ok (s, written, wrapConn lookup addr)), d2))
      | Some (Err e, d1) \<Rightarrow> Some (Err e, d1)
      | Some (Panic, d1) \<Rightarrow> Some (Panic, d1))"

lemma muxDialer_dial_Ok:
  assumes "muxDialer_dial is_closed redial opens writes lookup addr d = Some (Ok (s, w, a), d')"
  shows "w = header_bytes CmdConnect addr" and "a = wrapConn lookup addr" and "md_session d' = Some s"
    and "md_session d = Some s \<and> \<not> is_closed s \<or> redial = Some (Connected s)"
  using assms
  by (cases writes;
      auto simp: muxDialer_dial_def getSession_def open_stream_def Let_def
        split: option.splits retried.splits if_splits outcome.splits prod.splits)+

text \<open>A live session is shared: no second one is dialed.\<close>

lemma muxDialer_reuse:
  assumes "md_session d = Some s" and "\<not> is_closed s"
  shows "muxDialer_dial is_closed redial True True lookup addr d =
    Some (Ok (s, header_bytes CmdConnect addr, wrapConn lookup addr), d)"
  using assms by (simp add: muxDialer_dial_def getSession_def open_stream_def)

section \<open>Port forwards\<close>

record port_forward =
  pf_bind :: string
  pf_target :: string
  pf_reverse :: bool

datatype client_event =
    CLogged log_record
  | CDialTCP string bool
  | CHeader bytes \<comment> \<open>written to a new stream\<close>
  | CRelayed
  | CClosedStream
  | CClosedLocal

definition client_log :: "level \<Rightarrow> string \<Rightarrow> (string \<times> attr_value) list \<Rightarrow> client_event" where
  "client_log l m as = CLogged \<lparr>lr_level = l, lr_message = m, lr_attrs = as\<rparr>"

definition forwardConn :: "bool \<Rightarrow> bool \<Rightarrow> string \<Rightarrow> client_event list" where
  "forwardConn opens writes target =
     (if \<not> opens then [client_log LError ''open stream'' [], CClosedLocal]
      else case WriteHeader (stream_write writes) CmdConnect target [] of
             (Some e, _) \<Rightarrow> [client_log LError ''write connect header'' [], CClosedStream, CClosedLocal]
           | (None, written) \<Rightarrow> [CHeader written, CRelayed])"

definition registerReverseBind :: "bool \<Rightarrow> bool \<Rightarrow> string \<Rightarrow> bool \<times> client_event list" where
  "registerReverseBind opens writes bindAddr =
     (if \<not> opens then (False, [])
      else case WriteHeader (stream_write writes) CmdReverseBind bindAddr [] of
             (Some e, _) \<Rightarrow> (False, [CClosedStream])
           | (None, written) \<Rightarrow> (True, [CHeader written]))"

text \<open>The loop of \<open>Forward\<close> over the reverse forwards of a session; \<open>ok i\<close> are the answers.\<close>

fun register_all :: "(bool \<times> bool) list \<Rightarrow> port_forward list \<Rightarrow> client_event list" where
  "register_all (ok # oks) (r # rs) =
     (case registerReverseBind (fst ok) (snd ok) (pf_bind r) of
        (False, es) \<Rightarrow> es @ [client_log LError ''reverse bind failed'' [(''bind'', AStr (pf_bind r))]]
      | (True, es) \<Rightarrow>
          es @ [client_log LInfo ''reverse registered''
                  [(''server_bind'', AStr (pf_bind r)), (''local_target'', AStr (pf_target r))]]) @
     register_all oks rs"
| "register_all _ _ = []"

definition reverseLookup :: "port_forward list \<Rightarrow> string \<rightharpoonup> string" where
  "reverseLookup rs = fold (\<lambda>r m. m(pf_bind r \<mapsto> pf_target r)) rs Map.empty"

definition handleLocalReverseConn :: "bool \<Rightarrow> string \<Rightarrow> client_event list" where
  "handleLocalReverseConn dials localTarget =
     (if \<not> dials
      then [CDialTCP localTarget False,
            client_log LError ''reverse dial local'' [(''target'', AStr localTarget)], CClosedStream]
      else [CDialTCP localTarget True, CRelayed])"

text \<open>One round of \<open>acceptReverseStreams\<close>, with the goroutine that it starts.\<close>

definition acceptReverse :: "(string \<rightharpoonup> string) \<Rightarrow> bool \<Rightarrow> bytes \<Rightarrow> client_event list" where
  "acceptReverse lookup dials bs =
     (case fst (ReadHeader bs) of
        Ok (cmd, bindAddr) \<Rightarrow>
          if cmd \<noteq> CmdReverseConn then [CClosedStream]
          else (case lookup bindAddr of
                  None \<Rightarrow> [client_log LWarn ''unknown reverse bind'' [(''bind'', AStr bindAddr)], CClosedStream]
                | Some localTarget \<Rightarrow> handleLocalReverseConn dials localTarget)
      | _ \<Rightarrow> [CClosedStream])"

lemma reverseLookup_map_of: "reverseLookup rs = map_of (rev (map (\<lambda>r. (pf_bind r, pf_target r)) rs))"
proof -
  have "fold (\<lambda>r m. m(pf_bind r \<mapsto> pf_target r)) rs m = m ++ map_of (rev (map (\<lambda>r. (pf_bind r, pf_target r)) rs))" for m
    by (induction rs arbitrary: m) auto
  then show ?thesis by (simp add: reverseLookup_def)
qed

lemma reverseLookup_SomeD:
  "reverseLookup rs b = Some t \<Longrightarrow> \<exists>r \<in> set rs. pf_bind r = b \<and> pf_target r = t"
  unfolding reverseLookup_map_of by (drule map_of_SomeD) auto

lemma reverseLookup_registered:
  "distinct (map pf_bind rs) \<Longrightarrow> r \<in> set rs \<Longrightarrow> reverseLookup rs (pf_bind r) = Some (pf_target r)"
  unfolding reverseLookup_map_of by (intro map_of_is_SomeI) (auto simp: comp_def simp flip: rev_map)

lemma acceptReverse_dials:
  assumes "CDialTCP t ok \<in> set (acceptReverse (reverseLookup rs) dials bs)"
  shows "\<exists>r \<in> set rs. pf_target r = t \<and> fst (ReadHeader bs) = Ok (CmdReverseConn, pf_bind r)"
  using assms
  by (auto simp: acceptReverse_def handleLocalReverseConn_def client_log_def
      dest!: reverseLookup_SomeD split: outcome.splits option.splits if_splits)

lemma acceptReverse_serves:
  assumes "distinct (map pf_bind rs)" and "r \<in> set rs" and "length (pf_bind r) \<le> 4096"
  shows "acceptReverse (reverseLookup rs) True (header_bytes CmdReverseConn (pf_bind r) @ bs) =
    [CDialTCP (pf_target r) True, CRelayed]"
  using assms
  by (simp add: acceptReverse_def ReadHeader_roundtrip reverseLookup_registered handleLocalReverseConn_def)

section \<open>Properties\<close>

text \<open>C0: The server cannot make the client dial anything but the local targets of the user's reverse
  forwards: a stream leads to a dial only if it carries a \<open>CmdReverseConn\<close> header with the bind address of
  one of them, and then to the target of the last forward that was given for this address.\<close>

theorem reverse_streams_confined:
  assumes "CDialTCP t ok \<in> set (acceptReverse (reverseLookup rs) dials bs)"
  shows "\<exists>bind rest. bs = header_bytes CmdReverseConn bind @ rest \<and>
    map_option pf_target (find (\<lambda>r. pf_bind r = bind) (rev rs)) = Some t"
proof -
  obtain bind where b: "fst (ReadHeader bs) = Ok (CmdReverseConn, bind)" "reverseLookup rs bind = Some t"
    using assms
    by (auto simp: acceptReverse_def handleLocalReverseConn_def client_log_def
        split: outcome.splits option.splits if_splits)
  have "map_of (map (\<lambda>r. (pf_bind r, pf_target r)) xs) k = map_option pf_target (find (\<lambda>r. pf_bind r = k) xs)" for xs k
    by (induction xs) auto
  then have "map_option pf_target (find (\<lambda>r. pf_bind r = bind) (rev rs)) = Some t"
    using b(2) unfolding reverseLookup_map_of rev_map by metis
  moreover have "ReadHeader bs = (Ok (CmdReverseConn, bind), snd (ReadHeader bs))"
    using b(1) by (metis prod.collapse)
  ultimately show ?thesis using ReadHeader_sound by blast
qed

definition demo_reverse :: port_forward where
  "demo_reverse = \<lparr>pf_bind = '':9000'', pf_target = ''localhost:3000'', pf_reverse = True\<rparr>"

lemma reverse_streams_confined_witness:
  "\<exists>bind rest. header_bytes CmdReverseConn '':9000'' = header_bytes CmdReverseConn bind @ rest \<and>
     map_option pf_target (find (\<lambda>r. pf_bind r = bind) (rev [demo_reverse])) = Some ''localhost:3000''"
proof (rule reverse_streams_confined)
  show "CDialTCP ''localhost:3000'' True \<in>
      set (acceptReverse (reverseLookup [demo_reverse]) True (header_bytes CmdReverseConn '':9000''))"
    using acceptReverse_serves [of "[demo_reverse]" demo_reverse "[]"] by (simp add: demo_reverse_def)
qed

end
