(* ===== verification/Client_Entry.thy ===== *)
theory Client_Entry
  imports Client_Proxy Client_Mux
begin

text \<open>
  The entry points of \<open>internal/client\<close> (\<open>ListenAndServe\<close>, \<open>ListenAndServeUDP\<close>, \<open>listenAndServeMux\<close> of
  \<open>client.go\<close>, \<open>ListenAndServeConnect\<close> of \<open>connect.go\<close>) and \<open>NewUDPRelay\<close> of \<open>udp.go\<close>.

  The library calls are arguments, collected in a record: the success of \<open>socks5.New\<close>
  and the address of the local UDP socket, if it can be opened. An entry point ends in a service that
  listens at the configured address; what the service does with a connection is given by the dialer
  that it was built with.
\<close>

record start_env =
  se_socks :: bool
  se_udp_addr :: "string option"

datatype start_error = BadURL | UDPListenFailed | UDPDialFailed dial_error | SocksFailed

datatype client_service =
    SocksService go_url
  | SocksUDPService go_url string \<comment> \<open>with the address of the relay\<close>
  | MuxService go_url
  | ConnectService go_url

type_synonym started = "(start_error, log_record \<times> client_service) outcome"

definition start_log :: "string \<Rightarrow> client_config \<Rightarrow> (string \<times> attr_value) list \<Rightarrow> log_record" where
  "start_log m cfg as =
     \<lparr>lr_level = LInfo, lr_message = m,
      lr_attrs = [(''addr'', AStr (cc_addr cfg)), (''server'', AStr (cc_server_url cfg))] @ as\<rparr>"

definition parse_server_url :: "client_config \<Rightarrow> (start_error, go_url) outcome" where
  "parse_server_url cfg = (case url_parse (cc_server_url cfg) of None \<Rightarrow> Err BadURL | Some u \<Rightarrow> Ok u)"

definition new_socks :: "start_env \<Rightarrow> (start_error, unit) outcome" where
  "new_socks e = (if se_socks e then Ok () else Err SocksFailed)"

definition listenAndServeMux :: "start_env \<Rightarrow> client_config \<Rightarrow> started" where
  "listenAndServeMux e cfg =
     obind (parse_server_url cfg) (\<lambda>u.
     obind (new_socks e) (\<lambda>_. Ok (start_log ''client starting (mux)'' cfg [], MuxService u)))"

definition client_ListenAndServe :: "start_env \<Rightarrow> client_config \<Rightarrow> started" where
  "client_ListenAndServe e cfg =
     (if cc_mux cfg then listenAndServeMux e cfg
      else
        obind (parse_server_url cfg) (\<lambda>u.
        obind (new_socks e) (\<lambda>_. Ok (start_log ''client starting'' cfg [], SocksService u))))"

text \<open>\<open>NewUDPRelay\<close> dials before it returns; \<open>None\<close> when the retries never end.\<close>

definition open_udp_relay ::
    "start_env \<Rightarrow> ((dial_error, 'c) retried \<times> int list) option \<Rightarrow> (start_error, string \<times> 'c \<times> udp_relay) outcome option" where
  "open_udp_relay e dialed =
     (case se_udp_addr e of
        None \<Rightarrow> Some (Err UDPListenFailed)
      | Some a \<Rightarrow>
          (case dialed of
             None \<Rightarrow> None
           | Some (Connected c, _) \<Rightarrow> Some (Ok (a, c, NewUDPRelay))
           | Some (Exhausted err, _) \<Rightarrow> Some (Err (UDPDialFailed err))
           | Some (ContextDone, _) \<Rightarrow> None))"

definition ListenAndServeUDP ::
    "(string \<Rightarrow> string \<Rightarrow> 'k option) \<Rightarrow> (nat \<Rightarrow> ('k, 'c) websocket) \<Rightarrow> env \<Rightarrow> start_env \<Rightarrow> client_config \<Rightarrow>
     started option" where
  "ListenAndServeUDP load ws ev e cfg =
     (case parse_server_url cfg of
        Ok u \<Rightarrow>
          (case open_udp_relay e (dialUDP load ws ev u cfg) of
             None \<Rightarrow> None
           | Some (Ok (laddr, c, relay)) \<Rightarrow>
               Some (obind (new_socks e) (\<lambda>_.
                 Ok (start_log ''client starting (socks5-udp)'' cfg [(''udp_relay'', AStr laddr)],
                     SocksUDPService u laddr)))
           | Some (Err err) \<Rightarrow> Some (Err err)
           | Some Panic \<Rightarrow> Some Panic)
      | Err err \<Rightarrow> Some (Err err)
      | Panic \<Rightarrow> Some Panic)"

definition ListenAndServeConnect :: "client_config \<Rightarrow> started" where
  "ListenAndServeConnect cfg =
     obind (parse_server_url cfg) (\<lambda>u.
       Ok (start_log ''connect proxy starting'' cfg [], ConnectService u))"

text \<open>The URLs that a service hands to the WebSocket library, for a connection to \<open>addr\<close> and, in the mode with
  datagrams, for the relay that it opened when it started.\<close>

definition service_urls :: "client_service \<Rightarrow> string \<Rightarrow> go_url set" where
  "service_urls s addr =
     (case s of
        SocksService u \<Rightarrow> {makeDialer_url u addr}
      | SocksUDPService u _ \<Rightarrow> {makeDialer_url u addr, udp_url u}
      | MuxService u \<Rightarrow> {mux_url u}
      | ConnectService u \<Rightarrow> {dialServer_url u addr})"

text \<open>The dialers never see a cancelled context in \<open>dialUDP\<close>, which sleeps.\<close>

lemma dialUDP_not_cancelled: "dialUDP load ws ev u cfg \<noteq> Some (ContextDone, ds)"
proof
  assume "dialUDP load ws ev u cfg = Some (ContextDone, ds)"
  then have "retry_post (\<lambda>_. False) (\<lambda>n. if ev_hangs ev n then None else Some (dialWebSocket load (ws n) (url_string (udp_url u)) cfg)) 0
      (new_backoff (cc_max_retry_count cfg) (cc_max_retry_interval cfg)) (ContextDone :: (dial_error, 'a) retried) (length ds)"
    unfolding dialUDP_def with_backoff_def using retry_SomeD by fastforce
  then show False by (simp add: retry_post_def)
qed

text \<open>What each entry point starts.\<close>

lemma started_mux: "url_parse (cc_server_url cfg) = Some u \<Longrightarrow> listenAndServeMux e cfg = Ok (l, s) \<Longrightarrow> s = MuxService u"
  by (simp add: listenAndServeMux_def parse_server_url_def obind_eq_Ok split: if_splits)

lemma started_socks:
  "url_parse (cc_server_url cfg) = Some u \<Longrightarrow> client_ListenAndServe e cfg = Ok (l, s) \<Longrightarrow>
   s = SocksService u \<or> s = MuxService u"
  by (auto simp: client_ListenAndServe_def parse_server_url_def obind_eq_Ok dest: started_mux split: if_splits)

lemma started_udp:
  "url_parse (cc_server_url cfg) = Some u \<Longrightarrow> ListenAndServeUDP load ws ev e cfg = Some (Ok (l, s)) \<Longrightarrow>
   s = MuxService u \<or> (\<exists>a. s = SocksUDPService u a)"
  by (auto simp: ListenAndServeUDP_def parse_server_url_def obind_eq_Ok dest: started_mux
      split: if_splits option.splits outcome.splits prod.splits)

lemma started_connect:
  "url_parse (cc_server_url cfg) = Some u \<Longrightarrow> ListenAndServeConnect cfg = Ok (l, s) \<Longrightarrow> s = ConnectService u"
  by (auto simp: ListenAndServeConnect_def parse_server_url_def obind_eq_Ok)

section \<open>Properties\<close>

text \<open>C39: Whatever mode a client is started in, the text of each URL that it hands to the WebSocket library, for a
  connection to an address or for the datagram relay, is read as a URL of the host of the configured server,
  with the path of its endpoint and, on \<open>/connect\<close>, with exactly the requested address. It uses TLS exactly
  for a \<open>wss\<close> URL, and for an \<open>https\<close> URL only in the modes with a session or a CONNECT proxy and for the
  datagram relay: the connections of the SOCKS modes dial an \<open>https\<close> server in the clear, with the bearer token
  in the request. (For a server URL with a host that is not empty, in ASCII and without a zone.)\<close>

theorem service_endpoint:
  assumes "url_parse (cc_server_url cfg) = Some u" and "u_host u \<noteq> []" and "plain_host (u_host u)"
    and "client_ListenAndServe e cfg = Ok (l, s) \<or> ListenAndServeUDP load ws ev e cfg = Some (Ok (l, s)) \<or>
         ListenAndServeConnect cfg = Ok (l, s)"
    and "u' \<in> service_urls s addr"
  shows "\<exists>v. url_parse (url_string u') = Some v \<and> u_host v = u_host u \<and>
    (u_scheme v = ''wss'' \<longleftrightarrow>
       u_scheme u = ''wss'' \<or> u_scheme u = ''https'' \<and> (s \<in> {MuxService u, ConnectService u} \<or> u' = udp_url u)) \<and>
    (if s = MuxService u then u_path v = ''/mux''
     else if u' = udp_url u then u_path v = ''/connect-udp'' \<and> (\<exists>a. s = SocksUDPService u a)
     else u_path v = ''/connect'' \<and> values_get ''target'' (parse_query (u_raw_query v)) = addr)"
proof -
  have s: "s \<in> {SocksService u, MuxService u, ConnectService u} \<or> (\<exists>a. s = SocksUDPService u a)"
    using assms(4) started_socks [OF assms(1)] started_udp [OF assms(1)] started_connect [OF assms(1)] by blast
  then have "u' \<in> client_urls u addr" using assms(5) by (auto simp: service_urls_def client_urls_def)
  then obtain v where v: "url_parse (url_string u') = Some v" "same_endpoint u' v"
    using client_url_text url_parse_ok [OF assms(1-3)] by blast
  note url_defs = makeDialer_url_def dialServer_url_def mux_url_def udp_url_def with_target_def dialer_scheme_def
    other_scheme_def
  have parts: "u_path (makeDialer_url u addr) = ''/connect''" "u_path (dialServer_url u addr) = ''/connect''"
    "u_path (mux_url u) = ''/mux''" "u_path (udp_url u) = ''/connect-udp''"
    "values_get ''target'' (parse_query (u_raw_query (makeDialer_url u addr))) = addr"
    "values_get ''target'' (parse_query (u_raw_query (dialServer_url u addr))) = addr"
    by (simp_all add: url_defs get_set_encode)
  have schemes: "u_scheme (makeDialer_url u addr) = ''wss'' \<longleftrightarrow> u_scheme u = ''wss''"
    "u_scheme (dialServer_url u addr) = ''wss'' \<longleftrightarrow> u_scheme u = ''wss'' \<or> u_scheme u = ''https''"
    "u_scheme (mux_url u) = ''wss'' \<longleftrightarrow> u_scheme u = ''wss'' \<or> u_scheme u = ''https''"
    "u_scheme (udp_url u) = ''wss'' \<longleftrightarrow> u_scheme u = ''wss'' \<or> u_scheme u = ''https''"
    by (simp_all add: url_defs)
  have hosts: "u_host (makeDialer_url u addr) = u_host u" "u_host (dialServer_url u addr) = u_host u"
    "u_host (mux_url u) = u_host u" "u_host (udp_url u) = u_host u"
    by (simp_all add: url_defs)
  have other: "makeDialer_url u addr \<noteq> udp_url u" "dialServer_url u addr \<noteq> udp_url u" "mux_url u \<noteq> udp_url u"
    using arg_cong [of _ _ u_path] parts(1-4) by force+
  have v': "u_host v = u_host u'" "u_path v = u_path u'" "u_scheme v = u_scheme u'" "u_raw_query v = u_raw_query u'"
    using v(2) by (simp_all add: same_endpoint_def)
  from s consider (socks) "u' = makeDialer_url u addr" "s = SocksService u"
    | (socks_udp) a where "u' = makeDialer_url u addr" "s = SocksUDPService u a"
    | (relay) a where "u' = udp_url u" "s = SocksUDPService u a"
    | (mux) "u' = mux_url u" "s = MuxService u" | (connect) "u' = dialServer_url u addr" "s = ConnectService u"
    using assms(5) unfolding service_urls_def by fastforce
  then show ?thesis
    by cases (intro exI [of _ v] conjI v(1); simp add: v' parts schemes hosts other)+
qed

definition demo_start :: start_env where
  "demo_start = \<lparr>se_socks = True, se_udp_addr = None\<rparr>"

lemma demo_https: "url_parse ''https://relay'' = Some (empty_url\<lparr>u_scheme := ''https'', u_host := ''relay''\<rparr>)"
  by code_simp

lemma service_endpoint_witness:
  "\<exists>l s v. client_ListenAndServe demo_start (demo_client\<lparr>cc_server_url := ''https://relay''\<rparr>) = Ok (l, s) \<and>
     url_parse (url_string (makeDialer_url (empty_url\<lparr>u_scheme := ''https'', u_host := ''relay''\<rparr>) ''10.0.0.1:22'')) = Some v \<and>
     s = SocksService (empty_url\<lparr>u_scheme := ''https'', u_host := ''relay''\<rparr>) \<and> u_scheme v \<noteq> ''wss''"
proof -
  let ?u = "empty_url\<lparr>u_scheme := ''https'', u_host := ''relay''\<rparr>"
  let ?cfg = "demo_client\<lparr>cc_server_url := ''https://relay''\<rparr>"
  have u: "url_parse (cc_server_url ?cfg) = Some ?u" using demo_https by simp
  then have s: "client_ListenAndServe demo_start ?cfg = Ok (start_log ''client starting'' ?cfg [], SocksService ?u)"
    by (simp add: client_ListenAndServe_def demo_start_def demo_client_def parse_server_url_def new_socks_def)
  moreover have "plain_host (u_host ?u)" by code_simp
  moreover have "makeDialer_url ?u ''10.0.0.1:22'' \<in> service_urls (SocksService ?u) ''10.0.0.1:22''"
    by (simp add: service_urls_def)
  moreover have "makeDialer_url ?u ''10.0.0.1:22'' \<noteq> udp_url ?u"
  proof
    assume "makeDialer_url ?u ''10.0.0.1:22'' = udp_url ?u"
    then have "u_path (makeDialer_url ?u ''10.0.0.1:22'') = u_path (udp_url ?u)" by (rule arg_cong)
    then show False by (simp add: makeDialer_url_def with_target_def udp_url_def)
  qed
  ultimately show ?thesis
    using service_endpoint [OF u, where l = "start_log ''client starting'' ?cfg []" and s = "SocksService ?u"
      and addr = "''10.0.0.1:22''" and u' = "makeDialer_url ?u ''10.0.0.1:22''"] by fastforce
qed

end
