(* ===== verification/Claims_Text.thy ===== *)
theory Claims_Text
  imports Auth_Base Go_Num "HOL-Library.Char_ord" "HOL-Library.List_Lexorder"
begin

text \<open>
  What \<open>runTokenVerify\<close> of \<open>src/cmd/token.go\<close> prints: the verb \<open>%v\<close> of package \<open>fmt\<close> for a decoded JSON
  value, and \<open>time.RFC3339\<close> for the two dates. A JSON number is decoded into a \<open>float64\<close>; the numbers of
  the model are integers, of at most 53 bits, which a \<open>float64\<close> holds exactly. The offset of the local
  time zone is an argument.
\<close>

section \<open>Values\<close>

text \<open>The shortest text of a float, with an exponent from \<open>10 ^ 6\<close> on.\<close>

definition float_text :: "int \<Rightarrow> string" where
  "float_text n =
     (let ds = itoa (nat \<bar>n\<bar>);
          e = length ds - 1;
          m = rev (dropWhile (\<lambda>c. c = CHR ''0'') (rev ds))
      in (if n < 0 then ''-'' else []) @
         (if e < 6 then ds
          else hd m # (if tl m = [] then [] else CHR ''.'' # tl m) @
               ''e+'' @ (if e < 10 then ''0'' else []) @ itoa e))"

text \<open>A map is printed in the order of its keys; of a repeated member the last one counts.\<close>

definition map_text :: "(string \<times> string) list \<Rightarrow> string" where
  "map_text ms =
     ''map['' @ join_with CHR '' '' (map (\<lambda>k. k @ CHR '':'' # the (map_of (rev ms) k)) (sort (remdups (map fst ms)))) @ '']''"

fun value_text :: "json \<Rightarrow> string" where
  "value_text (JStr s) = s"
| "value_text (JNum n) = float_text n"
| "value_text (JBool b) = (if b then ''true'' else ''false'')"
| "value_text JNull = ''<nil>''"
| "value_text (JArr js) = ''['' @ join_with CHR '' '' (map value_text js) @ '']''"
| "value_text (JObj ms) = map_text (map (\<lambda>m. (fst m, value_text (snd m))) ms)"

section \<open>Dates\<close>

definition leap_year :: "int \<Rightarrow> bool" where
  "leap_year y \<longleftrightarrow> y mod 4 = 0 \<and> (y mod 100 \<noteq> 0 \<or> y mod 400 = 0)"

definition year_days :: "int \<Rightarrow> nat" where
  "year_days y = (if leap_year y then 366 else 365)"

definition month_lengths :: "int \<Rightarrow> nat list" where
  "month_lengths y = [31, if leap_year y then 29 else 28, 31, 30, 31, 30, 31, 31, 30, 31, 30, 31]"

function year_at :: "nat \<Rightarrow> int \<Rightarrow> int \<times> nat" where
  "year_at d y = (if d < year_days y then (y, d) else year_at (d - year_days y) (y + 1))"
  by pat_completeness auto
termination
  by (relation "measure fst") (auto simp: year_days_def split: if_splits)

declare year_at.simps [simp del]

fun month_at :: "nat \<Rightarrow> nat list \<Rightarrow> nat \<Rightarrow> nat \<times> nat" where
  "month_at d [] m = (m, d)"
| "month_at d (l # ls) m = (if d < l then (m, d) else month_at (d - l) ls (Suc m))"

text \<open>Year, month and day of a day, counted from 1970-01-01; 400 years have 146097 days.\<close>

definition civil :: "int \<Rightarrow> int \<times> nat \<times> nat" where
  "civil day =
     (let (y, d) = year_at (nat (day mod 146097)) (1970 + 400 * (day div 146097));
          (m, k) = month_at d (month_lengths y) 1
      in (y, m, Suc k))"

definition padded :: "nat \<Rightarrow> nat \<Rightarrow> string" where
  "padded w n = replicate (w - length (itoa n)) (CHR ''0'') @ itoa n"

definition zone_text :: "int \<Rightarrow> string" where
  "zone_text off =
     (let z = nat (\<bar>off\<bar> div 60)
      in if off = 0 then ''Z''
         else (if off \<le> - 60 then ''-'' else ''+'') @ padded 2 (z div 60) @ CHR '':'' # padded 2 (z mod 60))"

definition rfc3339 :: "int \<Rightarrow> int \<Rightarrow> string" where
  "rfc3339 off ts =
     (let t = ts + off;
          (y, m, d) = civil (t div 86400);
          s = nat (t mod 86400)
      in (if y < 0 then ''-'' else []) @ padded 4 (nat \<bar>y\<bar>) @ CHR ''-'' # padded 2 m @ CHR ''-'' # padded 2 d @
         CHR ''T'' # padded 2 (s div 3600) @ CHR '':'' # padded 2 (s div 60 mod 60) @ CHR '':'' # padded 2 (s mod 60) @
         zone_text off)"

section \<open>The lines\<close>

definition claim_line :: "(int \<Rightarrow> int) \<Rightarrow> string \<times> json \<Rightarrow> string" where
  "claim_line zone kv =
     (case kv of
        (k, v) \<Rightarrow>
          ''  '' @ k @ '': '' @ value_text v @
          (case v of
             JNum ts \<Rightarrow> if k = ''iat'' \<or> k = ''exp'' then '' ('' @ rfc3339 (zone ts) ts @ '')'' else []
           | _ \<Rightarrow> []) @ [CHR 0x0A])"

section \<open>The calendar is right\<close>

definition days_before_year :: "int \<Rightarrow> int" where
  "days_before_year y = 365 * (y - 1970) + (y - 1) div 4 - (y - 1) div 100 + (y - 1) div 400 - 477"

lemma days_before_year_1970 [simp]: "days_before_year (1970 + 400 * e) = 146097 * e"
proof -
  have "(1969 + 400 * e) div 4 = 492 + 100 * e" "(1969 + 400 * e) div 100 = 19 + 4 * e"
    using div_mult_self1 [of 4 1969 "100 * e"] div_mult_self1 [of 100 1969 "4 * e"] by simp_all
  then show ?thesis by (simp add: days_before_year_def)
qed

lemma div_step:
  assumes "0 < (c :: int)"
  shows "y div c = (y - 1) div c + (if c dvd y then 1 else 0)"
proof -
  let ?q = "(y - 1) div c" and ?r = "(y - 1) mod c"
  have y: "y = c * ?q + (?r + 1)" using mult_div_mod_eq [of c "y - 1"] by simp
  have r: "0 \<le> ?r" "?r < c" using assms by simp_all
  show ?thesis
  proof (cases "?r + 1 = c")
    case True
    then have "y = c * (?q + 1)" using y by (simp add: distrib_left)
    then show ?thesis using assms by (metis dvd_triv_left nonzero_mult_div_cancel_left order_less_irrefl)
  next
    case False
    then have "y div c = ?q" "y mod c = ?r + 1"
      using y r by (auto intro!: int_div_pos_eq [of _ _ _ "?r + 1"] int_mod_pos_eq [of _ _ ?q])
    then show ?thesis using r by (simp add: dvd_eq_mod_eq_0)
  qed
qed

lemma days_before_year_Suc: "days_before_year (y + 1) = days_before_year y + int (year_days y)"
proof -
  have "400 dvd y \<Longrightarrow> 100 dvd y" "100 dvd y \<Longrightarrow> 4 dvd y"
    using dvd_trans [of 100 400 y] dvd_trans [of 4 100 y] by simp_all
  then have "int (year_days y) = 365 + (if 4 dvd y then 1 else 0) - (if 100 dvd y then 1 else 0) + (if 400 dvd y then 1 else 0)"
    unfolding year_days_def leap_year_def mod_eq_0_iff_dvd by simp
  moreover have "y div 4 = (y - 1) div 4 + (if 4 dvd y then 1 else 0)" "y div 100 = (y - 1) div 100 + (if 100 dvd y then 1 else 0)"
    "y div 400 = (y - 1) div 400 + (if 400 dvd y then 1 else 0)" by (rule div_step; simp)+
  ultimately show ?thesis unfolding days_before_year_def add_diff_cancel_right' by algebra
qed

lemma year_at_days:
  "year_at d y = (y', d') \<Longrightarrow> days_before_year y + int d = days_before_year y' + int d' \<and> d' < year_days y'"
proof (induction d y rule: year_at.induct)
  case (1 d y)
  show ?case
  proof (cases "d < year_days y")
    case True
    then show ?thesis using "1.prems" by (simp add: year_at.simps [of d y])
  next
    case False
    then have "year_at (d - year_days y) (y + 1) = (y', d')" using "1.prems" by (simp add: year_at.simps [of d y])
    from "1.IH" [OF False this] False show ?thesis by (simp add: days_before_year_Suc)
  qed
qed

lemma month_at_days:
  "month_at d ls m = (m', k) \<Longrightarrow> d < sum_list ls \<Longrightarrow>
     m \<le> m' \<and> m' < m + length ls \<and> d = sum_list (take (m' - m) ls) + k \<and> k < ls ! (m' - m)"
proof (induction d ls m rule: month_at.induct)
  case (2 d l ls m)
  show ?case
  proof (cases "d < l")
    case True
    then show ?thesis using "2.prems" by simp
  next
    case False
    with "2.prems" have "month_at (d - l) ls (Suc m) = (m', k)" "d - l < sum_list ls" by auto
    from "2.IH" [OF False this] have *: "Suc m \<le> m'" "m' < Suc m + length ls"
      "d - l = sum_list (take (m' - Suc m) ls) + k" "k < ls ! (m' - Suc m)" by auto
    moreover have "m' - m = Suc (m' - Suc m)" using *(1) by simp
    ultimately show ?thesis using False by simp
  qed
qed simp

text \<open>The date of a day is a day of the calendar, and it is that day.\<close>

lemma civil_days:
  assumes "civil day = (y, m, k)"
  shows "1 \<le> m \<and> m \<le> 12 \<and> 1 \<le> k \<and> k \<le> month_lengths y ! (m - 1) \<and>
    day = days_before_year y + int (sum_list (take (m - 1) (month_lengths y))) + int k - 1"
proof -
  obtain d k' where y: "year_at (nat (day mod 146097)) (1970 + 400 * (day div 146097)) = (y, d)"
    and m: "month_at d (month_lengths y) 1 = (m, k')" and k: "k = Suc k'"
    using assms by (auto simp: civil_def split: prod.splits)
  have "146097 * (day div 146097) + int (nat (day mod 146097)) = day" by simp
  then have day: "day = days_before_year y + int d" and "d < year_days y"
    using year_at_days [OF y] by (simp_all only: days_before_year_1970)
  moreover have "sum_list (month_lengths y) = year_days y" "length (month_lengths y) = 12"
    by (simp_all add: month_lengths_def year_days_def)
  ultimately have *: "1 \<le> m \<and> m < 13 \<and> d = sum_list (take (m - 1) (month_lengths y)) + k' \<and> k' < month_lengths y ! (m - 1)"
    using month_at_days [OF m] by simp
  then show ?thesis using day unfolding k by auto
qed

end
