(* ===== verification/Cmd.thy ===== *)
theory Cmd
  imports Server_Config Fingerprint Client_Entry Claims_Text
begin

text \<open>
  The commands of \<open>src/cmd\<close>: \<open>parseForwardSpec\<close> and \<open>runForward\<close>, \<open>parseDuration\<close>, \<open>runServer\<close> up to the
  call of \<open>server.ListenAndServe\<close>, and the dispatch of \<open>runClient\<close>. The values of the flags, the
  environment and the files are arguments.
\<close>

section \<open>Forward specifications\<close>

definition parseForwardSpec :: "string \<Rightarrow> (string, port_forward) outcome" where
  "parseForwardSpec spec0 =
     (let reverse = has_prefix spec0 ''R:'';
          spec = (if reverse then trim_prefix spec0 ''R:'' else spec0)
      in case split_on (CHR '':'') spec of
           [a, b, c] \<Rightarrow>
             Ok \<lparr>pf_bind = ''127.0.0.1:'' @ a, pf_target = b @ '':'' @ c, pf_reverse = reverse\<rparr>
         | [a, b, c, d] \<Rightarrow>
             Ok \<lparr>pf_bind = a @ '':'' @ b, pf_target = c @ '':'' @ d, pf_reverse = reverse\<rparr>
         | _ \<Rightarrow> Err spec)"

text \<open>The loop of \<open>runForward\<close> over its arguments: forwards and reverses, in order.\<close>

fun parse_specs ::
    "string list \<Rightarrow> port_forward list \<Rightarrow> port_forward list \<Rightarrow> (string, port_forward list \<times> port_forward list) outcome" where
  "parse_specs [] fs rs = Ok (fs, rs)"
| "parse_specs (a # as) fs rs =
     obind (parseForwardSpec a) (\<lambda>pf.
       if pf_reverse pf then parse_specs as fs (rs @ [pf]) else parse_specs as (fs @ [pf]) rs)"

section \<open>Durations\<close>

text \<open>The product of days is computed in \<open>int64\<close>, in nanoseconds.\<close>

definition parseDuration :: "string \<Rightarrow> (string, int) outcome" where
  "parseDuration s =
     (if has_suffix s ''d'' then
        (let r = trim_suffix s ''d''
         in case sscanf_d r of
              None \<Rightarrow> Err r
            | Some days \<Rightarrow> Ok (sint (of_int days * 24 * of_int hour :: 64 word)))
      else case ParseDuration s of None \<Rightarrow> Err s | Some d \<Rightarrow> Ok d)"

section \<open>The server command\<close>

record server_flags =
  sf_addr :: string
  sf_token :: string
  sf_tokens_dir :: string
  sf_jwt_key :: string
  sf_jwt_revoke_file :: string
  sf_oidc_issuer :: string
  sf_oidc_audience :: string
  sf_oidc_claim_name :: string
  sf_audit_log :: string
  sf_metrics_addr :: string
  sf_stats_interval :: int
  sf_modes :: "string list"
  sf_tls_cert :: string
  sf_tls_key :: string
  sf_tls_auto :: bool
  sf_tls_domain :: string
  sf_tls_ca :: string
  sf_reverse :: bool
  sf_keyfile :: string

record server_world =
  sw_env_token :: string
  sw_audit_opens :: bool
  sw_tokens :: directory
  sw_jwt_key_file :: "string option"
  sw_revocations :: file_state
  sw_http :: http_get
  sw_x509 :: x509_lib
  sw_key_file :: "bytes option"
  sw_generate :: "ed25519_key option"
  sw_public_of :: "bytes \<Rightarrow> bytes"
  sw_sha256 :: "bytes \<Rightarrow> bytes"

datatype run_error =
    TokenConflict | DomainRequired | CertAndKeyRequired | UnknownMode string | AuditLogFailed
  | TokensDirFailed static_error | JWTFailed new_jwt_error | OIDCFailed oidc_error
  | ServerKeyFailed key_load_error

definition valid_mode :: "string \<Rightarrow> bool" where
  "valid_mode m \<longleftrightarrow> trim_space m \<in> {''socks5'', ''socks5-udp'', ''connect''}"

definition check_flags :: "server_flags \<Rightarrow> (run_error, unit) outcome" where
  "check_flags f =
     (if sf_token f \<noteq> [] \<and> sf_tokens_dir f \<noteq> [] then Err TokenConflict
      else if sf_tls_auto f \<and> sf_tls_domain f = [] then Err DomainRequired
      else if (sf_tls_cert f = []) \<noteq> (sf_tls_key f = []) then Err CertAndKeyRequired
      else case find (\<lambda>m. \<not> valid_mode m) (sf_modes f) of
             Some m \<Rightarrow> Err (UnknownMode m)
           | None \<Rightarrow> Ok ())"

definition server_sinks :: "server_flags \<Rightarrow> server_world \<Rightarrow> (run_error, sink list) outcome" where
  "server_sinks f w =
     (let base = [JsonSink [] [] True];
          metrics = (if sf_metrics_addr f \<noteq> [] then [MetricsSink []] else [])
      in if sf_audit_log f \<noteq> [] then
           (if \<not> sw_audit_opens w then Err AuditLogFailed
            else Ok (base @ [JsonSink [] [] True] @ metrics))
         else Ok (base @ metrics))"

definition static_layer :: "string \<Rightarrow> auth_method list" where
  "static_layer token = (if token \<noteq> [] then [AStatic (NewStaticToken token)] else [])"

definition dir_layer :: "server_flags \<Rightarrow> server_world \<Rightarrow> (run_error, auth_method list) outcome" where
  "dir_layer f w =
     (if sf_tokens_dir f = [] then Ok []
      else case NewStaticDir (sw_tokens w) of
             Err e \<Rightarrow> Err (TokensDirFailed e)
           | Panic \<Rightarrow> Panic
           | Ok a \<Rightarrow> Ok [AStatic a])"

definition jwt_layer :: "server_flags \<Rightarrow> server_world \<Rightarrow> (run_error, auth_method list) outcome" where
  "jwt_layer f w =
     (if sf_jwt_key f = [] then Ok []
      else case NewJWTAuthenticator (sw_x509 w) (sw_jwt_key_file w) (sf_jwt_revoke_file f) (sw_revocations w) of
             Err e \<Rightarrow> Err (JWTFailed e)
           | Panic \<Rightarrow> Panic
           | Ok a \<Rightarrow> Ok [AJwt a])"

definition oidc_layer :: "server_flags \<Rightarrow> server_world \<Rightarrow> (run_error, auth_method list) outcome" where
  "oidc_layer f w =
     (if sf_oidc_issuer f = [] then Ok []
      else case NewOIDCAuthenticator (sw_http w) (sf_oidc_issuer f) (sf_oidc_audience f) (sf_oidc_claim_name f) of
             Err e \<Rightarrow> Err (OIDCFailed e)
           | Panic \<Rightarrow> Panic
           | Ok a \<Rightarrow> Ok [AOidc a])"

text \<open>The flag, else the environment.\<close>

definition effective_token :: "server_flags \<Rightarrow> server_world \<Rightarrow> string" where
  "effective_token f w = (if sf_token f = [] then sw_env_token w else sf_token f)"

definition runServer ::
    "server_flags \<Rightarrow> server_world \<Rightarrow> (run_error, server_config \<times> auth_chain \<times> sink list) outcome" where
  "runServer f w =
     obind (check_flags f) (\<lambda>_.
     obind (server_sinks f w) (\<lambda>sinks.
     obind (dir_layer f w) (\<lambda>dir.
     obind (jwt_layer f w) (\<lambda>jwt.
     obind (oidc_layer f w) (\<lambda>oidc.
       let layers = static_layer (effective_token f w) @ dir @ jwt @ oidc;
           chain = (if length layers > 0 then Some layers else None)
       in case LoadOrGenerate (sw_public_of w) (sw_generate w) (sf_keyfile f) (sw_key_file w) of
            Err e \<Rightarrow> Err (ServerKeyFailed e)
          | Panic \<Rightarrow> Panic
          | Ok k \<Rightarrow>
              Ok (\<lparr>sc_addr = sf_addr f, sc_stats = (sf_stats_interval f > 0), sc_modes = sf_modes f,
                   sc_tls_cert = sf_tls_cert f, sc_tls_key = sf_tls_key f, sc_tls_auto = sf_tls_auto f,
                   sc_tls_domain = sf_tls_domain f, sc_tls_ca = sf_tls_ca f, sc_reverse = sf_reverse f,
                   sc_fingerprint = Compute (sw_sha256 w) (ek_public k)\<rparr>,
                  chain, sinks))))))"

text \<open>The flags of the command with their defaults.\<close>

definition default_server_flags :: server_flags where
  "default_server_flags =
     \<lparr>sf_addr = '':8080'', sf_token = [], sf_tokens_dir = [], sf_jwt_key = [], sf_jwt_revoke_file = [],
      sf_oidc_issuer = [], sf_oidc_audience = ''longsocks'', sf_oidc_claim_name = ''sub'', sf_audit_log = [],
      sf_metrics_addr = [], sf_stats_interval = 0, sf_modes = [''socks5''], sf_tls_cert = [], sf_tls_key = [],
      sf_tls_auto = False, sf_tls_domain = [], sf_tls_ca = [], sf_reverse = False, sf_keyfile = []\<rparr>"

section \<open>The client command\<close>

definition default_client_flags :: client_config where
  "default_client_flags =
     \<lparr>cc_addr = ''127.0.0.1:1080'', cc_server_url = [], cc_token = [], cc_max_retry_count = 0,
      cc_max_retry_interval = 5 * minute, cc_fingerprint = [], cc_tls_cert = [], cc_tls_key = [], cc_mux = False\<rparr>"

definition with_env_token :: "string \<Rightarrow> client_config \<Rightarrow> client_config" where
  "with_env_token env_token flags =
     (if cc_token flags = [] then flags\<lparr>cc_token := env_token\<rparr> else flags)"

datatype client_failure = UnknownClientMode string | StartFailed start_error

definition lift_start :: "started \<Rightarrow> (client_failure, log_record \<times> client_service) outcome" where
  "lift_start s = (case s of Ok x \<Rightarrow> Ok x | Err e \<Rightarrow> Err (StartFailed e) | Panic \<Rightarrow> Panic)"

text \<open>\<open>None\<close> when the command does not get as far as to listen: the relay is still being dialed.\<close>

definition runClient ::
    "(string \<Rightarrow> string \<Rightarrow> 'k option) \<Rightarrow> (nat \<Rightarrow> ('k, 'c) websocket) \<Rightarrow> env \<Rightarrow> start_env \<Rightarrow> client_config \<Rightarrow> string \<Rightarrow>
     string \<Rightarrow> (client_failure, log_record \<times> client_service) outcome option" where
  "runClient load ws ev e flags env_token mode =
     (let cfg = with_env_token env_token flags
      in if mode = ''socks5'' then Some (lift_start (client_ListenAndServe e cfg))
         else if mode = ''socks5-udp'' then map_option lift_start (ListenAndServeUDP load ws ev e cfg)
         else if mode = ''connect'' then Some (lift_start (ListenAndServeConnect cfg))
         else Some (Err (UnknownClientMode mode)))"

section \<open>The forward command\<close>

text \<open>What \<open>runForward\<close> hands to \<open>client.Forward\<close>, which parses the URL first.\<close>

datatype forward_failure = BadSpec string | BadForwardURL

definition runForward ::
    "client_config \<Rightarrow> string \<Rightarrow> string list \<Rightarrow>
     (forward_failure, client_config \<times> go_url \<times> port_forward list \<times> port_forward list) outcome" where
  "runForward flags env_token args =
     (let flags' = with_env_token env_token flags
      in case parse_specs args [] [] of
           Err a \<Rightarrow> Err (BadSpec a)
         | Panic \<Rightarrow> Panic
         | Ok (forwards, reverses) \<Rightarrow>
             let cfg = flags'\<lparr>cc_addr := [], cc_mux := False\<rparr>
             in (case url_parse (cc_server_url cfg) of
                   None \<Rightarrow> Err BadForwardURL
                 | Some u \<Rightarrow> Ok (cfg, u, forwards, reverses)))"

section \<open>The token commands\<close>

text \<open>The commands return what they print. \<open>order\<close> is the order in which Go iterates over the claims.\<close>

datatype token_failure = BadExpiry string | IssueFailed key_error | VerifyFailed verify_error

definition runTokenIssue ::
    "jwt_lib \<Rightarrow> x509_lib \<Rightarrow> string option \<Rightarrow> string \<Rightarrow> string \<Rightarrow> string \<Rightarrow> int \<Rightarrow> string \<Rightarrow>
     (token_failure, string) outcome" where
  "runTokenIssue lib x key_file name expiresStr algorithm now uuid =
     (case parseDuration expiresStr of
        Err s \<Rightarrow> Err (BadExpiry s)
      | Panic \<Rightarrow> Panic
      | Ok expires \<Rightarrow>
          (case IssueToken lib x key_file name expires algorithm now uuid of
             Err e \<Rightarrow> Err (IssueFailed e)
           | Panic \<Rightarrow> Panic
           | Ok t \<Rightarrow> Ok (t @ [CHR 0x0A])))"

definition runTokenVerify ::
    "jwt_lib \<Rightarrow> x509_lib \<Rightarrow> (int \<Rightarrow> int) \<Rightarrow> (claims \<Rightarrow> (string \<times> json) list) \<Rightarrow> string option \<Rightarrow> string \<Rightarrow>
     (token_failure, string list) outcome" where
  "runTokenVerify lib x zone order key_file tokenStr =
     (case VerifyToken lib x key_file tokenStr of
        Err e \<Rightarrow> Err (VerifyFailed e)
      | Panic \<Rightarrow> Panic
      | Ok claims \<Rightarrow> Ok (map (claim_line zone) (order claims)))"

text \<open>What Go documents on iterating over a map: every entry comes once, in any order.\<close>

definition map_order :: "(claims \<Rightarrow> (string \<times> json) list) \<Rightarrow> bool" where
  "map_order order \<longleftrightarrow>
     (\<forall>c. finite (dom c) \<longrightarrow> distinct (map fst (order c)) \<and> set (order c) = {(k, v). c k = Some v})"

section \<open>Facts about specifications\<close>

lemma parseForwardSpec_not_Panic [simp]: "parseForwardSpec s \<noteq> Panic"
  by (simp add: parseForwardSpec_def Let_def split: list.split)

lemma parse_specs_Ok:
  "parse_specs as fs rs = Ok (fs', rs') \<Longrightarrow>
     \<exists>pfs. map parseForwardSpec as = map Ok pfs \<and>
       fs' = fs @ filter (\<lambda>p. \<not> pf_reverse p) pfs \<and> rs' = rs @ filter pf_reverse pfs"
proof (induction as arbitrary: fs rs)
  case (Cons a as)
  then obtain pf where pf: "parseForwardSpec a = Ok pf"
    and r: "(if pf_reverse pf then parse_specs as fs (rs @ [pf]) else parse_specs as (fs @ [pf]) rs) = Ok (fs', rs')"
    by (auto simp: outcome_simps)
  show ?case
  proof (cases "pf_reverse pf")
    case True
    with r Cons.IH [of fs "rs @ [pf]"] obtain pfs where "map parseForwardSpec as = map Ok pfs"
      "fs' = fs @ filter (\<lambda>p. \<not> pf_reverse p) pfs" "rs' = (rs @ [pf]) @ filter pf_reverse pfs" by auto
    with pf True show ?thesis by (intro exI [of _ "pf # pfs"]) simp
  next
    case False
    with r Cons.IH [of "fs @ [pf]" rs] obtain pfs where "map parseForwardSpec as = map Ok pfs"
      "fs' = (fs @ [pf]) @ filter (\<lambda>p. \<not> pf_reverse p) pfs" "rs' = rs @ filter pf_reverse pfs" by auto
    with pf False show ?thesis by (intro exI [of _ "pf # pfs"]) simp
  qed
qed simp

text \<open>The parts of a specification hold no colon: an accepted target splits into host and port.\<close>

lemma parseForwardSpec_parts:
  assumes "CHR '':'' \<notin> set h" and "CHR '':'' \<notin> set p" and "CHR '':'' \<notin> set th" and "CHR '':'' \<notin> set tp"
    and "h \<noteq> ''R''"
  shows "parseForwardSpec (h @ '':'' @ p @ '':'' @ th @ '':'' @ tp) =
      Ok \<lparr>pf_bind = h @ '':'' @ p, pf_target = th @ '':'' @ tp, pf_reverse = False\<rparr>"
    and "parseForwardSpec (''R:'' @ h @ '':'' @ p @ '':'' @ th @ '':'' @ tp) =
      Ok \<lparr>pf_bind = h @ '':'' @ p, pf_target = th @ '':'' @ tp, pf_reverse = True\<rparr>"
proof -
  have s: "split_on (CHR '':'') (h @ '':'' @ p @ '':'' @ th @ '':'' @ tp) = [h, p, th, tp]"
    using assms(1-4) by (simp add: split_on_append split_on_no_sep)
  have "\<not> has_prefix (h @ '':'' @ p @ '':'' @ th @ '':'' @ tp) ''R:''"
  proof
    assume "has_prefix (h @ '':'' @ p @ '':'' @ th @ '':'' @ tp) ''R:''"
    then have "h = ''R''" using assms(1)
      by (cases h; cases "tl h") auto
    with assms(5) show False by simp
  qed
  then show "parseForwardSpec (h @ '':'' @ p @ '':'' @ th @ '':'' @ tp) =
      Ok \<lparr>pf_bind = h @ '':'' @ p, pf_target = th @ '':'' @ tp, pf_reverse = False\<rparr>"
    using s by (simp add: parseForwardSpec_def)
  show "parseForwardSpec (''R:'' @ h @ '':'' @ p @ '':'' @ th @ '':'' @ tp) =
      Ok \<lparr>pf_bind = h @ '':'' @ p, pf_target = th @ '':'' @ tp, pf_reverse = True\<rparr>"
    using s trim_prefix_append [of "''R:''" "h @ '':'' @ p @ '':'' @ th @ '':'' @ tp"]
    by (simp add: parseForwardSpec_def)
qed

section \<open>Facts about the server command\<close>

lemma find_None_all: "find P xs = None \<longleftrightarrow> (\<forall>x \<in> set xs. \<not> P x)"
  by (auto simp: find_None_iff)

lemma layer_not_Panic [simp]: "check_flags f \<noteq> Panic" "server_sinks f w \<noteq> Panic"
  by (simp_all add: check_flags_def server_sinks_def Let_def split: option.split)

lemma runServer_Ok:
  assumes "runServer f w = Ok (cfg, ch, sinks)"
  shows "\<forall>m \<in> set (sf_modes f). valid_mode m" and "sc_modes cfg = sf_modes f"
    and "\<exists>dir jwt oidc. dir_layer f w = Ok dir \<and> jwt_layer f w = Ok jwt \<and> oidc_layer f w = Ok oidc \<and>
           ch = (if static_layer (effective_token f w) @ dir @ jwt @ oidc = [] then None
                 else Some (static_layer (effective_token f w) @ dir @ jwt @ oidc))"
proof -
  let ?key = "LoadOrGenerate (sw_public_of w) (sw_generate w) (sf_keyfile f) (sw_key_file w)"
  obtain k where k: "?key = Ok k"
    using assms unfolding runServer_def obind_eq_Ok Let_def by (cases ?key) auto
  from assms obtain dir jwt oidc where *: "check_flags f = Ok ()"
    "dir_layer f w = Ok dir" "jwt_layer f w = Ok jwt" "oidc_layer f w = Ok oidc"
    and r: "sc_modes cfg = sf_modes f"
      "ch = (if length (static_layer (effective_token f w) @ dir @ jwt @ oidc) > 0
             then Some (static_layer (effective_token f w) @ dir @ jwt @ oidc) else None)"
    unfolding runServer_def obind_eq_Ok Let_def k by auto
  show "\<forall>m \<in> set (sf_modes f). valid_mode m"
    using *(1) by (auto simp: check_flags_def find_None_all split: if_splits option.splits)
  show "sc_modes cfg = sf_modes f" by (rule r(1))
  show "\<exists>dir jwt oidc. dir_layer f w = Ok dir \<and> jwt_layer f w = Ok jwt \<and> oidc_layer f w = Ok oidc \<and>
           ch = (if static_layer (effective_token f w) @ dir @ jwt @ oidc = [] then None
                 else Some (static_layer (effective_token f w) @ dir @ jwt @ oidc))"
    using *(2-4) r(2) by auto
qed

lemma layer_empty:
  "dir_layer f w = Ok [] \<longleftrightarrow> sf_tokens_dir f = []"
  "jwt_layer f w = Ok [] \<longleftrightarrow> sf_jwt_key f = []"
  "oidc_layer f w = Ok [] \<longleftrightarrow> sf_oidc_issuer f = []"
  "static_layer t = [] \<longleftrightarrow> t = []"
  by (auto simp: dir_layer_def jwt_layer_def oidc_layer_def static_layer_def split: outcome.splits)

section \<open>Facts about durations\<close>

lemma sint64: "0 \<le> k \<Longrightarrow> k < 2 ^ 63 \<Longrightarrow> sint (of_int k :: 64 word) = k"
  by (simp add: signed_of_int signed_take_bit_int_eq_self)

lemma parseDuration_days:
  assumes "n \<le> 106751"
  shows "parseDuration (itoa n @ ''d'') = Ok (int n * 86400000000000)"
proof -
  have "(of_int (int n) * 24 * of_int hour :: 64 word) = of_int (int n * 86400000000000)"
    by (simp add: hour_def minute_def second_def)
  moreover have "sint (of_int (int n * 86400000000000) :: 64 word) = int n * 86400000000000"
    by (rule sint64) (use assms in simp_all)
  moreover have "sscanf_d (itoa n) = Some (int n)"
    using assms sscanf_itoa [of n "[]"] by simp
  moreover have "has_suffix (itoa n @ ''d'') ''d''" "trim_suffix (itoa n @ ''d'') ''d'' = itoa n"
    by (rule has_suffix_append, rule trim_suffix_append)
  ultimately show ?thesis by (simp add: parseDuration_def)
qed

lemma parseDuration_hours:
  assumes "n \<le> 2562047"
  shows "parseDuration (itoa n @ ''h'') = Ok (int n * 3600000000000)"
  using ParseDuration_hours [OF assms] by (simp add: parseDuration_def has_suffix_def)

lemma parseDuration_days_or_hours:
  assumes "(u, k) \<in> {(''h'', 1), (''d'', 24)}" and "n * k \<le> 2562047"
  shows "parseDuration (itoa n @ u) = Ok (int (n * k) * 3600000000000)"
  using assms parseDuration_hours [of n] parseDuration_days [of n] by auto

text \<open>The claims of an issued token, in any order.\<close>

lemma issued_claims_order:
  assumes "map_order order"
  shows "length (order (issue_claims name now e uuid)) = 5"
    "set (order (issue_claims name now e uuid)) =
      {(''sub'', JStr name), (''iss'', JStr ''longsocks''), (''iat'', JNum (unix_seconds now)),
       (''exp'', JNum (unix_seconds (now + e))), (''jti'', JStr uuid)}" (is "?set = ?entries")
proof -
  have "finite (dom (issue_claims name now e uuid))" by (simp add: issue_claims_def)
  then have d: "distinct (map fst (order (issue_claims name now e uuid)))"
    and s: "?set = {(k, v). issue_claims name now e uuid k = Some v}" using assms by (auto simp: map_order_def)
  show entries: "?set = ?entries" unfolding s by (auto simp: issue_claims_def split: if_splits)
  have "length (order (issue_claims name now e uuid)) = card ?set"
    using distinct_card [of "order (issue_claims name now e uuid)"] d by (simp add: distinct_map)
  then show "length (order (issue_claims name now e uuid)) = 5" unfolding entries by simp
qed

section \<open>Properties\<close>

text \<open>C4: The server command fails closed: if it starts at all and any of the flags for a token, a tokens
  directory, a JWT key or an OIDC issuer was given (or the token of the environment), then no request
  without a client certificate is let in unless it carries a bearer token that one of the configured
  authenticators accepts, under a name that is not empty.\<close>

theorem configured_auth_is_enforced:
  assumes "runServer f w = Ok (cfg, ch, sinks)"
    and "effective_token f w \<noteq> [] \<or> sf_tokens_dir f \<noteq> [] \<or> sf_jwt_key f \<noteq> [] \<or> sf_oidc_issuer f \<noteq> []"
    and "authenticateRequest aw ch r = (Some i, ch', es)" and "MTLSIdentity (rq_tls r) = []"
  shows "i \<noteq> [] \<and> (\<exists>as bearer a. ch = Some as \<and> rq_authorization r = ''Bearer '' @ bearer \<and>
    a \<in> set as \<and> fst (method_Authenticate aw bearer a) = Some i)"
proof -
  from runServer_Ok(3) [OF assms(1)] obtain dir jwt oidc where layers: "dir_layer f w = Ok dir"
    "jwt_layer f w = Ok jwt" "oidc_layer f w = Ok oidc"
    and ch: "ch = (if static_layer (effective_token f w) @ dir @ jwt @ oidc = [] then None
                   else Some (static_layer (effective_token f w) @ dir @ jwt @ oidc))" by blast
  have "static_layer (effective_token f w) @ dir @ jwt @ oidc \<noteq> []"
    using assms(2) layers layer_empty(1-3) [of f w] layer_empty(4) [of "effective_token f w"] by auto
  then have "chain_active ch" by (simp add: ch chain_active_def Enabled_def)
  with authenticateRequest_accepts(2) [OF assms(3)] assms(4) obtain as bearer where
    "ch = Some as" "rq_authorization r = ''Bearer '' @ bearer" "i \<noteq> []"
    "fst (chain_Authenticate aw bearer as) = Some i" by auto
  then show ?thesis using chain_accepts_mem by blast
qed

definition demo_flags :: server_flags where
  "demo_flags =
     \<lparr>sf_addr = '':8080'', sf_token = ''b'', sf_tokens_dir = [], sf_jwt_key = [], sf_jwt_revoke_file = [],
      sf_oidc_issuer = [], sf_oidc_audience = [], sf_oidc_claim_name = ''sub'', sf_audit_log = [],
      sf_metrics_addr = [], sf_stats_interval = 0, sf_modes = [''socks5''], sf_tls_cert = [], sf_tls_key = [],
      sf_tls_auto = False, sf_tls_domain = [], sf_tls_ca = [], sf_reverse = False, sf_keyfile = []\<rparr>"

definition demo_world :: server_world where
  "demo_world =
     \<lparr>sw_env_token = [], sw_audit_opens = True, sw_tokens = None, sw_jwt_key_file = None, sw_revocations = FileMissing,
      sw_http = demo_get, sw_x509 = demo_x509, sw_key_file = None, sw_generate = Some \<lparr>ek_public = [], ek_seed = []\<rparr>,
      sw_public_of = (\<lambda>b. b), sw_sha256 = (\<lambda>b. b)\<rparr>"

lemma demo_runServer:
  "\<exists>cfg sinks. runServer demo_flags demo_world = Ok (cfg, Some [AStatic (NewStaticToken ''b'')], sinks)"
proof -
  have "trim_space ''socks5'' = ''socks5''" by code_simp
  then have "check_flags demo_flags = Ok ()" by (simp add: check_flags_def demo_flags_def valid_mode_def)
  then show ?thesis
    by (simp add: runServer_def) (simp add: demo_flags_def demo_world_def server_sinks_def dir_layer_def jwt_layer_def
        oidc_layer_def effective_token_def static_layer_def LoadOrGenerate_def Generate_def Let_def)
qed

lemma configured_auth_is_enforced_witness:
  "\<exists>a. fst (method_Authenticate (demo_lib, demo_get) ''b'' a) = Some ''anonymous'' \<and> a \<in> {AStatic (NewStaticToken ''b'')}"
proof -
  obtain cfg sinks where run: "runServer demo_flags demo_world = Ok (cfg, Some [AStatic (NewStaticToken ''b'')], sinks)"
    using demo_runServer by blast
  have "static_Authenticate (NewStaticToken ''b'') ''b'' = Some ''anonymous''" "extractBearer ''Bearer b'' = ''b''"
    by code_simp+
  then have a: "authenticateRequest (demo_lib, demo_get) (Some [AStatic (NewStaticToken ''b'')]) demo_request =
      (Some ''anonymous'', Some [AStatic (NewStaticToken ''b'')], [])"
    by (simp add: authenticateRequest_def demo_request_def Enabled_def)
  show ?thesis
    using configured_auth_is_enforced [OF run _ a]
    by (simp add: demo_request_def demo_flags_def effective_token_def)
qed


definition demo_jwt_world :: server_world where
  "demo_jwt_world = demo_world\<lparr>sw_jwt_key_file := Some ''k3y''\<rparr>"

definition demo_days_lib :: jwt_lib where
  "demo_days_lib =
     demo_lib\<lparr>jl_sign := (\<lambda>m c k. if m = SignHS256 \<and> k = SignSecret (bytes_of_string ''k3y'') \<and>
                                    c = issue_claims ''alice'' 0 86400000000000 ''id-1'' then Some ''tok'' else None),
              jl_parse := (\<lambda>t kf ms. if t = ''tok'' \<and> kf hs256_header = Ok (SecretKey (bytes_of_string ''k3y''))
                                     then Some (True, issue_claims ''alice'' 0 86400000000000 ''id-1'') else None)\<rparr>"

text \<open>In the order of the keys.\<close>

definition key_order :: "claims \<Rightarrow> (string \<times> json) list" where
  "key_order c = map (\<lambda>k. (k, the (c k))) (sorted_list_of_set (dom c))"

lemma map_order_key_order: "map_order key_order"
  by (auto simp: map_order_def key_order_def comp_def)


end
