(* ===== verification/Divergences.thy ===== *)
theory Divergences
  imports Server_Dispatch Cmd
begin

text \<open>
  Behaviour of the code that its documents, its flags or its comments do not lead one to expect, each
  shown on the model. What concerns one component only stands with the component
  (\<open>validateTarget_gaps\<close>, \<open>pem_default_token_refused\<close>, \<open>relay_reply_to_last\<close>, \<open>authority_form_not_found\<close>).
\<close>

section \<open>Modes\<close>

text \<open>\<open>runServer\<close> trims a mode for its check only; \<open>ListenAndServe\<close> compares the mode as it was given, so a
  mode with a blank passes the check and registers nothing.\<close>

lemma blank_mode_is_not_served:
  assumes "m \<notin> {''socks5'', ''socks5-udp'', ''connect''}"
  shows "map_option (map rt_pattern) (case server_routes [m] of Ok rs \<Rightarrow> Some rs | _ \<Rightarrow> None) =
    Some [''/healthz'', ''/mux'']"
  using assms by (auto simp: server_routes_eq effective_modes_def mode_route_def Let_def)

lemma blank_mode_passes_the_check:
  "check_flags (default_server_flags\<lparr>sf_modes := ['' connect'']\<rparr>) = Ok ()"
proof -
  have "trim_space '' connect'' = ''connect''" by code_simp
  then show ?thesis by (simp add: check_flags_def default_server_flags_def valid_mode_def)
qed

text \<open>The endpoint that the client dials in the mode \<open>connect\<close> is not served by a server in that mode.\<close>

lemma connect_mode_serves_no_connect:
  "server_routes [''connect''] = Ok rs \<Longrightarrow> route_for rs ''/connect'' = None"
  by (auto simp: server_routes_eq effective_modes_def mode_route_def route_for_def Let_def)

section \<open>Authentication\<close>

text \<open>With a CA and no authenticator a client without a certificate is let in, under the empty name.\<close>

lemma no_certificate_is_let_in:
  "MTLSIdentity (rq_tls r) = [] \<Longrightarrow> authenticateRequest w None r = (Some [], None, [])"
  by (simp add: authenticateRequest_def)

text \<open>A CA file that cannot be read or holds no certificate is logged, and the server starts without
  client certificates.\<close>

lemma unreadable_ca_is_ignored:
  assumes "read (sc_tls_ca cfg) = None \<or> (\<exists>d. read (sc_tls_ca cfg) = Some d \<and> certs d = [])"
    and "sc_tls_cert cfg \<noteq> []" and "sc_tls_key cfg \<noteq> []" and "\<not> sc_tls_auto cfg"
    and "ListenAndServe certs read cfg = Ok plan"
  shows "sp_listener plan = ListenTLS (sc_tls_cert cfg) (sc_tls_key cfg) None"
  using assms
  by (auto simp: ListenAndServe_def buildMTLSConfig_def LoadCACertPool_def Let_def outcome_simps
      split: if_splits option.splits prod.splits)

text \<open>\<open>--token\<close> and \<open>--tokens-dir\<close> exclude each other, but a token of the environment does not.\<close>

lemma env_token_joins_the_directory:
  assumes "sf_token f = []" and "sw_env_token w \<noteq> []" and "sf_tokens_dir f \<noteq> []" and "NewStaticDir (sw_tokens w) = Ok d"
    and "runServer f w = Ok (cfg, ch, sinks)"
  shows "\<exists>as. ch = Some (AStatic (NewStaticToken (sw_env_token w)) # AStatic d # as)"
  using assms
  by (auto simp: runServer_def effective_token_def static_layer_def dir_layer_def Let_def outcome_simps
      split: if_splits outcome.splits)

text \<open>The issuer is configured without its trailing slashes, but the one of a token is compared as it is.\<close>

lemma issuer_with_slash_is_refused:
  assumes "NewOIDCAuthenticator get issuer aud cl = Ok a" and "jl_issuer lib c = iss @ ''/''"
  shows "oidc_identity lib a c = None"
proof -
  have "oa_issuer a \<noteq> iss @ ''/''"
  proof
    assume "oa_issuer a = iss @ ''/''"
    then show False
      using NewOIDC_issuer [OF assms(1)] trim_right_char_last [of "CHR ''/''" issuer] by simp
  qed
  then show ?thesis using assms(2) by (simp add: oidc_identity_def)
qed

text \<open>However often the watcher looks, a revocation file that was deleted lifts nothing.\<close>

lemma deleted_file_lifts_nothing:
  "\<forall>e \<in> set es. e = TickerFired FileMissing \<Longrightarrow> watchRevocations es a = a"
  unfolding watchRevocations_def by (induction es) (auto simp: loadRevocations_def)

section \<open>The server URL\<close>

text \<open>A server URL without scheme is no error: the name of the host becomes the scheme and the rest is opaque.
  What is dialed then, for ever, names no host at all.\<close>

lemma url_without_scheme:
  "url_parse ''relay:8080'' = Some (empty_url\<lparr>u_scheme := ''relay'', u_opaque := ''8080''\<rparr>)"
  "url_string (mux_url (empty_url\<lparr>u_scheme := ''relay'', u_opaque := ''8080''\<rparr>)) = ''ws:8080''"
  by code_simp+

section \<open>Formats\<close>

text \<open>The length of an address is written modulo 65536: the reader takes the rest of a longer address for
  payload.\<close>

lemma long_address_becomes_payload:
  assumes "length addr = 65536 + n" and "n \<le> 4096"
  shows "ReadHeader (header_bytes cmd addr @ r) = (Ok (cmd, take n addr), bytes_of_string (drop n addr) @ r)"
  using assms by (simp add: ReadHeader_header_bytes)

text \<open>\<open>Sscanf\<close> does not look at what follows the number, and the product of days wraps around.\<close>

lemma garbage_after_the_days:
  assumes "n < 2 ^ 63" and "g = [] \<or> \<not> is_digit (hd g)"
  shows "parseDuration (itoa n @ g @ ''d'') = parseDuration (itoa n @ ''d'')"
proof -
  have "has_suffix (itoa n @ g @ ''d'') ''d''" "trim_suffix (itoa n @ g @ ''d'') ''d'' = itoa n @ g"
    using has_suffix_append [of "itoa n @ g"] trim_suffix_append [of "itoa n @ g"] by simp_all
  moreover have "has_suffix (itoa n @ ''d'') ''d''" "trim_suffix (itoa n @ ''d'') ''d'' = itoa n"
    by (rule has_suffix_append, rule trim_suffix_append)
  moreover have "sscanf_d (itoa n @ g) = Some (int n)" "sscanf_d (itoa n) = Some (int n)"
    using sscanf_itoa [OF assms] sscanf_itoa [OF assms(1), of "[]"] by simp_all
  ultimately show ?thesis by (simp add: parseDuration_def)
qed

lemma days_wrap_around: "parseDuration (itoa 106752 @ ''d'') = Ok (106752 * 24 * hour - 2 ^ 64)"
proof -
  have "has_suffix (itoa 106752 @ ''d'') ''d''" "trim_suffix (itoa 106752 @ ''d'') ''d'' = itoa 106752"
    by (rule has_suffix_append, rule trim_suffix_append)
  moreover have "sscanf_d (itoa 106752) = Some 106752" using sscanf_itoa [of 106752 "[]"] by simp
  moreover have "sint (106752 * 24 * of_int hour :: 64 word) = 106752 * 24 * hour - 2 ^ 64"
    by (simp add: hour_def minute_def second_def)
  ultimately show ?thesis by (simp add: parseDuration_def)
qed

end
