(* ===== verification/Client_Session.thy ===== *)
theory Client_Session
  imports Client_Mux
begin

text \<open>
  \<open>muxDialer\<close> of \<open>internal/client/client.go\<close> under concurrency: every SOCKS connection runs \<open>dial\<close> in its
  own goroutine, and they share the session under a mutex.

  \<open>getSession\<close> holds the mutex until it returns, dialing included, so it is one step; \<open>session.Open\<close> and
  the reset of the session after a failure are steps of their own. Sessions are numbered in the order in
  which they are established.
\<close>

datatype dialer_pc =
    Wants \<comment> \<open>before \<open>getSession\<close>\<close>
  | Holds nat \<comment> \<open>\<open>getSession\<close> has returned the session\<close>
  | Resets nat \<comment> \<open>\<open>session.Open\<close> failed\<close>
  | Streams nat \<comment> \<open>has a stream of the session\<close>
  | Failed

record session_state =
  ss_dialer :: mux_dialer
  ss_live :: "nat set" \<comment> \<open>established and not closed\<close>
  ss_next :: nat \<comment> \<open>sessions established so far\<close>
  ss_pcs :: "dialer_pc list"

definition session_init :: session_state where
  "session_init = \<lparr>ss_dialer = \<lparr>md_session = None\<rparr>, ss_live = {}, ss_next = 0, ss_pcs = []\<rparr>"

definition set_pc :: "nat \<Rightarrow> dialer_pc \<Rightarrow> session_state \<Rightarrow> session_state" where
  "set_pc i p s = s\<lparr>ss_pcs := (ss_pcs s)[i := p]\<rparr>"

text \<open>The step of \<open>getSession\<close>; \<open>redial\<close> says whether dialing a new session succeeds.\<close>

definition acquire :: "bool \<Rightarrow> nat \<Rightarrow> session_state \<Rightarrow> session_state" where
  "acquire redial i s =
     (let dialed = (if redial then Connected (ss_next s) else ContextDone)
      in case getSession (\<lambda>n. n \<notin> ss_live s) (Some dialed) (ss_dialer s) of
           Some (Ok n, d) \<Rightarrow>
             (if n \<in> ss_live s then set_pc i (Holds n) s
              else set_pc i (Holds n)
                     (s\<lparr>ss_dialer := d, ss_live := insert n (ss_live s), ss_next := Suc (ss_next s)\<rparr>))
         | _ \<Rightarrow> set_pc i Failed s)"

text \<open>
  \<open>faulty\<close> says whether \<open>session.Open\<close> may fail on a session that is alive, \<open>lossy\<close> whether a session may
  be lost.
\<close>

inductive session_step :: "bool \<Rightarrow> bool \<Rightarrow> session_state \<Rightarrow> session_state \<Rightarrow> bool"
  for faulty :: bool and lossy :: bool where
  connect: "session_step faulty lossy s (s\<lparr>ss_pcs := ss_pcs s @ [Wants]\<rparr>)"
| get: "i < length (ss_pcs s) \<Longrightarrow> ss_pcs s ! i = Wants \<Longrightarrow> session_step faulty lossy s (acquire redial i s)"
| open_ok: "i < length (ss_pcs s) \<Longrightarrow> ss_pcs s ! i = Holds n \<Longrightarrow> n \<in> ss_live s \<Longrightarrow>
    session_step faulty lossy s (set_pc i (Streams n) s)"
| open_fails: "i < length (ss_pcs s) \<Longrightarrow> ss_pcs s ! i = Holds n \<Longrightarrow> n \<notin> ss_live s \<or> faulty \<Longrightarrow>
    session_step faulty lossy s (set_pc i (Resets n) s)"
| reset: "i < length (ss_pcs s) \<Longrightarrow> ss_pcs s ! i = Resets n \<Longrightarrow>
    session_step faulty lossy s (set_pc i Failed (s\<lparr>ss_dialer := drop_session (ss_dialer s)\<rparr>))"
| lost: "n \<in> ss_live s \<Longrightarrow> lossy \<Longrightarrow> session_step faulty lossy s (s\<lparr>ss_live := ss_live s - {n}\<rparr>)"

inductive_cases session_stepE: "session_step faulty lossy s t"

inductive session_reach :: "bool \<Rightarrow> bool \<Rightarrow> session_state \<Rightarrow> bool" for faulty :: bool and lossy :: bool where
  start: "session_reach faulty lossy session_init"
| more: "session_reach faulty lossy s \<Longrightarrow> session_step faulty lossy s t \<Longrightarrow> session_reach faulty lossy t"

section \<open>Sharing\<close>

text \<open>Without losses and failures there is at most one session, and every goroutine is on it.\<close>

fun on_session :: "nat set \<Rightarrow> dialer_pc \<Rightarrow> bool" where
  "on_session ns (Holds n) \<longleftrightarrow> n \<in> ns"
| "on_session ns (Streams n) \<longleftrightarrow> n \<in> ns"
| "on_session ns (Resets n) \<longleftrightarrow> False"
| "on_session ns Wants \<longleftrightarrow> True"
| "on_session ns Failed \<longleftrightarrow> True"

definition shared_inv :: "session_state \<Rightarrow> bool" where
  "shared_inv s \<longleftrightarrow>
     ss_live s \<in> {{}, {0}} \<and> ss_next s = card (ss_live s) \<and>
     md_session (ss_dialer s) = (if ss_live s = {} then None else Some 0) \<and>
     (\<forall>p \<in> set (ss_pcs s). on_session (ss_live s) p)"

lemma set_pc_on_session:
  "\<forall>p \<in> set (ss_pcs s). on_session ns p \<Longrightarrow> on_session ns p \<Longrightarrow> \<forall>p \<in> set (ss_pcs (set_pc i p s)). on_session ns p"
  using set_update_subset_insert [of "ss_pcs s" i p] by (auto simp: set_pc_def)

lemma on_session_mono: "on_session {} p \<Longrightarrow> on_session ns p"
  by (cases p) simp_all

lemma set_pc_frame [simp]:
  "ss_live (set_pc i p s) = ss_live s" "ss_next (set_pc i p s) = ss_next s" "ss_dialer (set_pc i p s) = ss_dialer s"
  by (simp_all add: set_pc_def)

lemma acquire_shared:
  assumes "shared_inv s"
  shows "shared_inv (acquire redial i s)"
proof -
  obtain ns where ns: "ns \<in> {{}, {0}}" "ss_live s = ns" "ss_next s = card ns"
    "md_session (ss_dialer s) = (if ns = {} then None else Some 0)" "\<forall>p \<in> set (ss_pcs s). on_session ns p"
    using assms unfolding shared_inv_def by auto
  show ?thesis
  proof (cases "ns = {}")
    case False
    then have "ns = {0}" using ns(1) by simp
    then have "acquire redial i s = set_pc i (Holds 0) s"
      using ns by (simp add: acquire_def getSession_def Let_def)
    then show ?thesis
      using ns \<open>ns = {0}\<close> set_pc_on_session [OF ns(5), of "Holds 0" i] by (auto simp: shared_inv_def)
  next
    case [simp]: True
    show ?thesis
    proof (cases redial)
      case True
      let ?s = "s\<lparr>ss_dialer := (ss_dialer s)\<lparr>md_session := Some 0\<rparr>, ss_live := {0}, ss_next := 1\<rparr>"
      have a: "acquire redial i s = set_pc i (Holds 0) ?s"
        using ns True by (simp add: acquire_def getSession_def Let_def)
      have "\<forall>p \<in> set (ss_pcs ?s). on_session {0} p" using ns(5) on_session_mono by auto
      from set_pc_on_session [OF this, of "Holds 0" i] show ?thesis unfolding a shared_inv_def by auto
    next
      case False
      then have "acquire redial i s = set_pc i Failed s"
        using ns by (simp add: acquire_def getSession_def Let_def)
      then show ?thesis using ns set_pc_on_session [OF ns(5), of Failed i] by (auto simp: shared_inv_def)
    qed
  qed
qed

lemma set_pc_shared: "shared_inv s \<Longrightarrow> on_session (ss_live s) p \<Longrightarrow> shared_inv (set_pc i p s)"
  using set_pc_on_session [of s "ss_live s" p i] by (simp add: shared_inv_def)

lemma pc_on_session: "shared_inv s \<Longrightarrow> i < length (ss_pcs s) \<Longrightarrow> on_session (ss_live s) (ss_pcs s ! i)"
  by (simp add: shared_inv_def)

lemma session_step_shared:
  assumes "session_step False False s t" and "shared_inv s"
  shows "shared_inv t"
  using assms
proof (induction rule: session_step.induct)
  case (connect s)
  then show ?case by (simp add: shared_inv_def)
next
  case (get i s redial)
  then show ?case by (simp add: acquire_shared)
next
  case (open_ok i s n)
  then show ?case by (intro set_pc_shared) simp_all
next
  case (open_fails i s n)
  then show ?case using pc_on_session [of s i] by simp
next
  case (reset i s n)
  then show ?case using pc_on_session [of s i] by simp
qed simp

lemma session_reach_shared: "session_reach False False s \<Longrightarrow> shared_inv s"
proof (induction rule: session_reach.induct)
  case start
  show ?case by (simp add: session_init_def shared_inv_def)
qed (rule session_step_shared)

section \<open>Properties\<close>

text \<open>C11: However many connections dial at the same time, they share one session: as long as no session is lost
  and opening a stream does not fail, at most one is ever established, and every stream is on it.\<close>

theorem sessions_shared:
  assumes "session_reach False False s"
  shows "ss_next s \<le> 1 \<and> (\<forall>n. Streams n \<in> set (ss_pcs s) \<longrightarrow> n = 0 \<and> md_session (ss_dialer s) = Some 0 \<and> 0 \<in> ss_live s)"
proof -
  note inv = session_reach_shared [OF assms]
  have "on_session (ss_live s) (Streams n)" if "Streams n \<in> set (ss_pcs s)" for n
    using inv that unfolding shared_inv_def by blast
  then show ?thesis using inv by (fastforce simp: shared_inv_def)
qed

text \<open>Two connections dial, and both get a stream.\<close>

definition demo_shared :: session_state where
  "demo_shared = \<lparr>ss_dialer = \<lparr>md_session = Some 0\<rparr>, ss_live = {0}, ss_next = 1, ss_pcs = [Streams 0, Streams 0]\<rparr>"

lemma reach_get:
  "session_reach faulty lossy s \<Longrightarrow> i < length (ss_pcs s) \<Longrightarrow> ss_pcs s ! i = Wants \<Longrightarrow> acquire redial i s = t \<Longrightarrow>
   session_reach faulty lossy t"
  using session_reach.more [OF _ get] by blast

lemma demo_shared_reach: "session_reach False False demo_shared"
proof -
  let ?s = "\<lambda>d l k ps. \<lparr>ss_dialer = \<lparr>md_session = d\<rparr>, ss_live = l, ss_next = k, ss_pcs = ps\<rparr>"
  have "session_reach False False (?s None {} 0 [])"
    using session_reach.start [of False False] by (simp add: session_init_def)
  then have "session_reach False False (?s None {} 0 [Wants])"
    using session_reach.more [OF _ connect] by fastforce
  then have "session_reach False False (?s None {} 0 [Wants, Wants])"
    using session_reach.more [OF _ connect] by fastforce
  then have "session_reach False False (?s (Some 0) {0} 1 [Holds 0, Wants])"
    using session_reach.more [OF _ get [where i = 0 and redial = True]]
    by (fastforce simp: acquire_def getSession_def set_pc_def)
  then have "session_reach False False (?s (Some 0) {0} 1 [Holds 0, Holds 0])"
    using session_reach.more [OF _ get [where i = 1 and redial = True]]
    by (fastforce simp: acquire_def getSession_def set_pc_def)
  then have "session_reach False False (?s (Some 0) {0} 1 [Streams 0, Holds 0])"
    using session_reach.more [OF _ open_ok [where i = 0 and n = 0]] by (fastforce simp: set_pc_def)
  then have "session_reach False False (?s (Some 0) {0} 1 [Streams 0, Streams 0])"
    using session_reach.more [OF _ open_ok [where i = 1 and n = 0]] by (fastforce simp: set_pc_def)
  then show ?thesis by (simp add: demo_shared_def)
qed

lemma sessions_shared_witness:
  "ss_next demo_shared \<le> 1 \<and> md_session (ss_dialer demo_shared) = Some 0"
  using sessions_shared [OF demo_shared_reach] by (auto simp: demo_shared_def)

text \<open>C0: A goroutine whose \<open>session.Open\<close> failed on an old session throws away the new one that another goroutine
  has dialed meanwhile: a state is reachable in which a session is alive and in use, the dialer has
  forgotten it, and the next connection establishes one more, although opening a stream fails on closed
  sessions only.\<close>

theorem stale_failure_drops_session:
  "\<exists>s t. session_reach False True s \<and> md_session (ss_dialer s) = None \<and> ss_live s = {1} \<and> Streams 1 \<in> set (ss_pcs s) \<and>
     session_step False True s t \<and> ss_live t = {1, 2}"
proof -
  let ?s = "\<lambda>d l k ps. \<lparr>ss_dialer = \<lparr>md_session = d\<rparr>, ss_live = l, ss_next = k, ss_pcs = ps\<rparr>"
  let ?r = "session_reach False True"
  have "?r (?s None {} 0 [])"
    using session_reach.start [of False True] by (simp add: session_init_def)
  then have "?r (?s None {} 0 [Wants])"
    using session_reach.more [OF _ connect] by fastforce
  then have "?r (?s None {} 0 [Wants, Wants])"
    using session_reach.more [OF _ connect] by fastforce
  then have "?r (?s None {} 0 [Wants, Wants, Wants])"
    using session_reach.more [OF _ connect] by fastforce
  then have "?r (?s (Some 0) {0} 1 [Holds 0, Wants, Wants])"
    using session_reach.more [OF _ get [where i = 0 and redial = True]]
    by (fastforce simp: acquire_def getSession_def set_pc_def)
  then have "?r (?s (Some 0) {} 1 [Holds 0, Wants, Wants])"
    using session_reach.more [OF _ lost [where n = 0]] by fastforce
  then have "?r (?s (Some 0) {} 1 [Resets 0, Wants, Wants])"
    using session_reach.more [OF _ open_fails [where i = 0 and n = 0]] by (fastforce simp: set_pc_def)
  then have "?r (?s (Some 1) {1} 2 [Resets 0, Holds 1, Wants])"
    by (rule reach_get [where i = 1 and redial = True]) (simp_all add: acquire_def getSession_def set_pc_def)
  then have "?r (?s (Some 1) {1} 2 [Resets 0, Streams 1, Wants])"
    using session_reach.more [OF _ open_ok [where i = 1 and n = 1]] by (fastforce simp: set_pc_def)
  then have reach: "?r (?s None {1} 2 [Failed, Streams 1, Wants])"
    using session_reach.more [OF _ reset [where i = 0 and n = 0]] by (fastforce simp: set_pc_def drop_session_def)
  have "session_step False True (?s None {1} 2 [Failed, Streams 1, Wants]) (?s (Some 2) {1, 2} 3 [Failed, Streams 1, Holds 2])"
    using get [of 2 "?s None {1} 2 [Failed, Streams 1, Wants]" False True True]
    by (simp add: acquire_def getSession_def set_pc_def insert_commute)
  with reach show ?thesis by fastforce
qed

end
