(* ===== verification/Client_Forward.thy ===== *)
theory Client_Forward
  imports Client_Mux
begin

text \<open>
  \<open>Forward\<close> and \<open>runForwardListener\<close> of \<open>internal/client/forward.go\<close>: the loop that keeps a session
  up, with the goroutines it waits for, as a step relation.

  A forward listener is a goroutine that counts in the wait group until it returns: it starts,
  listens, and returns only when listening fails or when \<open>Accept\<close> reports an error. Nothing in the
  program closes the listener. \<open>faulty\<close> says whether the operating system ever reports such an
  error.
\<close>

datatype phase = Dialing | Serving | Draining | Returned

datatype goroutine = Starting | Listening | Done

record forward_state =
  fw_phase :: phase
  fw_alive :: bool \<comment> \<open>the session is open\<close>
  fw_listeners :: "goroutine list" \<comment> \<open>of the current round, one for each forward\<close>
  fw_acceptor :: goroutine \<comment> \<open>\<open>acceptReverseStreams\<close>\<close>
  fw_sessions :: nat \<comment> \<open>sessions established so far\<close>
  fw_events :: "client_event list"

definition forward_init :: forward_state where
  "forward_init =
     \<lparr>fw_phase = Dialing, fw_alive = False, fw_listeners = [], fw_acceptor = Done, fw_sessions = 0,
      fw_events = []\<rparr>"

definition wait_done :: "forward_state \<Rightarrow> bool" where
  "wait_done s \<longleftrightarrow> (\<forall>g \<in> set (fw_listeners s). g = Done) \<and> fw_acceptor s = Done"

text \<open>The attribute \<open>server\<close> of the first record, the configured URL, is left out.\<close>

definition session_up :: "port_forward list \<Rightarrow> port_forward list \<Rightarrow> (bool \<times> bool) list \<Rightarrow> forward_state \<Rightarrow> forward_state" where
  "session_up forwards reverses oks s =
     s\<lparr>fw_phase := Serving, fw_alive := True,
       fw_listeners := map (\<lambda>_. Starting) forwards,
       fw_acceptor := (if reverses = [] then Done else Listening),
       fw_sessions := Suc (fw_sessions s),
       fw_events := fw_events s @ client_log LInfo ''mux session established'' [] # register_all oks reverses\<rparr>"

definition set_listener :: "nat \<Rightarrow> goroutine \<Rightarrow> forward_state \<Rightarrow> forward_state" where
  "set_listener i g s = s\<lparr>fw_listeners := (fw_listeners s)[i := g]\<rparr>"

definition add_events :: "client_event list \<Rightarrow> forward_state \<Rightarrow> forward_state" where
  "add_events es s = s\<lparr>fw_events := fw_events s @ es\<rparr>"

definition listener_log :: "level \<Rightarrow> string \<Rightarrow> port_forward \<Rightarrow> client_event" where
  "listener_log l m f = client_log l m [(''bind'', AStr (pf_bind f)), (''target'', AStr (pf_target f))]"

text \<open>
  \<open>runForwardListener\<close> listens (\<open>laddr\<close> is what \<open>ln.Addr()\<close> prints), or returns; the goroutine around
  it logs the error.
\<close>

definition listener_starts :: "port_forward list \<Rightarrow> nat \<Rightarrow> string \<Rightarrow> forward_state \<Rightarrow> forward_state" where
  "listener_starts forwards i laddr s =
     add_events
       [client_log LInfo ''forwarding'' [(''bind'', AStr laddr), (''target'', AStr (pf_target (forwards ! i)))]]
       (set_listener i Listening s)"

definition listener_returns :: "port_forward list \<Rightarrow> nat \<Rightarrow> forward_state \<Rightarrow> forward_state" where
  "listener_returns forwards i s =
     add_events [listener_log LError ''forward listener stopped'' (forwards ! i)] (set_listener i Done s)"

text \<open>The steps that the client takes without a stream of the server, and all steps.\<close>

inductive forward_own ::
    "port_forward list \<Rightarrow> port_forward list \<Rightarrow> bool \<Rightarrow> forward_state \<Rightarrow> forward_state \<Rightarrow> bool"
  for forwards :: "port_forward list" and reverses :: "port_forward list" and faulty :: bool where
  dial_ok:
    "fw_phase s = Dialing \<Longrightarrow> length oks = length reverses \<Longrightarrow>
     forward_own forwards reverses faulty s (session_up forwards reverses oks s)"
| dial_fails:
    "fw_phase s = Dialing \<Longrightarrow> forward_own forwards reverses faulty s (s\<lparr>fw_phase := Returned\<rparr>)"
| listen_ok:
    "i < length (fw_listeners s) \<Longrightarrow> fw_listeners s ! i = Starting \<Longrightarrow>
     forward_own forwards reverses faulty s (listener_starts forwards i laddr s)"
| listen_fails:
    "i < length (fw_listeners s) \<Longrightarrow> fw_listeners s ! i = Starting \<Longrightarrow>
     forward_own forwards reverses faulty s (listener_returns forwards i s)"
| local_conn:
    "i < length (fw_listeners s) \<Longrightarrow> fw_listeners s ! i = Listening \<Longrightarrow> (opens \<Longrightarrow> fw_alive s) \<Longrightarrow>
     forward_own forwards reverses faulty s
       (add_events (forwardConn opens writes (pf_target (forwards ! i))) s)"
| accept_fails:
    "i < length (fw_listeners s) \<Longrightarrow> fw_listeners s ! i = Listening \<Longrightarrow> faulty \<Longrightarrow>
     forward_own forwards reverses faulty s (listener_returns forwards i s)"
| acceptor_ends:
    "fw_acceptor s = Listening \<Longrightarrow> \<not> fw_alive s \<Longrightarrow>
     forward_own forwards reverses faulty s (s\<lparr>fw_acceptor := Done\<rparr>)"
| session_lost:
    "fw_alive s \<Longrightarrow> forward_own forwards reverses faulty s (s\<lparr>fw_alive := False\<rparr>)"
| notice_loss:
    "fw_phase s = Serving \<Longrightarrow> \<not> fw_alive s \<Longrightarrow>
     forward_own forwards reverses faulty s
       (add_events [client_log LWarn ''session lost, reconnecting'' []] (s\<lparr>fw_phase := Draining\<rparr>))"
| reconnect:
    "fw_phase s = Draining \<Longrightarrow> wait_done s \<Longrightarrow>
     forward_own forwards reverses faulty s (s\<lparr>fw_phase := Dialing\<rparr>)"

inductive forward_step ::
    "port_forward list \<Rightarrow> port_forward list \<Rightarrow> bool \<Rightarrow> forward_state \<Rightarrow> forward_state \<Rightarrow> bool"
  for forwards :: "port_forward list" and reverses :: "port_forward list" and faulty :: bool where
  own: "forward_own forwards reverses faulty s t \<Longrightarrow> forward_step forwards reverses faulty s t"
| reverse_stream:
    "fw_acceptor s = Listening \<Longrightarrow> fw_alive s \<Longrightarrow>
     forward_step forwards reverses faulty s (add_events (acceptReverse (reverseLookup reverses) dials bs) s)"

inductive_cases forward_stepE: "forward_step forwards reverses faulty s t"

inductive forward_steps ::
    "port_forward list \<Rightarrow> port_forward list \<Rightarrow> bool \<Rightarrow> forward_state \<Rightarrow> forward_state \<Rightarrow> bool"
  for forwards :: "port_forward list" and reverses :: "port_forward list" and faulty :: bool where
  none: "forward_steps forwards reverses faulty s s"
| more: "forward_steps forwards reverses faulty s t \<Longrightarrow> forward_step forwards reverses faulty t u \<Longrightarrow>
         forward_steps forwards reverses faulty s u"

text \<open>\<open>fw_phase\<close>, liveness of the session and the goroutines fit together.\<close>

definition forward_inv :: "port_forward list \<Rightarrow> port_forward list \<Rightarrow> forward_state \<Rightarrow> bool" where
  "forward_inv forwards reverses s \<longleftrightarrow>
     (fw_phase s \<in> {Dialing, Returned} \<longrightarrow> \<not> fw_alive s \<and> wait_done s) \<and>
     (fw_phase s = Draining \<longrightarrow> \<not> fw_alive s) \<and> fw_acceptor s \<noteq> Starting \<and>
     (fw_phase s \<in> {Serving, Draining} \<longrightarrow> length (fw_listeners s) = length forwards) \<and>
     (\<forall>t ok. CDialTCP t ok \<in> set (fw_events s) \<longrightarrow> t \<in> pf_target ` set reverses) \<and>
     (\<forall>h. CHeader h \<in> set (fw_events s) \<longrightarrow>
        (\<exists>f \<in> set forwards. h = header_bytes CmdConnect (pf_target f)) \<or>
        (\<exists>r \<in> set reverses. h = header_bytes CmdReverseBind (pf_bind r)))"

lemmas forward_defs = add_events_def set_listener_def listener_starts_def listener_returns_def session_up_def

lemma not_wait_done: "i < length (fw_listeners s) \<Longrightarrow> fw_listeners s ! i \<noteq> Done \<Longrightarrow> \<not> wait_done s"
  by (auto simp: wait_done_def dest: nth_mem)

text \<open>A goroutine of the wait group runs only while a session is served or drained.\<close>

lemma listener_phase:
  assumes "forward_inv forwards reverses s" and "i < length (fw_listeners s)" and "fw_listeners s ! i \<noteq> Done"
  shows "fw_phase s = Serving \<or> fw_phase s = Draining" and "i < length forwards"
proof -
  have "\<not> wait_done s" using assms(2,3) by (rule not_wait_done)
  then show p: "fw_phase s = Serving \<or> fw_phase s = Draining"
    using assms(1) by (cases "fw_phase s") (auto simp: forward_inv_def)
  then show "i < length forwards" using assms(1,2) by (auto simp: forward_inv_def)
qed

lemma client_log_simps [simp]:
  "CDialTCP t ok \<noteq> client_log l m as" "CHeader h \<noteq> client_log l m as"
  "CDialTCP t ok \<noteq> listener_log l m f" "CHeader h \<noteq> listener_log l m f"
  by (simp_all add: client_log_def listener_log_def)

lemma register_all_events:
  "CDialTCP t ok \<notin> set (register_all oks rs)"
  "CHeader h \<in> set (register_all oks rs) \<Longrightarrow> \<exists>r \<in> set rs. h = header_bytes CmdReverseBind (pf_bind r)"
proof -
  have one: "CDialTCP t ok \<notin> set (snd (registerReverseBind a b c))"
    "CHeader h \<in> set (snd (registerReverseBind a b c)) \<Longrightarrow> h = header_bytes CmdReverseBind c" for a b c
    by (cases b; simp add: registerReverseBind_def split: if_splits)+
  show "CDialTCP t ok \<notin> set (register_all oks rs)"
  proof (induction oks rs rule: register_all.induct)
    case (1 ok oks r rs)
    then show ?case
      using one(1) [of "fst ok" "snd ok" "pf_bind r"]
      by (cases "registerReverseBind (fst ok) (snd ok) (pf_bind r)") (simp split: bool.split)
  qed simp_all
  show "CHeader h \<in> set (register_all oks rs) \<Longrightarrow> \<exists>r \<in> set rs. h = header_bytes CmdReverseBind (pf_bind r)"
  proof (induction oks rs rule: register_all.induct)
    case (1 ok oks r rs)
    then show ?case
      using one(2) [of "fst ok" "snd ok" "pf_bind r"]
      by (cases "registerReverseBind (fst ok) (snd ok) (pf_bind r)") (auto split: bool.splits)
  qed simp_all
qed

lemma register_all_ok:
  "r \<in> set rs \<Longrightarrow>
     CHeader (header_bytes CmdReverseBind (pf_bind r)) \<in> set (register_all (map (\<lambda>_. (True, True)) rs) rs)"
  by (induction rs) (auto simp: registerReverseBind_def)

lemma forwardConn_events:
  "CDialTCP t ok \<notin> set (forwardConn opens writes x)"
  "CHeader h \<in> set (forwardConn opens writes x) \<Longrightarrow> h = header_bytes CmdConnect x"
  by (cases writes; simp add: forwardConn_def split: if_splits)+

lemma acceptReverse_header: "CHeader h \<notin> set (acceptReverse lookup dials bs)"
  by (auto simp: acceptReverse_def handleLocalReverseConn_def split: outcome.splits option.splits)

lemma forward_own_inv:
  assumes "forward_own forwards reverses faulty s t" and "forward_inv forwards reverses s"
  shows "forward_inv forwards reverses t"
  using assms
proof (induction rule: forward_own.induct)
  case (dial_ok s oks)
  then show ?case
    using register_all_events [where oks = oks and rs = reverses]
    by (fastforce simp: forward_inv_def forward_defs)
next
  case (local_conn i s opens writes)
  then have "forwards ! i \<in> set forwards" by (simp add: listener_phase(2))
  then show ?case
    using local_conn.prems forwardConn_events [where opens = opens and writes = writes and x = "pf_target (forwards ! i)"]
    by (fastforce simp: forward_inv_def forward_defs wait_done_def)
next
  case (listen_ok i s laddr)
  then show ?case
    using listener_phase(1) [OF listen_ok.prems listen_ok.hyps(1)] by (auto simp: forward_inv_def forward_defs)
next
  case (listen_fails i s)
  then show ?case
    using listener_phase(1) [OF listen_fails.prems listen_fails.hyps(1)] by (auto simp: forward_inv_def forward_defs)
next
  case (accept_fails i s)
  then show ?case
    using listener_phase(1) [OF accept_fails.prems accept_fails.hyps(1)] by (auto simp: forward_inv_def forward_defs)
qed (auto simp: forward_inv_def forward_defs wait_done_def)

lemma forward_step_inv:
  assumes "forward_step forwards reverses faulty s t" and "forward_inv forwards reverses s"
  shows "forward_inv forwards reverses t"
  using assms
proof (induction rule: forward_step.induct)
  case (own s t)
  then show ?case by (simp add: forward_own_inv)
next
  case (reverse_stream s dials bs)
  then show ?case
    using acceptReverse_dials [of _ _ reverses dials bs] acceptReverse_header
    by (fastforce simp: forward_inv_def forward_defs wait_done_def)
qed

lemma forward_inv_init: "forward_inv forwards reverses forward_init"
  by (simp add: forward_inv_def forward_init_def wait_done_def)

lemma forward_steps_inv:
  "forward_steps forwards reverses faulty s t \<Longrightarrow> forward_inv forwards reverses s \<Longrightarrow> forward_inv forwards reverses t"
  by (induction rule: forward_steps.induct) (auto intro: forward_step_inv)

section \<open>Reconnecting\<close>

text \<open>
  Once the session is lost, a listener that listens keeps the loop in \<open>wg.Wait\<close> for ever, unless
  the operating system fails its \<open>Accept\<close>.
\<close>

definition stuck :: "nat \<Rightarrow> forward_state \<Rightarrow> bool" where
  "stuck i s \<longleftrightarrow>
     fw_phase s = Draining \<and> \<not> fw_alive s \<and> i < length (fw_listeners s) \<and> fw_listeners s ! i = Listening"

lemma stuck_own:
  assumes "forward_own forwards reverses False s t" and "stuck i s"
  shows "stuck i t \<and> fw_sessions t = fw_sessions s"
  using assms
  by (induction rule: forward_own.induct)
    (auto simp: stuck_def forward_defs nth_list_update not_wait_done)

lemma stuck_step:
  assumes "forward_step forwards reverses False s t" and "stuck i s"
  shows "stuck i t \<and> fw_sessions t = fw_sessions s"
  using assms by (cases rule: forward_step.cases) (auto simp: stuck_def add_events_def dest: stuck_own)

lemma stuck_forever:
  "forward_steps forwards reverses False s t \<Longrightarrow> stuck i s \<Longrightarrow> stuck i t \<and> fw_sessions t = fw_sessions s"
  by (induction rule: forward_steps.induct) (auto dest: stuck_step)

text \<open>Without forward listeners the loop gets back to dialing.\<close>

lemma drain_reverse_only:
  assumes "forward_inv [] reverses s" and "fw_phase s = Draining"
  shows "\<exists>t. forward_steps [] reverses faulty s t \<and> fw_phase t = Dialing \<and>
    fw_sessions t = fw_sessions s \<and> fw_events t = fw_events s"
proof -
  have l: "fw_listeners s = []" and a: "\<not> fw_alive s" using assms by (auto simp: forward_inv_def)
  have wait: "\<exists>t. forward_steps [] reverses faulty s t \<and> fw_phase t = Draining \<and> wait_done t \<and>
      fw_sessions t = fw_sessions s \<and> fw_events t = fw_events s"
  proof (cases "fw_acceptor s = Done")
    case True
    then have "wait_done s" using l by (simp add: wait_done_def)
    then show ?thesis using assms(2) forward_steps.none by metis
  next
    case False
    then have "fw_acceptor s = Listening" using assms(1,2) by (cases "fw_acceptor s") (auto simp: forward_inv_def)
    from forward_steps.more [OF forward_steps.none own [OF acceptor_ends [OF this a]]]
    show ?thesis using l assms(2) by (force simp: wait_done_def)
  qed
  then obtain t where t: "forward_steps [] reverses faulty s t" "fw_phase t = Draining" "wait_done t"
    "fw_sessions t = fw_sessions s" "fw_events t = fw_events s" by blast
  from forward_steps.more [OF t(1) own [OF reconnect [OF t(2,3)]]] show ?thesis using t(4,5) by force
qed

section \<open>Properties\<close>

text \<open>C0: Once the session of a client with port forwards is lost while one of its listeners listens, the client
  never gets another session, as long as the operating system does not fail \<open>Accept\<close>: it stays in
  \<open>wg.Wait\<close>, although \<open>Forward\<close> is meant to reconnect.\<close>

theorem listener_blocks_reconnect:
  assumes "forward_steps forwards reverses False forward_init s" and "fw_phase s = Draining"
    and "Listening \<in> set (fw_listeners s)" and "forward_steps forwards reverses False s t"
  shows "fw_phase t = Draining \<and> fw_sessions t = fw_sessions s"
proof -
  obtain i where "i < length (fw_listeners s)" "fw_listeners s ! i = Listening"
    using assms(3) by (auto simp: in_set_conv_nth)
  then have "stuck i s"
    using assms(2) forward_steps_inv [OF assms(1) forward_inv_init] by (simp add: stuck_def forward_inv_def)
  from stuck_forever [OF assms(4) this] show ?thesis by (simp add: stuck_def)
qed

text \<open>A client with one forward: it connects, listens, and loses the session.\<close>

definition demo_forward :: port_forward where
  "demo_forward = \<lparr>pf_bind = ''127.0.0.1:8080'', pf_target = ''10.0.0.1:80'', pf_reverse = False\<rparr>"

definition demo_listening :: forward_state where
  "demo_listening = listener_starts [demo_forward] 0 ''127.0.0.1:8080'' (session_up [demo_forward] [] [] forward_init)"

definition demo_draining :: forward_state where
  "demo_draining =
     add_events [client_log LWarn ''session lost, reconnecting'' []]
       (demo_listening\<lparr>fw_alive := False, fw_phase := Draining\<rparr>)"

lemma demo_draining_reached: "forward_steps [demo_forward] [] False forward_init demo_draining"
proof -
  let ?up = "session_up [demo_forward] [] [] forward_init"
  have "forward_step [demo_forward] [] False forward_init ?up"
    by (intro forward_step.own dial_ok) (simp_all add: forward_init_def)
  moreover have "forward_step [demo_forward] [] False ?up demo_listening"
    unfolding demo_listening_def by (intro forward_step.own listen_ok) (simp_all add: session_up_def)
  moreover have "forward_step [demo_forward] [] False demo_listening (demo_listening\<lparr>fw_alive := False\<rparr>)"
    by (intro forward_step.own session_lost) (simp add: demo_listening_def forward_defs)
  moreover have "forward_step [demo_forward] [] False (demo_listening\<lparr>fw_alive := False\<rparr>) demo_draining"
    unfolding demo_draining_def
    using own [OF notice_loss, of "demo_listening\<lparr>fw_alive := False\<rparr>" "[demo_forward]" "[]" False]
    by (simp add: demo_listening_def forward_defs)
  ultimately show ?thesis by (meson forward_steps.intros)
qed

lemma listener_blocks_reconnect_witness:
  "fw_phase demo_draining = Draining \<and> fw_sessions demo_draining = 1"
proof -
  have d: "fw_phase demo_draining = Draining" "Listening \<in> set (fw_listeners demo_draining)"
    "fw_sessions demo_draining = 1"
    by (simp_all add: demo_draining_def demo_listening_def forward_defs forward_init_def)
  show ?thesis
    using listener_blocks_reconnect [OF demo_draining_reached d(1,2) forward_steps.none] d(3) by simp
qed

text \<open>C31: A client with reverse forwards only does reconnect: from every state in which it has noticed the loss
  of its session it can go on to a new session, on which it registers every reverse forward again.\<close>

theorem reverse_client_reconnects:
  assumes "forward_steps [] reverses faulty forward_init s" and "fw_phase s = Draining"
  shows "\<exists>u. forward_steps [] reverses faulty s u \<and> fw_phase u = Serving \<and> fw_alive u \<and>
    fw_sessions u = Suc (fw_sessions s) \<and>
    (\<exists>es. fw_events u = fw_events s @ es \<and>
       (\<forall>r. r \<in> set reverses \<longrightarrow> CHeader (header_bytes CmdReverseBind (pf_bind r)) \<in> set es))"
proof -
  from drain_reverse_only [OF forward_steps_inv [OF assms(1) forward_inv_init] assms(2)]
  obtain t where t: "forward_steps [] reverses faulty s t" "fw_phase t = Dialing"
    "fw_sessions t = fw_sessions s" "fw_events t = fw_events s" by blast
  let ?u = "session_up [] reverses (map (\<lambda>_. (True, True)) reverses) t"
  have "forward_steps [] reverses faulty s ?u"
    using t(1) by (rule forward_steps.more) (rule own, rule dial_ok, simp_all add: t(2))
  then show ?thesis
    using t(3,4) register_all_ok by (intro exI [of _ ?u]) (auto simp: session_up_def)
qed

definition demo_lost :: forward_state where
  "demo_lost =
     add_events [client_log LWarn ''session lost, reconnecting'' []]
       ((session_up [] [demo_reverse] [(True, True)] forward_init)\<lparr>fw_alive := False, fw_phase := Draining\<rparr>)"

lemma demo_lost_reached: "forward_steps [] [demo_reverse] False forward_init demo_lost"
proof -
  let ?up = "session_up [] [demo_reverse] [(True, True)] forward_init"
  have "forward_step [] [demo_reverse] False forward_init ?up"
    by (intro forward_step.own dial_ok) (simp_all add: forward_init_def)
  moreover have "forward_step [] [demo_reverse] False ?up (?up\<lparr>fw_alive := False\<rparr>)"
    by (intro forward_step.own session_lost) (simp add: session_up_def)
  moreover have "forward_step [] [demo_reverse] False (?up\<lparr>fw_alive := False\<rparr>) demo_lost"
    unfolding demo_lost_def
    using own [OF notice_loss, of "?up\<lparr>fw_alive := False\<rparr>" "[]" "[demo_reverse]" False] by (simp add: session_up_def)
  ultimately show ?thesis by (meson forward_steps.intros)
qed

lemma reverse_client_reconnects_witness:
  "\<exists>u. forward_steps [] [demo_reverse] False demo_lost u \<and> fw_phase u = Serving \<and> fw_sessions u = 2"
proof -
  have "fw_phase demo_lost = Draining" "fw_sessions demo_lost = 1"
    by (simp_all add: demo_lost_def forward_defs forward_init_def)
  with reverse_client_reconnects [OF demo_lost_reached] show ?thesis by fastforce
qed

end
