(* ===== verification/Session_Link.thy ===== *)
theory Session_Link
  imports Client_Forward Server_Mux "HOL-Library.Sublist"
begin

text \<open>
  The two ends of the multiplexed sessions together: the client of \<open>internal/client/forward.go\<close>
  (\<open>forward_own\<close> and the streams it accepts) and, for each session that it has dialed, the server of
  \<open>internal/server/server.go\<close> (\<open>mux_own\<close> and the streams it accepts). A stream is the list of the bytes that
  the side that opened it has written; streams that the other side has not accepted yet are in
  flight. The network may cut a stream anywhere. An old session goes on beside the current one,
  which is the last.
\<close>

section \<open>The joint system\<close>

record link_session =
  ls_name :: string \<comment> \<open>the identity that the server authenticated\<close>
  ls_remote :: string
  ls_server :: mux_state
  ls_up :: "bytes list" \<comment> \<open>opened by the client, in flight\<close>
  ls_down :: "bytes list" \<comment> \<open>opened by the server, in flight\<close>

record link_state =
  lk_client :: forward_state
  lk_sessions :: "link_session list"

definition link_init :: link_state where
  "link_init = \<lparr>lk_client = forward_init, lk_sessions = []\<rparr>"

definition new_session :: "string \<Rightarrow> string \<Rightarrow> link_session" where
  "new_session n r = \<lparr>ls_name = n, ls_remote = r, ls_server = mux_init, ls_up = [], ls_down = []\<rparr>"

text \<open>The headers that a step of the client has written, each to a stream of its own.\<close>

definition headers_of :: "client_event list \<Rightarrow> bytes list" where
  "headers_of es = concat (map (\<lambda>e. case e of CHeader h \<Rightarrow> [h] | _ \<Rightarrow> []) es)"

definition opened_streams :: "forward_state \<Rightarrow> forward_state \<Rightarrow> bytes list" where
  "opened_streams c c' = headers_of (drop (length (fw_events c)) (fw_events c'))"

definition opened_reverse :: "mux_state \<Rightarrow> mux_state \<Rightarrow> bytes list" where
  "opened_reverse m m' = drop (length (ms_sent m)) (ms_sent m')"

definition add_streams :: "bytes list \<Rightarrow> link_session list \<Rightarrow> link_session list" where
  "add_streams bss ss =
     (if ss = [] then [] else butlast ss @ [(last ss)\<lparr>ls_up := ls_up (last ss) @ bss\<rparr>])"

text \<open>What the client of these forwards may ask the server for.\<close>

definition asks :: "port_forward list \<Rightarrow> port_forward list \<Rightarrow> (byte \<times> string) set" where
  "asks forwards reverses =
     {CmdConnect} \<times> pf_target ` set forwards \<union> {CmdReverseBind} \<times> pf_bind ` set reverses"

definition short_addresses :: "port_forward list \<Rightarrow> port_forward list \<Rightarrow> bool" where
  "short_addresses forwards reverses \<longleftrightarrow>
     (\<forall>f \<in> set forwards. length (pf_target f) \<le> 4096) \<and> (\<forall>r \<in> set reverses. length (pf_bind r) \<le> 4096)"

inductive link_step ::
    "port_forward list \<Rightarrow> port_forward list \<Rightarrow> bool \<Rightarrow> server_config \<Rightarrow> link_state \<Rightarrow> link_state \<Rightarrow> bool"
  for forwards :: "port_forward list" and reverses :: "port_forward list" and faulty :: bool
    and cfg :: server_config where
  client_moves:
    "forward_own forwards reverses faulty (lk_client s) c \<Longrightarrow>
     ss = (if fw_sessions c = fw_sessions (lk_client s) then lk_sessions s else lk_sessions s @ [new_session n r]) \<Longrightarrow>
     list_all2 prefix (opened_streams (lk_client s) c) bss \<Longrightarrow>
     link_step forwards reverses faulty cfg s \<lparr>lk_client = c, lk_sessions = add_streams bss ss\<rparr>"
| client_breaks: \<comment> \<open>a header that was only written in part\<close>
    "(cmd, addr) \<in> asks forwards reverses \<Longrightarrow>
     link_step forwards reverses faulty cfg s
       (s\<lparr>lk_sessions := add_streams [take k (header_bytes cmd addr)] (lk_sessions s)\<rparr>)"
| client_accepts:
    "fw_acceptor (lk_client s) = Listening \<Longrightarrow> fw_alive (lk_client s) \<Longrightarrow> Suc i = length (lk_sessions s) \<Longrightarrow>
     bs \<in> set (ls_down (lk_sessions s ! i)) \<Longrightarrow>
     link_step forwards reverses faulty cfg s
       \<lparr>lk_client = add_events (acceptReverse (reverseLookup reverses) dials (take k bs)) (lk_client s),
        lk_sessions = (lk_sessions s)
          [i := (lk_sessions s ! i)\<lparr>ls_down := remove1 bs (ls_down (lk_sessions s ! i))\<rparr>]\<rparr>"
| server_moves:
    "i < length (lk_sessions s) \<Longrightarrow> x = lk_sessions s ! i \<Longrightarrow>
     mux_own cfg (ls_name x) (ls_remote x) (ls_server x) m \<Longrightarrow>
     list_all2 prefix (opened_reverse (ls_server x) m) bss \<Longrightarrow>
     link_step forwards reverses faulty cfg s
       (s\<lparr>lk_sessions := (lk_sessions s)[i := x\<lparr>ls_server := m, ls_down := ls_down x @ bss\<rparr>]\<rparr>)"
| server_accepts:
    "i < length (lk_sessions s) \<Longrightarrow> x = lk_sessions s ! i \<Longrightarrow> bs \<in> set (ls_up x) \<Longrightarrow>
     ms_loop (ls_server x) \<Longrightarrow> ms_alive (ls_server x) \<Longrightarrow>
     link_step forwards reverses faulty cfg s
       (s\<lparr>lk_sessions := (lk_sessions s)
          [i := x\<lparr>ls_server := mux_accept cfg (ls_name x) laddr (take k bs) (ls_server x),
                  ls_up := remove1 bs (ls_up x)\<rparr>]\<rparr>)"

abbreviation link_steps ::
    "port_forward list \<Rightarrow> port_forward list \<Rightarrow> bool \<Rightarrow> server_config \<Rightarrow> link_state \<Rightarrow> link_state \<Rightarrow> bool" where
  "link_steps forwards reverses faulty cfg \<equiv> (link_step forwards reverses faulty cfg)\<^sup>*\<^sup>*"

text \<open>Each side of the joint system makes steps of its own system only.\<close>

lemma link_step_client:
  assumes "link_step forwards reverses faulty cfg s t"
  shows "forward_step forwards reverses faulty (lk_client s) (lk_client t) \<or> lk_client t = lk_client s"
  using assms by cases (auto intro: forward_step.intros)

section \<open>What a stream can carry\<close>

text \<open>A stream with one of the headers of \<open>S\<close>, perhaps cut.\<close>

definition carries :: "(byte \<times> string) set \<Rightarrow> bytes \<Rightarrow> bool" where
  "carries S bs \<longleftrightarrow>
     (\<exists>(cmd, addr) \<in> S. prefix (header_bytes cmd addr) bs \<or> prefix bs (header_bytes cmd addr))"

lemma carries_take: "carries S bs \<Longrightarrow> carries S (take k bs)"
proof -
  assume "carries S bs"
  then obtain cmd addr where h: "(cmd, addr) \<in> S"
    "prefix (header_bytes cmd addr) bs \<or> prefix bs (header_bytes cmd addr)" unfolding carries_def by auto
  have "prefix (take k bs) bs" by (rule take_is_prefix)
  with h(2) have "prefix (header_bytes cmd addr) (take k bs) \<or> prefix (take k bs) (header_bytes cmd addr)"
    using prefix_same_cases prefix_order.trans by metis
  then show ?thesis using h(1) unfolding carries_def by auto
qed

lemma carries_header: "(cmd, addr) \<in> S \<Longrightarrow> prefix (header_bytes cmd addr) bs \<Longrightarrow> carries S bs"
  unfolding carries_def by auto

lemma carries_part: "(cmd, addr) \<in> S \<Longrightarrow> carries S (take k (header_bytes cmd addr))"
  unfolding carries_def using take_is_prefix by fastforce

text \<open>The reader of such a stream gets one of these headers, or an error.\<close>

lemma carries_read:
  assumes "carries S bs" and "\<And>cmd addr. (cmd, addr) \<in> S \<Longrightarrow> length addr \<le> 4096"
    and "fst (ReadHeader bs) = Ok (cmd, addr)"
  shows "(cmd, addr) \<in> S"
proof -
  obtain r where r: "ReadHeader bs = (Ok (cmd, addr), r)" using assms(3) by (metis prod.collapse)
  note sound = ReadHeader_sound [OF r]
  obtain c a where S: "(c, a) \<in> S" and p: "prefix (header_bytes c a) bs \<or> prefix bs (header_bytes c a)"
    using assms(1) unfolding carries_def by auto
  obtain q q' where eq: "header_bytes c a @ q = header_bytes cmd addr @ q'"
    using p
  proof
    assume "prefix (header_bytes c a) bs"
    then obtain q where "bs = header_bytes c a @ q" by (auto simp: prefix_def)
    then show thesis using sound that by metis
  next
    assume "prefix bs (header_bytes c a)"
    then obtain q where "header_bytes c a = bs @ q" by (auto simp: prefix_def)
    then have "header_bytes c a @ [] = header_bytes cmd addr @ r @ q" using sound by (metis append.assoc append_Nil2)
    then show thesis by (rule that)
  qed
  have "ReadHeader (header_bytes cmd addr @ q') = (Ok (c, a), q)"
    using ReadHeader_roundtrip [OF assms(2) [OF S], of c q] unfolding eq .
  moreover have "ReadHeader (header_bytes cmd addr @ q') = (Ok (cmd, addr), q')"
    using ReadHeader_roundtrip sound by blast
  ultimately have "(cmd, addr) = (c, a)" by (metis Pair_inject outcome.inject(1))
  then show ?thesis using S by simp
qed

section \<open>Steps of the two sides\<close>

definition unknown_command :: "server_event \<Rightarrow> bool" where
  "unknown_command e \<longleftrightarrow>
     (case e of Logged l \<Rightarrow> lr_message l = ''unknown stream command'' | _ \<Rightarrow> False)"

definition unknown_bind :: "client_event \<Rightarrow> bool" where
  "unknown_bind e \<longleftrightarrow> (case e of CLogged l \<Rightarrow> lr_message l = ''unknown reverse bind'' | _ \<Rightarrow> False)"

lemma unknown_simps [simp]:
  "unknown_command (log_event lv m as) \<longleftrightarrow> m = ''unknown stream command''"
  "\<not> unknown_command (DialTCP t ok)" "\<not> unknown_command ClosedClient" "\<not> unknown_command ClosedTarget"
  "unknown_bind (client_log lv m as) \<longleftrightarrow> m = ''unknown reverse bind''"
  "\<not> unknown_bind (CDialTCP t ok)" "\<not> unknown_bind (CHeader h)" "\<not> unknown_bind CRelayed"
  "\<not> unknown_bind CClosedStream" "\<not> unknown_bind CClosedLocal"
  by (simp_all add: unknown_command_def unknown_bind_def log_event_def client_log_def)

lemma audited_relay_known: "e \<in> set (audited_relay cfg an n s t) \<Longrightarrow> \<not> unknown_command e"
  by (auto simp: audited_relay_def opened_def closed_def unknown_command_def LogOpen_def LogClose_def Let_def
      split: prod.splits if_splits)

lemma handleMuxConnect_known: "e \<in> set (handleMuxConnect cfg an n r t) \<Longrightarrow> \<not> unknown_command e"
  by (auto simp: handleMuxConnect_def dest: audited_relay_known split: option.splits if_splits)

lemma handleReverseConn_known:
  "handleReverseConn cfg an opens writes source n b = (es, hdr) \<Longrightarrow> e \<in> set es \<Longrightarrow> \<not> unknown_command e"
  by (cases writes) (auto simp: handleReverseConn_def dest: audited_relay_known split: if_splits)

lemma handleMuxConnect_dials: "DialTCP t ok \<in> set (handleMuxConnect cfg an n r t') \<Longrightarrow> t = t'"
  using stream_handler.run_dial [of t ok cfg "(an, n, r, t')"] by (simp add: run_stream_def admitted_stream_def)

text \<open>The server's own steps take nothing new from the client.\<close>

lemma mux_own_frame:
  assumes "mux_own cfg n r s t"
  shows "set (ms_started t) \<subseteq> set (ms_started s)"
    and "rl_bind ` set (ms_listeners t) = rl_bind ` set (ms_listeners s)"
    and "DialTCP a ok \<in> set (ms_events t) \<Longrightarrow> DialTCP a ok \<in> set (ms_events s) \<or> a \<in> set (ms_started s)"
    and "e \<in> set (ms_events t) \<Longrightarrow> unknown_command e \<Longrightarrow> e \<in> set (ms_events s)"
    and "h \<in> set (opened_reverse s t) \<Longrightarrow> \<exists>b \<in> rl_bind ` set (ms_listeners s). h = header_bytes CmdReverseConn b"
  using assms
proof (induction rule: mux_own.induct)
  case (serve_stream i s an)
  {
    case 1
    then show ?case by (auto simp: emit_def dest: in_set_takeD in_set_dropD)
  next
    case 2
    then show ?case by (simp add: emit_def)
  next
    case 3
    then show ?case using serve_stream by (auto simp: emit_def dest!: handleMuxConnect_dials)
  next
    case 4
    then show ?case by (auto simp: emit_def dest: handleMuxConnect_known)
  next
    case 5
    then show ?case by (simp add: emit_def opened_reverse_def)
  }
next
  case (reverse_conn i s opens an writes source es hdr)
  note facts = handleReverseConn_events [OF reverse_conn(4)]
  {
    case 1
    then show ?case by (simp add: emit_def)
  next
    case 2
    then show ?case by (simp add: emit_def)
  next
    case 3
    then show ?case using facts by (auto simp: emit_def)
  next
    case 4
    then show ?case by (auto simp: emit_def dest: handleReverseConn_known [OF reverse_conn(4)])
  next
    case 5
    then show ?case using facts reverse_conn(1) by (auto simp: emit_def opened_reverse_def split: option.splits)
  }
next
  case (listener_fails i s)
  have "map rl_bind (ms_listeners (close_listener i s)) = map rl_bind (ms_listeners s)"
    using listener_fails by (simp add: close_listener_def map_update) (metis list_update_id nth_map)
  then have "rl_bind ` set (ms_listeners (close_listener i s)) = rl_bind ` set (ms_listeners s)"
    by (metis list.set_map)
  moreover have "ms_started (close_listener i s) = ms_started s" "ms_events (close_listener i s) = ms_events s"
    "ms_sent (close_listener i s) = ms_sent s"
    by (simp_all add: close_listener_def)
  ultimately show "set (ms_started (close_listener i s)) \<subseteq> set (ms_started s)"
    and "rl_bind ` set (ms_listeners (close_listener i s)) = rl_bind ` set (ms_listeners s)"
    and "DialTCP a ok \<in> set (ms_events (close_listener i s)) \<Longrightarrow>
      DialTCP a ok \<in> set (ms_events s) \<or> a \<in> set (ms_started s)"
    and "e \<in> set (ms_events (close_listener i s)) \<Longrightarrow> unknown_command e \<Longrightarrow> e \<in> set (ms_events s)"
    and "h \<in> set (opened_reverse s (close_listener i s)) \<Longrightarrow>
      \<exists>b \<in> rl_bind ` set (ms_listeners s). h = header_bytes CmdReverseConn b"
    by (simp_all add: opened_reverse_def)
qed (auto simp: mux_finish_def opened_reverse_def image_image)

lemma mux_accept_frame:
  assumes "carries (asks forwards reverses) bs"
    and "short_addresses forwards reverses"
  shows "set (ms_started (mux_accept cfg n laddr bs s)) \<subseteq> set (ms_started s) \<union> pf_target ` set forwards"
    and "rl_bind ` set (ms_listeners (mux_accept cfg n laddr bs s)) \<subseteq>
      rl_bind ` set (ms_listeners s) \<union> pf_bind ` set reverses"
    and "DialTCP a ok \<in> set (ms_events (mux_accept cfg n laddr bs s)) \<Longrightarrow> DialTCP a ok \<in> set (ms_events s)"
    and "e \<in> set (ms_events (mux_accept cfg n laddr bs s)) \<Longrightarrow> unknown_command e \<Longrightarrow> e \<in> set (ms_events s)"
proof -
  have short: "length addr \<le> 4096" if "(cmd, addr) \<in> asks forwards reverses" for cmd addr
    using that assms(2) by (auto simp: asks_def short_addresses_def)
  have read: "(cmd, addr) \<in> asks forwards reverses" if "fst (ReadHeader bs) = Ok (cmd, addr)" for cmd addr
    using carries_read [OF assms(1) short that] .
  have differ: "CmdConnect \<noteq> CmdReverseBind" by (simp add: CmdConnect_def CmdReverseBind_def)
  have cases: "(\<exists>f \<in> set forwards. cmd = CmdConnect \<and> addr = pf_target f) \<or>
      (\<exists>r \<in> set reverses. cmd = CmdReverseBind \<and> addr = pf_bind r)"
    if "fst (ReadHeader bs) = Ok (cmd, addr)" for cmd addr
    using read [OF that] by (auto simp: asks_def)
  show "set (ms_started (mux_accept cfg n laddr bs s)) \<subseteq> set (ms_started s) \<union> pf_target ` set forwards"
    using differ by (auto simp: mux_accept_def emit_def dest!: cases split: outcome.splits option.splits)
  show "rl_bind ` set (ms_listeners (mux_accept cfg n laddr bs s)) \<subseteq>
      rl_bind ` set (ms_listeners s) \<union> pf_bind ` set reverses"
    using differ by (auto simp: mux_accept_def emit_def dest!: cases split: outcome.splits option.splits)
  show "DialTCP a ok \<in> set (ms_events (mux_accept cfg n laddr bs s)) \<Longrightarrow> DialTCP a ok \<in> set (ms_events s)"
    by (auto simp: mux_accept_def emit_def handleReverseBind_def split: outcome.splits option.splits if_splits)
  show "e \<in> set (ms_events (mux_accept cfg n laddr bs s)) \<Longrightarrow> unknown_command e \<Longrightarrow> e \<in> set (ms_events s)"
    by (auto simp: mux_accept_def emit_def handleReverseBind_def dest!: cases
        split: outcome.splits option.splits if_splits)
qed

text \<open>The client's own steps append events, and log no unknown bind.\<close>

lemma register_all_known: "e \<in> set (register_all oks rs) \<Longrightarrow> \<not> unknown_bind e"
proof (induction oks rs rule: register_all.induct)
  case (1 ok oks r rs)
  have "\<not> unknown_bind e" if "e \<in> set (snd (registerReverseBind (fst ok) (snd ok) (pf_bind r)))" for e
    using that by (cases "snd ok") (auto simp: registerReverseBind_def split: if_splits)
  then show ?case
    using 1 by (cases "registerReverseBind (fst ok) (snd ok) (pf_bind r)") (auto split: bool.splits)
qed simp_all

lemma forwardConn_known: "e \<in> set (forwardConn opens writes t) \<Longrightarrow> \<not> unknown_bind e"
  by (cases writes) (auto simp: forwardConn_def split: if_splits)

lemma forward_own_appends:
  assumes "forward_own forwards reverses faulty s t"
  shows "\<exists>es. fw_events t = fw_events s @ es \<and> (\<forall>e \<in> set es. \<not> unknown_bind e)"
  using assms
  by (induction rule: forward_own.induct)
    (auto simp: forward_defs listener_log_def dest: register_all_known forwardConn_known)

lemma headers_of_iff [simp]: "h \<in> set (headers_of es) \<longleftrightarrow> CHeader h \<in> set es"
  by (auto simp: headers_of_def split: client_event.splits)

lemma forward_own_opens:
  assumes "forward_own forwards reverses faulty s t" and "forward_inv forwards reverses s"
    and "h \<in> set (opened_streams s t)"
  shows "\<exists>(cmd, addr) \<in> asks forwards reverses. h = header_bytes cmd addr"
proof -
  have "CHeader h \<in> set (fw_events t)"
    using assms(3) by (auto simp: opened_streams_def dest: in_set_dropD)
  then show ?thesis
    using forward_own_inv [OF assms(1,2)] unfolding forward_inv_def asks_def by fastforce
qed

text \<open>A stream from a server that only has the client's listeners is understood.\<close>

lemma acceptReverse_known:
  assumes "carries ({CmdReverseConn} \<times> pf_bind ` set reverses) bs"
    and "short_addresses forwards reverses"
    and "e \<in> set (acceptReverse (reverseLookup reverses) dials bs)"
  shows "\<not> unknown_bind e"
proof -
  have known: "reverseLookup reverses b \<noteq> None" if "b \<in> pf_bind ` set reverses" for b
    using that by (auto simp: reverseLookup_map_of map_of_eq_None_iff image_image)
  have "b \<in> pf_bind ` set reverses" if "fst (ReadHeader bs) = Ok (cmd, b)" for cmd b
    using carries_read [OF assms(1) _ that] assms(2) by (auto simp: short_addresses_def)
  moreover have "\<not> unknown_bind x" if "x \<in> set (handleLocalReverseConn dials t)" for x t
    using that by (auto simp: handleLocalReverseConn_def split: if_splits)
  ultimately have served: "\<not> unknown_bind x"
    if "x \<in> set (case reverseLookup reverses b of
          None \<Rightarrow> [client_log LWarn ''unknown reverse bind'' [(''bind'', AStr b)], CClosedStream]
        | Some t \<Rightarrow> handleLocalReverseConn dials t)" and "fst (ReadHeader bs) = Ok (cmd, b)" for x b cmd
    using that(1) known [of b] that(2) by (cases "reverseLookup reverses b") auto
  show ?thesis
  proof (cases "fst (ReadHeader bs)")
    case (Ok m)
    obtain cmd b where m: "m = (cmd, b)" by fastforce
    show ?thesis
      using assms(3) served [of e b cmd] Ok m
      by (cases "cmd = CmdReverseConn") (simp_all add: acceptReverse_def)
  qed (use assms(3) in \<open>simp_all add: acceptReverse_def\<close>)
qed

section \<open>The invariant\<close>

definition session_inv :: "port_forward list \<Rightarrow> port_forward list \<Rightarrow> server_config \<Rightarrow> link_session \<Rightarrow> bool" where
  "session_inv forwards reverses cfg x \<longleftrightarrow>
     mux_inv cfg (ls_server x) \<and>
     (\<forall>bs \<in> set (ls_up x). carries (asks forwards reverses) bs) \<and>
     (\<forall>bs \<in> set (ls_down x). carries ({CmdReverseConn} \<times> pf_bind ` set reverses) bs) \<and>
     set (ms_started (ls_server x)) \<subseteq> pf_target ` set forwards \<and>
     rl_bind ` set (ms_listeners (ls_server x)) \<subseteq> pf_bind ` set reverses \<and>
     (\<forall>t ok. DialTCP t ok \<in> set (ms_events (ls_server x)) \<longrightarrow> t \<in> pf_target ` set forwards) \<and>
     (\<forall>e \<in> set (ms_events (ls_server x)). \<not> unknown_command e)"

definition link_inv :: "port_forward list \<Rightarrow> port_forward list \<Rightarrow> server_config \<Rightarrow> link_state \<Rightarrow> bool" where
  "link_inv forwards reverses cfg s \<longleftrightarrow>
     forward_inv forwards reverses (lk_client s) \<and>
     (\<forall>e \<in> set (fw_events (lk_client s)). \<not> unknown_bind e) \<and>
     (\<forall>x \<in> set (lk_sessions s). session_inv forwards reverses cfg x)"

lemma list_all2_right: "list_all2 P xs ys \<Longrightarrow> y \<in> set ys \<Longrightarrow> \<exists>x \<in> set xs. P x y"
  by (metis in_set_conv_nth list_all2_conv_all_nth)

lemma link_inv_init: "link_inv forwards reverses cfg link_init"
  by (simp add: link_inv_def link_init_def forward_inv_init) (simp add: forward_init_def)

lemma session_inv_new: "session_inv forwards reverses cfg (new_session n r)"
  by (simp add: session_inv_def new_session_def mux_inv_init) (simp add: mux_init_def)

lemma session_inv_add_streams:
  assumes "\<forall>x \<in> set ss. session_inv forwards reverses cfg x" and "\<forall>bs \<in> set bss. carries (asks forwards reverses) bs"
  shows "\<forall>x \<in> set (add_streams bss ss). session_inv forwards reverses cfg x"
proof (cases "ss = []")
  case False
  then have "session_inv forwards reverses cfg (last ss)" using assms(1) by simp
  then have "session_inv forwards reverses cfg ((last ss)\<lparr>ls_up := ls_up (last ss) @ bss\<rparr>)"
    using assms(2) by (simp add: session_inv_def ball_Un)
  then show ?thesis using assms(1) False by (auto simp: add_streams_def dest: in_set_butlastD)
qed (simp add: add_streams_def)

lemma session_inv_update:
  assumes "\<forall>x \<in> set ss. session_inv forwards reverses cfg x" and "session_inv forwards reverses cfg y"
  shows "\<forall>x \<in> set (ss[i := y]). session_inv forwards reverses cfg x"
  using assms set_update_subset_insert [of ss i y] by blast

lemma session_inv_server_moves:
  assumes "session_inv forwards reverses cfg x" and "mux_own cfg n r (ls_server x) m"
    and "list_all2 prefix (opened_reverse (ls_server x) m) bss"
  shows "session_inv forwards reverses cfg (x\<lparr>ls_server := m, ls_down := ls_down x @ bss\<rparr>)"
proof -
  note inv = assms(1) [unfolded session_inv_def]
  note frame = mux_own_frame [OF assms(2)]
  have "\<forall>bs \<in> set bss. carries ({CmdReverseConn} \<times> pf_bind ` set reverses) bs"
  proof
    fix bs
    assume bs: "bs \<in> set bss"
    obtain h where h: "h \<in> set (opened_reverse (ls_server x) m)" "prefix h bs"
      using list_all2_right [OF assms(3) bs] by blast
    then obtain b where "b \<in> rl_bind ` set (ms_listeners (ls_server x))" "h = header_bytes CmdReverseConn b"
      using frame(5) by blast
    then show "carries ({CmdReverseConn} \<times> pf_bind ` set reverses) bs"
      using inv h(2) by (intro carries_header [of CmdReverseConn b]) auto
  qed
  moreover have "mux_inv cfg m" using inv mux_own_inv [OF assms(2)] by blast
  moreover have "set (ms_started m) \<subseteq> pf_target ` set forwards" using inv frame(1) by blast
  moreover have "rl_bind ` set (ms_listeners m) \<subseteq> pf_bind ` set reverses" using inv frame(2) by simp
  moreover have "\<forall>t ok. DialTCP t ok \<in> set (ms_events m) \<longrightarrow> t \<in> pf_target ` set forwards"
    using frame(3) inv by blast
  moreover have "\<forall>e \<in> set (ms_events m). \<not> unknown_command e" using frame(4) inv by blast
  ultimately show ?thesis using inv unfolding session_inv_def by (simp add: ball_Un)
qed

lemma session_inv_server_accepts:
  assumes "session_inv forwards reverses cfg x" and "bs \<in> set (ls_up x)" and "ms_loop (ls_server x)"
    and "short_addresses forwards reverses"
  shows "session_inv forwards reverses cfg
    (x\<lparr>ls_server := mux_accept cfg n laddr (take k bs) (ls_server x), ls_up := remove1 bs (ls_up x)\<rparr>)"
proof -
  let ?m = "mux_accept cfg n laddr (take k bs) (ls_server x)"
  note inv = assms(1) [unfolded session_inv_def]
  have "carries (asks forwards reverses) (take k bs)" using inv assms(2) carries_take by blast
  note frame = mux_accept_frame [OF this assms(4), where cfg = cfg and n = n and laddr = laddr and s = "ls_server x"]
  have "mux_inv cfg ?m" using conjunct1 [OF inv] assms(3) by (rule mux_accept_inv)
  moreover have "set (ms_started ?m) \<subseteq> pf_target ` set forwards"
    by (rule order_trans [OF frame(1)]) (use inv in simp)
  moreover have "rl_bind ` set (ms_listeners ?m) \<subseteq> pf_bind ` set reverses"
    by (rule order_trans [OF frame(2)]) (use inv in simp)
  moreover have "\<forall>t ok. DialTCP t ok \<in> set (ms_events ?m) \<longrightarrow> t \<in> pf_target ` set forwards"
    using frame(3) inv by blast
  moreover have "\<forall>e \<in> set (ms_events ?m). \<not> unknown_command e" using frame(4) inv by blast
  moreover have "\<forall>b \<in> set (remove1 bs (ls_up x)). carries (asks forwards reverses) b"
    using inv set_remove1_subset [of bs "ls_up x"] by blast
  ultimately show ?thesis using inv unfolding session_inv_def by simp
qed

lemma link_step_inv:
  assumes "link_step forwards reverses faulty cfg s t" and "link_inv forwards reverses cfg s"
    and "short_addresses forwards reverses"
  shows "link_inv forwards reverses cfg t"
  using assms(1,2)
proof (induction rule: link_step.induct)
  case (client_moves s c ss n r bss)
  note inv = client_moves.prems [unfolded link_inv_def]
  obtain es where es: "fw_events c = fw_events (lk_client s) @ es" "\<forall>e \<in> set es. \<not> unknown_bind e"
    using forward_own_appends [OF client_moves(1)] by blast
  have "\<forall>bs \<in> set bss. carries (asks forwards reverses) bs"
  proof
    fix bs
    assume "bs \<in> set bss"
    then obtain h where h: "h \<in> set (opened_streams (lk_client s) c)" "prefix h bs"
      using list_all2_right [OF client_moves(3)] by blast
    then obtain cmd addr where "(cmd, addr) \<in> asks forwards reverses" "h = header_bytes cmd addr"
      using forward_own_opens [OF client_moves(1)] inv by blast
    then show "carries (asks forwards reverses) bs" using h(2) carries_header by blast
  qed
  moreover have "\<forall>x \<in> set ss. session_inv forwards reverses cfg x"
    using client_moves(2) inv session_inv_new by auto
  ultimately have "\<forall>x \<in> set (add_streams bss ss). session_inv forwards reverses cfg x"
    by (intro session_inv_add_streams)
  moreover have "\<forall>e \<in> set (fw_events c). \<not> unknown_bind e" using es inv by auto
  ultimately show ?case
    using forward_own_inv [OF client_moves(1)] inv by (simp add: link_inv_def)
next
  case (client_breaks cmd addr s k)
  then have "\<forall>x \<in> set (add_streams [take k (header_bytes cmd addr)] (lk_sessions s)). session_inv forwards reverses cfg x"
    using carries_part by (intro session_inv_add_streams) (auto simp: link_inv_def)
  then show ?case using client_breaks by (simp add: link_inv_def)
next
  case (client_accepts s i bs dials k)
  note inv = client_accepts.prems [unfolded link_inv_def]
  have x: "session_inv forwards reverses cfg (lk_sessions s ! i)" using inv client_accepts(3) by simp
  then have "carries ({CmdReverseConn} \<times> pf_bind ` set reverses) (take k bs)"
    using client_accepts(4) carries_take by (auto simp: session_inv_def)
  note known = acceptReverse_known [OF this assms(3)]
  have "forward_step forwards reverses faulty (lk_client s)
      (add_events (acceptReverse (reverseLookup reverses) dials (take k bs)) (lk_client s))"
    using client_accepts(1,2) by (rule reverse_stream)
  then have "forward_inv forwards reverses
      (add_events (acceptReverse (reverseLookup reverses) dials (take k bs)) (lk_client s))"
    using inv forward_step_inv by blast
  moreover have "\<forall>y \<in> set ((lk_sessions s)
      [i := (lk_sessions s ! i)\<lparr>ls_down := remove1 bs (ls_down (lk_sessions s ! i))\<rparr>]). session_inv forwards reverses cfg y"
    using inv x set_remove1_subset [of bs "ls_down (lk_sessions s ! i)"]
    by (intro session_inv_update) (auto simp: session_inv_def)
  ultimately show ?case using inv known by (auto simp: link_inv_def add_events_def)
next
  case (server_moves i s x m bss)
  note inv = server_moves.prems [unfolded link_inv_def]
  have "session_inv forwards reverses cfg x" using inv server_moves(1,2) by simp
  from session_inv_update [OF conjunct2 [OF conjunct2 [OF inv]] session_inv_server_moves [OF this server_moves(3,4)]] show ?case
    using inv by (simp add: link_inv_def)
next
  case (server_accepts i s x bs laddr k)
  note inv = server_accepts.prems [unfolded link_inv_def]
  have "session_inv forwards reverses cfg x" using inv server_accepts(1,2) by simp
  from session_inv_update [OF conjunct2 [OF conjunct2 [OF inv]] session_inv_server_accepts [OF this server_accepts(3,4) assms(3)]] show ?case
    using inv by (simp add: link_inv_def)
qed

lemma link_steps_inv:
  assumes "link_steps forwards reverses faulty cfg s t" and "link_inv forwards reverses cfg s"
    and "short_addresses forwards reverses"
  shows "link_inv forwards reverses cfg t"
  using assms(1,2) by induction (auto intro: link_step_inv [OF _ _ assms(3)])

section \<open>Serving a connection\<close>

lemma add_streams_nonempty:
  assumes "ss \<noteq> []"
  shows "length (add_streams bss ss) = length ss" and "add_streams bss ss \<noteq> []"
    and "last (add_streams bss ss) = (last ss)\<lparr>ls_up := ls_up (last ss) @ bss\<rparr>"
  using assms by (simp_all add: add_streams_def)

lemma last_update: "ss \<noteq> [] \<Longrightarrow> last (ss[length ss - Suc 0 := y]) = y"
  by (simp add: last_list_update)

text \<open>One step each on the current session: the client opens a stream, the server takes it, the server serves it.\<close>

lemma forward_conn_step:
  assumes "i < length (fw_listeners (lk_client s))" and "fw_listeners (lk_client s) ! i = Listening"
    and "fw_alive (lk_client s)" and "lk_sessions s \<noteq> []"
  shows "link_step forwards reverses faulty cfg s
    \<lparr>lk_client = add_events [CHeader (header_bytes CmdConnect (pf_target (forwards ! i))), CRelayed] (lk_client s),
     lk_sessions = add_streams [header_bytes CmdConnect (pf_target (forwards ! i))] (lk_sessions s)\<rparr>"
proof -
  let ?h = "header_bytes CmdConnect (pf_target (forwards ! i))"
  let ?c = "add_events [CHeader ?h, CRelayed] (lk_client s)"
  have "forward_own forwards reverses faulty (lk_client s) ?c"
    using local_conn [OF assms(1,2), of True forwards reverses faulty True] assms(3) by (simp add: forwardConn_def)
  moreover have "opened_streams (lk_client s) ?c = [?h]"
    by (simp add: opened_streams_def headers_of_def add_events_def)
  ultimately show ?thesis
    by (intro client_moves) (simp_all add: add_events_def)
qed

lemma accept_last_step:
  assumes "lk_sessions s \<noteq> []" and "bs \<in> set (ls_up (last (lk_sessions s)))"
    and "ms_loop (ls_server (last (lk_sessions s)))" and "ms_alive (ls_server (last (lk_sessions s)))"
  shows "\<exists>t. link_step forwards reverses faulty cfg s t \<and> lk_client t = lk_client s \<and> lk_sessions t \<noteq> [] \<and>
    ls_server (last (lk_sessions t)) =
      mux_accept cfg (ls_name (last (lk_sessions s))) laddr bs (ls_server (last (lk_sessions s))) \<and>
    ls_name (last (lk_sessions t)) = ls_name (last (lk_sessions s)) \<and>
    ls_remote (last (lk_sessions t)) = ls_remote (last (lk_sessions s))"
proof -
  let ?i = "length (lk_sessions s) - 1"
  have i: "?i < length (lk_sessions s)" "last (lk_sessions s) = lk_sessions s ! ?i"
    using assms(1) by (auto simp: last_conv_nth)
  show ?thesis
    by (rule exI, rule conjI, rule server_accepts [OF i assms(2-4), where k = "length bs" and laddr = laddr])
      (use assms(1) in \<open>simp add: last_update\<close>)
qed

lemma own_last_step:
  assumes "lk_sessions s \<noteq> []" and "x = last (lk_sessions s)" and "mux_own cfg (ls_name x) (ls_remote x) (ls_server x) m"
  shows "\<exists>t. link_step forwards reverses faulty cfg s t \<and> lk_client t = lk_client s \<and> lk_sessions t \<noteq> [] \<and>
    ls_server (last (lk_sessions t)) = m \<and>
    ls_name (last (lk_sessions t)) = ls_name x \<and> ls_remote (last (lk_sessions t)) = ls_remote x \<and>
    ls_down (last (lk_sessions t)) = ls_down x @ opened_reverse (ls_server x) m"
proof -
  let ?i = "length (lk_sessions s) - 1"
  have i: "?i < length (lk_sessions s)" "x = lk_sessions s ! ?i"
    using assms(1,2) by (auto simp: last_conv_nth)
  have all: "list_all2 prefix (opened_reverse (ls_server x) m) (opened_reverse (ls_server x) m)"
    by (simp add: list_all2_refl)
  show ?thesis
    by (rule exI, rule conjI, rule server_moves [OF i assms(3) all]) (use assms(1) in \<open>simp add: last_update\<close>)
qed

lemma sessions_agree_listeners:
  assumes "link_steps forwards reverses faulty cfg link_init s" and "short_addresses forwards reverses"
    and "x \<in> set (lk_sessions s)"
  shows "l \<in> set (ms_listeners (ls_server x)) \<longrightarrow> rl_bind l \<in> pf_bind ` set reverses \<and> sc_reverse cfg"
proof -
  have "session_inv forwards reverses cfg x"
    using link_steps_inv [OF assms(1) link_inv_init assms(2)] assms(3) by (auto simp: link_inv_def)
  then show ?thesis by (auto simp: session_inv_def mux_inv_def)
qed

section \<open>Properties\<close>

text \<open>C8: The two ends of a multiplexed tunnel fit together, for targets and bind addresses of at most 4096 bytes.
  In every state that a client of \<open>longsocks forward\<close> and its server reach, over any number of sessions,
  with streams accepted in any order and cut anywhere: whatever the server dialed is a target of one of the
  user's forwards, and its dials are exactly one for each served stream whose target passes \<open>validateTarget\<close>
  with the answers of the resolver that this stream's own run asked; whatever it listens on is the bind
  address of one of the reverse forwards, and only when the server allows them; and neither side ever sees a
  stream that it does not know what to do with.\<close>

theorem sessions_agree:
  assumes "link_steps forwards reverses faulty cfg link_init s" and "short_addresses forwards reverses"
    and "x \<in> set (lk_sessions s)"
  shows "(\<forall>t ok. DialTCP t ok \<in> set (ms_events (ls_server x)) \<longrightarrow> t \<in> pf_target ` set forwards) \<and>
    dials_made (ms_events (ls_server x)) = checked_dials (ms_runs (ls_server x)) \<and>
    (\<forall>l. l \<in> set (ms_listeners (ls_server x)) \<longrightarrow> rl_bind l \<in> pf_bind ` set reverses \<and> sc_reverse cfg) \<and>
    (\<forall>lv as. log_event lv ''unknown stream command'' as \<notin> set (ms_events (ls_server x))) \<and>
    (\<forall>lv as. client_log lv ''unknown reverse bind'' as \<notin> set (fw_events (lk_client s)))"
proof -
  note inv = link_steps_inv [OF assms(1) link_inv_init assms(2), unfolded link_inv_def]
  then have x: "session_inv forwards reverses cfg x" using assms(3) by blast
  note x = x [unfolded session_inv_def]
  have checked: "dials_made (ms_events (ls_server x)) = checked_dials (ms_runs (ls_server x))"
    using x unfolding mux_inv_def by blast
  have dials: "t \<in> pf_target ` set forwards" if "DialTCP t ok \<in> set (ms_events (ls_server x))" for t ok
    using x that by blast
  note listens = sessions_agree_listeners [OF assms]
  have "\<forall>e \<in> set (ms_events (ls_server x)). \<not> unknown_command e" using x by blast
  then have "log_event lv ''unknown stream command'' as \<notin> set (ms_events (ls_server x))" for lv as
    using unknown_simps(1) by blast
  moreover have "client_log lv ''unknown reverse bind'' as \<notin> set (fw_events (lk_client s))" for lv as
    using inv unknown_simps(5) by blast
  ultimately show ?thesis using dials checked listens by blast
qed

text \<open>C9: A port forward can be served, from every state in which the client has a session, the listener of the
  forward is open, and the server's accept loop on that session runs. For a target of at most 4096 bytes that
  passes \<open>validateTarget\<close> with the answers of the server's resolver, and that the server can connect to, there
  is a run of exactly three steps (the client takes a local connection and opens a stream, the accept loop
  takes the stream, its goroutine serves it) in which the server dials exactly the target of that forward
  and both sides relay the connection.\<close>

theorem forward_served:
  assumes "i < length (fw_listeners (lk_client s))" and "fw_listeners (lk_client s) ! i = Listening"
    and "fw_alive (lk_client s)" and "lk_sessions s \<noteq> []"
    and "ms_loop (ls_server (last (lk_sessions s)))" and "ms_alive (ls_server (last (lk_sessions s)))"
    and "target = pf_target (forwards ! i)" and "length target \<le> 4096"
    and "validateTarget (an_lookup an) target = None" and "an_dial an"
  shows "\<exists>t x. (link_step forwards reverses faulty cfg ^^ 3) s t \<and> x = last (lk_sessions t) \<and>
    fw_events (lk_client t) = fw_events (lk_client s) @ [CHeader (header_bytes CmdConnect target), CRelayed] \<and>
    ms_events (ls_server x) = ms_events (ls_server (last (lk_sessions s))) @
      DialTCP target True # audited_relay cfg an (ls_name x) (ls_remote x) target @ [ClosedClient]"
proof -
  let ?h = "header_bytes CmdConnect target"
  let ?x = "last (lk_sessions s)"
  define s1 where "s1 = \<lparr>lk_client = add_events [CHeader ?h, CRelayed] (lk_client s),
    lk_sessions = add_streams [?h] (lk_sessions s)\<rparr>"
  have step1: "link_step forwards reverses faulty cfg s s1"
    unfolding s1_def assms(7) by (rule forward_conn_step [OF assms(1-4)])
  have s1: "lk_sessions s1 \<noteq> []" "last (lk_sessions s1) = ?x\<lparr>ls_up := ls_up ?x @ [?h]\<rparr>"
    by (simp_all add: s1_def add_streams_nonempty [OF assms(4)])
  obtain s2 where s2: "link_step forwards reverses faulty cfg s1 s2" "lk_client s2 = lk_client s1"
    "lk_sessions s2 \<noteq> []"
    "ls_server (last (lk_sessions s2)) = mux_accept cfg (ls_name ?x) None ?h (ls_server ?x)"
    "ls_name (last (lk_sessions s2)) = ls_name ?x" "ls_remote (last (lk_sessions s2)) = ls_remote ?x"
    using accept_last_step [OF s1(1), of ?h] s1(2) assms(5,6) by force
  let ?m = "ls_server (last (lk_sessions s2))"
  have m: "?m = (ls_server ?x)\<lparr>ms_started := ms_started (ls_server ?x) @ [target]\<rparr>"
    using ReadHeader_roundtrip [OF assms(8), of CmdConnect "[]"] by (simp add: s2(4) mux_accept_def)
  let ?es = "DialTCP target True # audited_relay cfg an (ls_name ?x) (ls_remote ?x) target @ [ClosedClient]"
  have "mux_own cfg (ls_name ?x) (ls_remote ?x) ?m 
      (emit ?es ((ls_server ?x)\<lparr>ms_runs := ms_runs (ls_server ?x) @ [(an, target)]\<rparr>))"
    using serve_stream [of "length (ms_started (ls_server ?x))" ?m cfg "ls_name ?x" "ls_remote ?x" an] assms(9,10)
    by (simp add: m handleMuxConnect_def)
  then obtain s3 where s3: "link_step forwards reverses faulty cfg s2 s3" "lk_client s3 = lk_client s2"
    "ls_server (last (lk_sessions s3)) =
       emit ?es ((ls_server ?x)\<lparr>ms_runs := ms_runs (ls_server ?x) @ [(an, target)]\<rparr>)"
    "ls_name (last (lk_sessions s3)) = ls_name ?x" "ls_remote (last (lk_sessions s3)) = ls_remote ?x"
    using own_last_step [OF s2(3) refl] s2(5,6) by metis
  have "(link_step forwards reverses faulty cfg ^^ 3) s s3"
    using step1 s2(1) s3(1) by (auto simp: numeral_3_eq_3)
  then show ?thesis
    using s3 s2(2) by (intro exI [of _ s3] exI [of _ "last (lk_sessions s3)"]) (simp add: s1_def add_events_def emit_def)
qed

text \<open>C10: A reverse forward can be served, from every state in which the client accepts streams of the current
  session and the server has the listener of the reverse forward open on it. When the bind addresses of the
  reverse forwards differ pairwise and this one has at most 4096 bytes, there is a run of exactly two steps
  (the server takes a connection to its listener and opens a stream, the client takes the stream) in which
  the client dials the local target of exactly this forward, both sides relay the connection, and the
  server audits it under the bind address.\<close>

theorem reverse_served:
  assumes "fw_acceptor (lk_client s) = Listening" and "fw_alive (lk_client s)" and "lk_sessions s \<noteq> []"
    and "j < length (ms_listeners (ls_server (last (lk_sessions s))))"
    and "ms_listeners (ls_server (last (lk_sessions s))) ! j = \<lparr>rl_bind = pf_bind r, rl_open = True\<rparr>"
    and "ms_alive (ls_server (last (lk_sessions s)))"
    and "r \<in> set reverses" and "distinct (map pf_bind reverses)" and "length (pf_bind r) \<le> 4096"
  shows "\<exists>t x. (link_step forwards reverses faulty cfg ^^ 2) s t \<and> x = last (lk_sessions t) \<and>
    fw_events (lk_client t) = fw_events (lk_client s) @ [CDialTCP (pf_target r) True, CRelayed] \<and>
    ms_events (ls_server x) = ms_events (ls_server (last (lk_sessions s))) @
      audited_relay cfg an (ls_name x) source (''reverse:'' @ pf_bind r)"
proof -
  let ?x = "last (lk_sessions s)" and ?h = "header_bytes CmdReverseConn (pf_bind r)"
  let ?es = "audited_relay cfg an (ls_name ?x) source (''reverse:'' @ pf_bind r)"
  let ?m = "emit ?es ((ls_server ?x)\<lparr>ms_sent := ms_sent (ls_server ?x) @ [?h]\<rparr>)"
  have "mux_own cfg (ls_name ?x) (ls_remote ?x) (ls_server ?x) ?m"
    using reverse_conn [of j "ls_server ?x" True cfg an True source "ls_name ?x" ?es "Some ?h" "ls_remote ?x"] assms(4-6)
    by (simp add: handleReverseConn_def)
  then obtain s1 where s1: "link_step forwards reverses faulty cfg s s1" "lk_client s1 = lk_client s"
    "lk_sessions s1 \<noteq> []" "ls_server (last (lk_sessions s1)) = ?m" "ls_name (last (lk_sessions s1)) = ls_name ?x"
    "ls_down (last (lk_sessions s1)) = ls_down ?x @ opened_reverse (ls_server ?x) ?m"
    using own_last_step [OF assms(3) refl] by metis
  have "opened_reverse (ls_server ?x) ?m = [?h]" by (simp add: opened_reverse_def emit_def)
  then have down: "?h \<in> set (ls_down (lk_sessions s1 ! (length (lk_sessions s1) - 1)))"
    using s1(3,6) by (simp add: last_conv_nth)
  let ?t = "\<lparr>lk_client = add_events (acceptReverse (reverseLookup reverses) True (take (length ?h) ?h)) (lk_client s1),
    lk_sessions = (lk_sessions s1)[length (lk_sessions s1) - 1 :=
      (lk_sessions s1 ! (length (lk_sessions s1) - 1))\<lparr>ls_down :=
        remove1 ?h (ls_down (lk_sessions s1 ! (length (lk_sessions s1) - 1)))\<rparr>]\<rparr>"
  have "link_step forwards reverses faulty cfg s1 ?t"
    by (rule client_accepts) (use assms(1,2) s1(2,3) down in simp_all)
  then have "(link_step forwards reverses faulty cfg ^^ 2) s ?t"
    using s1(1) by (auto simp: numeral_2_eq_2)
  moreover have "acceptReverse (reverseLookup reverses) True ?h = [CDialTCP (pf_target r) True, CRelayed]"
    using acceptReverse_serves [OF assms(8,7,9), of "[]"] by simp
  moreover have "last (lk_sessions ?t) = (last (lk_sessions s1))\<lparr>ls_down := remove1 ?h (ls_down (last (lk_sessions s1)))\<rparr>"
    using s1(3) by (simp add: last_update last_conv_nth)
  ultimately show ?thesis
    using s1(2,4,5) by (intro exI [of _ ?t] exI [of _ "last (lk_sessions ?t)"]) (simp add: add_events_def emit_def)
qed

section \<open>Examples\<close>

text \<open>A client with one forward has dialed a server and listens.\<close>

definition demo_link :: link_state where
  "demo_link = \<lparr>lk_client = demo_listening, lk_sessions = [new_session ''bob'' ''192.0.2.7:5000'']\<rparr>"

lemma demo_link_reached: "link_steps [demo_forward] [] False demo_cfg link_init demo_link"
proof -
  let ?up = "session_up [demo_forward] [] [] forward_init"
  let ?s = "\<lparr>lk_client = ?up, lk_sessions = [new_session ''bob'' ''192.0.2.7:5000'']\<rparr>"
  have "forward_own [demo_forward] [] False (lk_client link_init) ?up"
    using dial_ok [of forward_init "[]" "[]"] by (simp add: link_init_def forward_init_def)
  then have "link_step [demo_forward] [] False demo_cfg link_init
      \<lparr>lk_client = ?up, lk_sessions = add_streams [] [new_session ''bob'' ''192.0.2.7:5000'']\<rparr>"
    by (rule client_moves)
      (simp_all add: link_init_def forward_init_def session_up_def opened_streams_def headers_of_def client_log_def)
  then have "link_step [demo_forward] [] False demo_cfg link_init ?s"
    by (simp add: add_streams_def new_session_def)
  moreover have "forward_own [demo_forward] [] False (lk_client ?s) demo_listening"
    using listen_ok [of 0 ?up] unfolding demo_listening_def by (simp add: session_up_def)
  then have "link_step [demo_forward] [] False demo_cfg ?s
      \<lparr>lk_client = demo_listening, lk_sessions = add_streams [] [new_session ''bob'' ''192.0.2.7:5000'']\<rparr>"
    by (rule client_moves)
      (simp_all add: demo_listening_def forward_defs forward_init_def opened_streams_def headers_of_def client_log_def)
  then have "link_step [demo_forward] [] False demo_cfg ?s demo_link"
    by (simp add: add_streams_def new_session_def demo_link_def)
  ultimately show ?thesis by (meson converse_rtranclp_into_rtranclp rtranclp.rtrancl_refl)
qed

lemma demo_link_facts:
  "0 < length (fw_listeners (lk_client demo_link))" "fw_listeners (lk_client demo_link) ! 0 = Listening"
  "fw_alive (lk_client demo_link)" "lk_sessions demo_link \<noteq> []"
  "ms_loop (ls_server (last (lk_sessions demo_link)))" "ms_alive (ls_server (last (lk_sessions demo_link)))"
  by (simp_all add: demo_link_def demo_listening_def forward_defs new_session_def mux_init_def)

lemma demo_forward_target:
  "''10.0.0.1:80'' = pf_target ([demo_forward] ! 0)" "length ''10.0.0.1:80'' \<le> 4096"
  "validateTarget (an_lookup demo_answers) ''10.0.0.1:80'' = None" "an_dial demo_answers"
  "short_addresses [demo_forward] []"
proof -
  have "validateTarget (\<lambda>_. None) ''10.0.0.1:80'' = None" by code_simp
  then show "validateTarget (an_lookup demo_answers) ''10.0.0.1:80'' = None" by (simp add: demo_answers_def)
qed (simp_all add: demo_forward_def demo_answers_def short_addresses_def)

lemma forward_served_witness:
  "\<exists>t. (link_step [demo_forward] [] False demo_cfg ^^ 3) demo_link t \<and>
     DialTCP ''10.0.0.1:80'' True \<in> set (ms_events (ls_server (last (lk_sessions t))))"
  using forward_served [OF demo_link_facts demo_forward_target(1-4), of "[]" False demo_cfg] by force

lemma sessions_agree_witness:
  "log_event LError ''unknown stream command'' [] \<notin> set (ms_events (ls_server (last (lk_sessions demo_link)))) \<and>
   client_log LWarn ''unknown reverse bind'' [] \<notin> set (fw_events (lk_client demo_link))"
  using sessions_agree [OF demo_link_reached demo_forward_target(5) last_in_set [OF demo_link_facts(4)]] by blast

text \<open>A server with the listener of a reverse forward.\<close>

definition demo_reverse_link :: link_state where
  "demo_reverse_link =
     \<lparr>lk_client = session_up [] [demo_reverse] [(True, True)] forward_init,
      lk_sessions = [(new_session ''anonymous'' ''192.0.2.7:5000'')\<lparr>ls_server := demo_bound\<rparr>]\<rparr>"

lemma reverse_served_witness:
  "\<exists>t. (link_step [] [demo_reverse] False demo_reverse_cfg ^^ 2) demo_reverse_link t \<and>
     CDialTCP ''localhost:3000'' True \<in> set (fw_events (lk_client t))"
proof -
  have "ms_listeners demo_bound = [\<lparr>rl_bind = '':9000'', rl_open = True\<rparr>]" "ms_alive demo_bound"
    using ReadHeader_roundtrip [of "'':9000''" CmdReverseBind "[]"]
    by (simp_all add: demo_bound_def mux_accept_def handleReverseBind_def emit_def mux_init_def
        demo_reverse_cfg_def CmdReverseBind_def CmdConnect_def)
  then show ?thesis
    using reverse_served [of demo_reverse_link 0 demo_reverse "[demo_reverse]" "[]" False demo_reverse_cfg demo_answers "''a''"]
    by (force simp: demo_reverse_link_def new_session_def session_up_def demo_reverse_def)
qed

text \<open>
  The client is not told whether the server listens: it logs the reverse forward as registered once the
  header is written. On a server without \<open>--reverse\<close> no listener ever follows.
\<close>

lemma registered_without_listener:
  assumes "\<not> sc_reverse cfg" and "short_addresses [] [demo_reverse]"
  shows "\<exists>s. link_steps [] [demo_reverse] False cfg link_init s \<and>
    (\<exists>as. client_log LInfo ''reverse registered'' as \<in> set (fw_events (lk_client s))) \<and>
    (\<forall>t. link_steps [] [demo_reverse] False cfg s t \<longrightarrow>
       (\<forall>x \<in> set (lk_sessions t). ms_listeners (ls_server x) = []))"
proof -
  let ?up = "session_up [] [demo_reverse] [(True, True)] forward_init"
  let ?h = "header_bytes CmdReverseBind (pf_bind demo_reverse)"
  let ?s = "\<lparr>lk_client = ?up, lk_sessions = add_streams [?h] [new_session ''bob'' ''192.0.2.7:5000'']\<rparr>"
  have "forward_own [] [demo_reverse] False (lk_client link_init) ?up"
    using dial_ok [of forward_init "[(True, True)]" "[demo_reverse]"] by (simp add: link_init_def forward_init_def)
  then have "link_step [] [demo_reverse] False cfg link_init ?s"
    by (rule client_moves)
      (simp_all add: link_init_def forward_init_def session_up_def opened_streams_def headers_of_def client_log_def
        registerReverseBind_def)
  then have s: "link_steps [] [demo_reverse] False cfg link_init ?s" by (rule r_into_rtranclp)
  have "ms_listeners (ls_server x) = []" if "link_steps [] [demo_reverse] False cfg ?s t" "x \<in> set (lk_sessions t)" for t x
  proof -
    have "\<forall>l. l \<in> set (ms_listeners (ls_server x)) \<longrightarrow> sc_reverse cfg"
      using sessions_agree_listeners [OF rtranclp_trans [OF s that(1)] assms(2) that(2)] by blast
    then show ?thesis using assms(1) by (cases "ms_listeners (ls_server x)") auto
  qed
  moreover have "\<exists>as. client_log LInfo ''reverse registered'' as \<in> set (fw_events (lk_client ?s))"
    by (auto simp: session_up_def registerReverseBind_def)
  ultimately show ?thesis using s by blast
qed

end
