(* ===== verification/Datagrams.thy ===== *)
theory Datagrams
  imports Client_Proxy Server_Handlers
begin

text \<open>
  The datagram relay from end to end: the client's \<open>UDPRelay\<close> of \<open>internal/client/udp.go\<close>
  (\<open>relay_rounds\<close>) and the loop of \<open>connectUDPHandler\<close> of \<open>internal/server/server.go\<close> (\<open>udp_loop\<close>),
  with the WebSocket between them. The WebSocket library delivers the messages in order, and fails the
  read of a message that is longer than its limit, which the program does not set; the limit is a
  parameter.
\<close>

section \<open>The WebSocket between the loops\<close>

definition to_server :: "relay_output list \<Rightarrow> bytes list" where
  "to_server os = [d. ToServer d \<leftarrow> os]"

definition local_datagrams :: "relay_input list \<Rightarrow> bytes list" where
  "local_datagrams ins = [d. LocalDatagram a d ok \<leftarrow> ins]"

text \<open>What the reads at the other end return before one fails.\<close>

definition delivered :: "nat \<Rightarrow> bytes list \<Rightarrow> bytes list" where
  "delivered limit ms = takeWhile (\<lambda>m. length m \<le> limit) ms"

definition sent_datagrams :: "server_event list \<Rightarrow> (string \<times> bytes) list" where
  "sent_datagrams es = [(t, p). SendUDP t p \<leftarrow> es]"

definition sent_frames :: "server_event list \<Rightarrow> bytes list" where
  "sent_frames es = [f. SendFrame f \<leftarrow> es]"

text \<open>A message that the server relays: the target is admitted and the network takes the datagram.\<close>

definition relays :: "udp_round \<Rightarrow> string \<times> bytes \<Rightarrow> bool" where
  "relays u d \<longleftrightarrow>
     ur_msg u = buildUDPFrame (fst d) (snd d) \<and> relay_target (fst d) \<and> validateTarget (ur_lookup u) (fst d) = None \<and>
     ur_resolve u \<and> ur_dial u \<and> ur_write u \<and> ur_ws_write u"

definition reply_frame :: "udp_round \<Rightarrow> string \<times> bytes \<Rightarrow> bytes list" where
  "reply_frame u d = (case ur_reply u of None \<Rightarrow> [] | Some r \<Rightarrow> [buildUDPFrame (fst d) (take 65535 r)])"

lemma sent_append [simp]:
  "sent_datagrams (as @ bs) = sent_datagrams as @ sent_datagrams bs"
  "sent_frames (as @ bs) = sent_frames as @ sent_frames bs"
  by (simp_all add: sent_datagrams_def sent_frames_def)

lemma udp_step_relays:
  assumes "relays u d"
  shows "\<exists>es n m. udp_step u = (es, n, m, True) \<and> sent_datagrams es = [d] \<and> sent_frames es = reply_frame u d"
  using assms udp_frame_roundtrip [of "fst d" "snd d"]
  by (cases d; cases "ur_reply u") (auto simp: relays_def udp_step_def reply_frame_def sent_datagrams_def sent_frames_def)

lemma udp_loop_relays:
  assumes "list_all2 relays us ds"
  shows "sent_datagrams (fst (udp_loop us tx rx)) = ds \<and>
    sent_frames (fst (udp_loop us tx rx)) = concat (map2 reply_frame us ds)"
  using assms
proof (induction us ds arbitrary: tx rx rule: list_all2_induct)
  case Nil
  show ?case by (simp add: sent_datagrams_def sent_frames_def)
next
  case (Cons u us d ds)
  obtain es n m where u: "udp_step u = (es, n, m, True)" "sent_datagrams es = [d]" "sent_frames es = reply_frame u d"
    using udp_step_relays [OF Cons.hyps(1)] by blast
  obtain es' r where l: "udp_loop us (tx + of_nat n) (rx + of_nat m) = (es', r)" by (cases "udp_loop us (tx + of_nat n) (rx + of_nat m)")
  then have "udp_loop (u # us) tx rx = (es @ es', r)" by (simp add: udp_loop_step u(1))
  then show ?case using Cons.IH [of "tx + of_nat n" "rx + of_nat m"] u l by simp
qed

section \<open>The client's side\<close>

lemma to_server_local:
  assumes "\<forall>i \<in> set ins. good_input limit i" and "\<forall>d \<in> set (local_datagrams ins). length d \<le> 65535"
  shows "to_server (fst (relay_rounds limit ins NewUDPRelay)) = local_datagrams ins"
proof -
  have "[take 65535 d. LocalDatagram a d ok \<leftarrow> ins] = local_datagrams ins"
    using assms(2)
  proof (induction ins)
    case (Cons i ins)
    then show ?case by (cases i) (simp_all add: local_datagrams_def)
  qed (simp add: local_datagrams_def)
  then show ?thesis
    using relay_rounds_sent [OF assms(1), of NewUDPRelay] by (simp add: to_server_def NewUDPRelay_def)
qed

text \<open>
  Messages of the server that come one after the other all go to the address that sent last, up to the
  first one that is longer than the limit.
\<close>

lemma relay_replies_to_last:
  assumes "\<forall>i \<in> set ins. good_input limit i" and "last_sender ins None = Some a"
  shows "fst (relay_rounds limit (ins @ map ServerMessage fs) NewUDPRelay) =
    fst (relay_rounds limit ins NewUDPRelay) @ map (ToClient a) (delivered limit fs)"
proof -
  have stopped: "fst (relay_rounds limit (map ServerMessage fs) s) = []" if "\<not> re_reading s" for s fs
    using that by (induction fs) (simp_all add: relay_rounds_Cons)
  have replies: "fst (relay_rounds limit (map ServerMessage fs) s) = map (ToClient a) (delivered limit fs)"
    if "re_reading s" "re_client s = Some a" for s
    by (induction fs) (simp_all add: relay_rounds_Cons that delivered_def stopped)
  have "snd (relay_rounds limit ins NewUDPRelay) = NewUDPRelay\<lparr>re_client := Some a\<rparr>"
    using relay_rounds_state [OF assms(1), of NewUDPRelay] assms(2) by (simp add: NewUDPRelay_def)
  then have "fst (relay_rounds limit (map ServerMessage fs) (snd (relay_rounds limit ins NewUDPRelay))) =
      map (ToClient a) (delivered limit fs)"
    by (intro replies) (simp_all add: NewUDPRelay_def)
  then show ?thesis by (simp add: relay_rounds_append split_beta)
qed

section \<open>Properties\<close>

text \<open>C19: Datagrams get through: of an application that hands the client's relay datagrams for IPv4 addresses or
  names, none longer than the buffer and the read limit of the WebSocket library, the server sends exactly the
  payloads to exactly the targets, in order, when the filter admits them and the network takes them. Its
  answers are frames that name the target and hold the answer (its first 65535 bytes). Of those that reach
  the client after the datagrams, every one up to the first frame that is longer than the read limit comes
  back, in order, to the address that sent last; that frame ends the reading, and none after it comes back.\<close>

theorem datagrams_get_through:
  assumes "\<forall>i \<in> set ins. good_input limit i" and "last_sender ins None = Some app"
    and "local_datagrams ins = map (\<lambda>d. buildUDPFrame (fst d) (snd d)) ds"
    and "\<forall>m \<in> set (local_datagrams ins). length m \<le> min limit 65535"
    and "map ur_msg us = delivered limit (to_server (fst (relay_rounds limit ins NewUDPRelay)))"
    and "\<forall>(u, d) \<in> set (zip us ds). relay_target (fst d) \<and> validateTarget (ur_lookup u) (fst d) = None \<and>
           ur_resolve u \<and> ur_dial u \<and> ur_write u \<and> ur_ws_write u"
  shows "sent_datagrams (fst (udp_loop us 0 0)) = ds \<and>
    fst (relay_rounds limit (ins @ map ServerMessage (sent_frames (fst (udp_loop us 0 0)))) NewUDPRelay) =
      fst (relay_rounds limit ins NewUDPRelay) @ 
        map (ToClient app) (delivered limit (concat (map2 reply_frame us ds))) \<and>
    (\<forall>u d f. (u, d) \<in> set (zip us ds) \<longrightarrow> f \<in> set (reply_frame u d) \<longrightarrow>
       (\<exists>r. ur_reply u = Some r \<and> parseUDPFrame f = Ok (fst d, take 65535 r)))"
proof -
  have "to_server (fst (relay_rounds limit ins NewUDPRelay)) = local_datagrams ins"
    using assms(4) by (intro to_server_local [OF assms(1)]) simp
  then have msgs: "map ur_msg us = map (\<lambda>d. buildUDPFrame (fst d) (snd d)) ds"
    using assms(3-5) by (simp add: delivered_def)
  then have len: "length us = length ds" by (metis length_map)
  have "list_all2 relays us ds"
  proof (rule list_all2I)
    have "ur_msg (us ! i) = buildUDPFrame (fst (ds ! i)) (snd (ds ! i))" if "i < length us" for i
      using arg_cong [OF msgs, of "\<lambda>l. l ! i"] that len by simp
    then show "\<forall>x \<in> set (zip us ds). case x of (u, d) \<Rightarrow> relays u d"
      using assms(6) by (fastforce simp: relays_def in_set_zip)
  qed (rule len)
  note loop = udp_loop_relays [OF this]
  have "parseUDPFrame f = Ok (fst d, take 65535 r)"
    if "(u, d) \<in> set (zip us ds)" "f \<in> set (reply_frame u d)" "ur_reply u = Some r" for u d f r
    using that assms(6) udp_frame_roundtrip by (fastforce simp: reply_frame_def)
  moreover have "\<exists>r. ur_reply u = Some r" if "f \<in> set (reply_frame u d)" for u d f
    using that by (cases "ur_reply u") (simp_all add: reply_frame_def)
  ultimately show ?thesis
    using loop [of 0 0] relay_replies_to_last [OF assms(1,2)] by fastforce
qed

definition demo_udp_frame :: bytes where
  "demo_udp_frame = buildUDPFrame ''example.com:53'' [1, 2, 3]"

definition demo_round :: udp_round where
  "demo_round =
     \<lparr>ur_msg = demo_udp_frame, ur_lookup = (\<lambda>_. None), ur_resolve = True, ur_dial = True, ur_write = True,
      ur_reply = Some [7], ur_ws_write = True\<rparr>"

lemma demo_udp_frame: "length demo_udp_frame = 21" "validateTarget (\<lambda>_. None) ''example.com:53'' = None"
  by code_simp+

text \<open>A second round, whose answer does not fit in a message that the client reads.\<close>

definition demo_large :: bytes where
  "demo_large = replicate 40000 0"

definition demo_large_round :: udp_round where
  "demo_large_round = demo_round\<lparr>ur_reply := Some demo_large\<rparr>"

lemma length_demo_large: "length demo_large = 40000"
  by (simp only: demo_large_def length_replicate)

lemma demo_large_frame: "\<not> length (buildUDPFrame t demo_large) \<le> 32768"
  by (simp add: buildUDPFrame_def Let_def length_demo_large split: prod.split option.split)

lemma datagrams_get_through_witness:
  "\<exists>ins frames. sent_datagrams (fst (udp_loop [demo_round, demo_large_round] 0 0)) =
       [(''example.com:53'', [1, 2, 3]), (''example.com:53'', [1, 2, 3])] \<and>
     sent_frames (fst (udp_loop [demo_round, demo_large_round] 0 0)) = frames \<and>
     fst (relay_rounds 32768 (ins @ map ServerMessage frames) NewUDPRelay) =
       fst (relay_rounds 32768 ins NewUDPRelay) @ [ToClient ''127.0.0.1:5353'' (buildUDPFrame ''example.com:53'' [7])]"
proof -
  let ?in = "LocalDatagram ''127.0.0.1:5353'' demo_udp_frame True"
  let ?ins = "[?in, ?in]"
  let ?us = "[demo_round, demo_large_round]"
  let ?d = "(''example.com:53'', [1, 2, 3]) :: string \<times> bytes"
  have good: "\<forall>i \<in> set ?ins. good_input 32768 i" by (simp add: good_input_def)
  have last: "last_sender ?ins None = Some ''127.0.0.1:5353''" by simp
  have frames: "local_datagrams ?ins = map (\<lambda>d. buildUDPFrame (fst d) (snd d)) [?d, ?d]"
    by (simp add: local_datagrams_def demo_udp_frame_def)
  have short: "\<forall>m \<in> set (local_datagrams ?ins). length m \<le> min 32768 65535"
    by (simp add: local_datagrams_def demo_udp_frame)
  have "to_server (fst (relay_rounds 32768 ?ins NewUDPRelay)) = local_datagrams ?ins"
    by (intro to_server_local [OF good]) (simp add: local_datagrams_def demo_udp_frame)
  then have read: "map ur_msg ?us = delivered 32768 (to_server (fst (relay_rounds 32768 ?ins NewUDPRelay)))"
    by (simp add: delivered_def local_datagrams_def demo_udp_frame demo_round_def demo_large_round_def)
  have net: "\<forall>(u, d) \<in> set (zip ?us [?d, ?d]). relay_target (fst d) \<and> validateTarget (ur_lookup u) (fst d) = None \<and>
      ur_resolve u \<and> ur_dial u \<and> ur_write u \<and> ur_ws_write u"
    using relay_target_name demo_udp_frame(2) by (simp add: demo_round_def demo_large_round_def)
  have small: "length (buildUDPFrame ''example.com:53'' [7]) \<le> 32768" by code_simp
  have "delivered 32768 (concat (map2 reply_frame ?us [?d, ?d])) = [buildUDPFrame ''example.com:53'' [7]]"
    using small by (simp add: reply_frame_def demo_round_def demo_large_round_def delivered_def min_def
        length_demo_large demo_large_frame)
  with datagrams_get_through [OF good last frames short read net]
  have "sent_datagrams (fst (udp_loop ?us 0 0)) = [?d, ?d]"
    and "fst (relay_rounds 32768 (?ins @ map ServerMessage (sent_frames (fst (udp_loop ?us 0 0)))) NewUDPRelay) =
      fst (relay_rounds 32768 ?ins NewUDPRelay) @ [ToClient ''127.0.0.1:5353'' (buildUDPFrame ''example.com:53'' [7])]"
    by (simp_all only: list.map simp_thms)
  then show ?thesis by blast
qed

end
