(* ===== verification/Command_Line.thy ===== *)
theory Command_Line
  imports Cmd
begin

text \<open>
  The command line of \<open>src/main.go\<close> and \<open>src/cmd\<close>: the commands and the flags that the \<open>init\<close>
  functions declare, the flags that each command reads back, and the exit status. Parsing the arguments
  is the work of the library cobra, which is a parameter; \<open>cobra_ok\<close> states what its documentation promises
  of it. The texts of the help are left out.
\<close>

section \<open>Commands and flags\<close>

datatype flag_value = FString string | FBool bool | FInt int | FDuration int | FStrings "string list"

fun same_type :: "flag_value \<Rightarrow> flag_value \<Rightarrow> bool" where
  "same_type (FString _) (FString _) = True"
| "same_type (FBool _) (FBool _) = True"
| "same_type (FInt _) (FInt _) = True"
| "same_type (FDuration _) (FDuration _) = True"
| "same_type (FStrings _) (FStrings _) = True"
| "same_type _ _ = False"

datatype arg_rule = ArbitraryArgs | MinimumNArgs nat | ExactArgs nat

fun args_ok :: "arg_rule \<Rightarrow> string list \<Rightarrow> bool" where
  "args_ok ArbitraryArgs as = True"
| "args_ok (MinimumNArgs n) as = (n \<le> length as)"
| "args_ok (ExactArgs n) as = (length as = n)"

datatype command =
  Command (cm_use: string) (cm_args: arg_rule) (cm_flags: "(string \<times> flag_value) list")
    (cm_required: "string list") (cm_subs: "command list")

definition serverCmd :: command where
  "serverCmd = Command ''server'' ArbitraryArgs
     [(''addr'', FString '':8080''), (''token'', FString []), (''tokens-dir'', FString []), (''jwt-key'', FString []),
      (''jwt-revoke-file'', FString []), (''oidc-issuer'', FString []), (''oidc-audience'', FString ''longsocks''),
      (''oidc-claim-name'', FString ''sub''), (''audit-log'', FString []), (''metrics-addr'', FString []),
      (''stats-interval'', FDuration 0), (''modes'', FStrings [''socks5'']), (''tls-cert'', FString []),
      (''tls-key'', FString []), (''tls-auto'', FBool False), (''tls-domain'', FString []), (''tls-ca'', FString []),
      (''reverse'', FBool False), (''keyfile'', FString [])]
     [] []"

definition clientCmd :: command where
  "clientCmd = Command ''client'' ArbitraryArgs
     [(''addr'', FString ''127.0.0.1:1080''), (''server'', FString []), (''token'', FString []),
      (''mode'', FString ''socks5''), (''mux'', FBool False), (''fingerprint'', FString []), (''tls-cert'', FString []),
      (''tls-key'', FString []), (''max-retry-count'', FInt 0), (''max-retry-interval'', FDuration (5 * minute))]
     [''server''] []"

definition forwardCmd :: command where
  "forwardCmd = Command ''forward [flags] SPEC [SPEC ...]'' (MinimumNArgs 1)
     [(''server'', FString []), (''token'', FString []), (''fingerprint'', FString []), (''tls-cert'', FString []),
      (''tls-key'', FString []), (''max-retry-count'', FInt 0), (''max-retry-interval'', FDuration (5 * minute))]
     [''server''] []"

definition tokenIssueCmd :: command where
  "tokenIssueCmd = Command ''issue'' ArbitraryArgs
     [(''name'', FString []), (''expires'', FString []), (''key'', FString []), (''algorithm'', FString ''hs256'')]
     [''name'', ''expires'', ''key''] []"

definition tokenVerifyCmd :: command where
  "tokenVerifyCmd = Command ''verify [token]'' (ExactArgs 1) [(''key'', FString [])] [''key''] []"

definition tokenCmd :: command where
  "tokenCmd = Command ''token'' ArbitraryArgs [] [] [tokenIssueCmd, tokenVerifyCmd]"

definition versionCmd :: command where
  "versionCmd = Command ''version'' ArbitraryArgs [] [] []"

definition rootCmd :: command where
  "rootCmd = Command ''longsocks'' ArbitraryArgs [] [] [clientCmd, forwardCmd, serverCmd, tokenCmd, versionCmd]"

text \<open>The name of a command is the first word of its \<open>Use\<close>.\<close>

definition command_name :: "command \<Rightarrow> string" where
  "command_name c = takeWhile (\<lambda>x. x \<noteq> CHR '' '') (cm_use c)"

fun find_command :: "command \<Rightarrow> string list \<Rightarrow> command option" where
  "find_command c [] = Some c"
| "find_command c (n # ns) =
     (case find (\<lambda>s. command_name s = n) (cm_subs c) of None \<Rightarrow> None | Some s \<Rightarrow> find_command s ns)"

section \<open>The library\<close>

type_synonym flag_values = "string \<rightharpoonup> flag_value"

text \<open>
  \<open>cb_mark\<close> is the error of \<open>MarkFlagRequired\<close> on a command with these flags; \<open>cb_execute\<close> is what \<open>Execute\<close>
  makes of the arguments: an error, or the command that is run, with the values of its flags and the
  arguments that are left.
\<close>

record cobra =
  cb_mark :: "string list \<Rightarrow> string \<Rightarrow> string option"
  cb_execute :: "command \<Rightarrow> string list \<Rightarrow> (string, string list \<times> flag_values \<times> string list) outcome"

definition cobra_ok :: "cobra \<Rightarrow> bool" where
  "cobra_ok lib \<longleftrightarrow>
     (\<forall>names n. n \<in> set names \<longrightarrow> cb_mark lib names n = None) \<and>
     (\<forall>c argv path vals args. cb_execute lib c argv = Ok (path, vals, args) \<longrightarrow>
        (\<exists>d. find_command c path = Some d \<and> args_ok (cm_args d) args \<and>
           (\<forall>(n, v) \<in> set (cm_flags d). \<exists>v'. vals n = Some v' \<and> same_type v v'))) \<and>
     (\<forall>c argv. cb_execute lib c argv \<noteq> Panic)"

section \<open>The init functions\<close>

definition must :: "string option \<Rightarrow> (string, unit) outcome" where
  "must err = (case err of None \<Rightarrow> Ok () | Some e \<Rightarrow> Panic)"

definition mark_required :: "cobra \<Rightarrow> command \<Rightarrow> (string, unit) outcome" where
  "mark_required lib c =
     fold (\<lambda>n r. obind r (\<lambda>_. must (cb_mark lib (map fst (cm_flags c)) n))) (cm_required c) (Ok ())"

definition init_commands :: "cobra \<Rightarrow> (string, unit) outcome" where
  "init_commands lib =
     obind (mark_required lib clientCmd) (\<lambda>_.
     obind (mark_required lib forwardCmd) (\<lambda>_.
     obind (mark_required lib tokenIssueCmd) (\<lambda>_. mark_required lib tokenVerifyCmd)))"

section \<open>Reading the flags\<close>

text \<open>The error of \<open>GetString\<close> and its siblings is ignored: the zero value is read instead.\<close>

definition get_string :: "flag_values \<Rightarrow> string \<Rightarrow> string" where
  "get_string vals n = (case vals n of Some (FString s) \<Rightarrow> s | _ \<Rightarrow> [])"

definition get_bool :: "flag_values \<Rightarrow> string \<Rightarrow> bool" where
  "get_bool vals n = (case vals n of Some (FBool b) \<Rightarrow> b | _ \<Rightarrow> False)"

definition get_int :: "flag_values \<Rightarrow> string \<Rightarrow> int" where
  "get_int vals n = (case vals n of Some (FInt i) \<Rightarrow> i | _ \<Rightarrow> 0)"

definition get_duration :: "flag_values \<Rightarrow> string \<Rightarrow> int" where
  "get_duration vals n = (case vals n of Some (FDuration i) \<Rightarrow> i | _ \<Rightarrow> 0)"

definition get_strings :: "flag_values \<Rightarrow> string \<Rightarrow> string list" where
  "get_strings vals n = (case vals n of Some (FStrings ss) \<Rightarrow> ss | _ \<Rightarrow> [])"

definition read_server_flags :: "flag_values \<Rightarrow> server_flags" where
  "read_server_flags v =
     \<lparr>sf_addr = get_string v ''addr'', sf_token = get_string v ''token'', sf_tokens_dir = get_string v ''tokens-dir'',
      sf_jwt_key = get_string v ''jwt-key'', sf_jwt_revoke_file = get_string v ''jwt-revoke-file'',
      sf_oidc_issuer = get_string v ''oidc-issuer'', sf_oidc_audience = get_string v ''oidc-audience'',
      sf_oidc_claim_name = get_string v ''oidc-claim-name'', sf_audit_log = get_string v ''audit-log'',
      sf_metrics_addr = get_string v ''metrics-addr'', sf_stats_interval = get_duration v ''stats-interval'',
      sf_modes = get_strings v ''modes'', sf_tls_cert = get_string v ''tls-cert'', sf_tls_key = get_string v ''tls-key'',
      sf_tls_auto = get_bool v ''tls-auto'', sf_tls_domain = get_string v ''tls-domain'',
      sf_tls_ca = get_string v ''tls-ca'', sf_reverse = get_bool v ''reverse'', sf_keyfile = get_string v ''keyfile''\<rparr>"

definition read_client_flags :: "flag_values \<Rightarrow> client_config" where
  "read_client_flags v =
     \<lparr>cc_addr = get_string v ''addr'', cc_server_url = get_string v ''server'', cc_token = get_string v ''token'',
      cc_max_retry_count = get_int v ''max-retry-count'', cc_max_retry_interval = get_duration v ''max-retry-interval'',
      cc_fingerprint = get_string v ''fingerprint'', cc_tls_cert = get_string v ''tls-cert'',
      cc_tls_key = get_string v ''tls-key'', cc_mux = get_bool v ''mux''\<rparr>"

definition read_forward_flags :: "flag_values \<Rightarrow> client_config" where
  "read_forward_flags v =
     \<lparr>cc_addr = [], cc_server_url = get_string v ''server'', cc_token = get_string v ''token'',
      cc_max_retry_count = get_int v ''max-retry-count'', cc_max_retry_interval = get_duration v ''max-retry-interval'',
      cc_fingerprint = get_string v ''fingerprint'', cc_tls_cert = get_string v ''tls-cert'',
      cc_tls_key = get_string v ''tls-key'', cc_mux = False\<rparr>"

section \<open>Running a command\<close>

text \<open>What a command starts, with the values of its flags: the arguments of \<open>runServer\<close>, \<open>runClient\<close> (with the
  mode), \<open>runForward\<close>, \<open>IssueToken\<close> and \<open>VerifyToken\<close>. The other commands print the help.\<close>

datatype action =
    StartServer server_flags
  | StartClient client_config string
  | StartForward client_config "string list"
  | IssueAction string string string string \<comment> \<open>name, expires, key, algorithm\<close>
  | VerifyAction string string \<comment> \<open>key, token\<close>
  | VersionAction
  | HelpAction

definition dispatch :: "string list \<Rightarrow> flag_values \<Rightarrow> string list \<Rightarrow> (string, action) outcome" where
  "dispatch path vals args =
     (if path = [''server''] then Ok (StartServer (read_server_flags vals))
      else if path = [''client''] then Ok (StartClient (read_client_flags vals) (get_string vals ''mode''))
      else if path = [''forward''] then Ok (StartForward (read_forward_flags vals) args)
      else if path = [''token'', ''issue''] then
        Ok (IssueAction (get_string vals ''name'') (get_string vals ''expires'') (get_string vals ''key'')
              (get_string vals ''algorithm''))
      else if path = [''token'', ''verify''] then
        (case args of [] \<Rightarrow> Panic | tok # _ \<Rightarrow> Ok (VerifyAction (get_string vals ''key'') tok))
      else if path = [''version''] then Ok VersionAction
      else Ok HelpAction)"

definition version_lines :: "string \<Rightarrow> string \<Rightarrow> string \<Rightarrow> string list" where
  "version_lines version commit date =
     [''longsocks version '' @ version, ''  commit: '' @ commit, ''  built:  '' @ date]"

text \<open>
  The operation of the server command: \<open>runServer\<close> with its call of \<open>server.ListenAndServe\<close>, which
  panics when a route is registered twice. The rest is an argument: the environment, the certificates
  and the files that \<open>ListenAndServe\<close> reads, the texts of the errors, what the listener of \<open>net/http\<close>
  ends with, and what the other actions end with.
\<close>

record 'c operations =
  op_world :: server_world
  op_certs :: "string \<Rightarrow> 'c list"
  op_read :: "string \<Rightarrow> string option"
  op_text :: "run_error \<Rightarrow> string"
  op_listen :: "'c server_plan \<Rightarrow> (string, unit) outcome"
  op_other :: "action \<Rightarrow> (string, unit) outcome"

definition server_operation :: "'c operations \<Rightarrow> server_flags \<Rightarrow> (string, unit) outcome" where
  "server_operation ops f =
     (case runServer f (op_world ops) of
        Err e \<Rightarrow> Err (op_text ops e)
      | Panic \<Rightarrow> Panic
      | Ok (cfg, ch, sinks) \<Rightarrow>
          (case ListenAndServe (op_certs ops) (op_read ops) cfg of
             Ok plan \<Rightarrow> op_listen ops plan
           | _ \<Rightarrow> Panic))"

definition run_action :: "'c operations \<Rightarrow> action \<Rightarrow> (string, unit) outcome" where
  "run_action ops a = (case a of StartServer f \<Rightarrow> server_operation ops f | _ \<Rightarrow> op_other ops a)"

text \<open>\<open>Execute\<close>: the error of the library, or of the command that it runs.\<close>

definition Execute :: "cobra \<Rightarrow> 'c operations \<Rightarrow> string list \<Rightarrow> (string, unit) outcome" where
  "Execute lib ops argv =
     obind (cb_execute lib rootCmd argv) (\<lambda>(path, vals, args).
     obind (dispatch path vals args) (run_action ops))"

text \<open>\<open>main\<close>: what it writes to the standard error, and the status of the process. The \<open>init\<close> functions run
  first.\<close>

definition main :: "cobra \<Rightarrow> 'c operations \<Rightarrow> string list \<Rightarrow> (string, string list \<times> nat) outcome" where
  "main lib ops argv =
     obind (init_commands lib) (\<lambda>_.
       case Execute lib ops argv of Ok u \<Rightarrow> Ok ([], 0) | Err e \<Rightarrow> Ok ([e], 1) | Panic \<Rightarrow> Panic)"

section \<open>The flags of an action\<close>

text \<open>The values that an action carries, under the names of their flags.\<close>

definition client_values :: "client_config \<Rightarrow> (string \<times> flag_value) list" where
  "client_values c =
     [(''server'', FString (cc_server_url c)), (''token'', FString (cc_token c)),
      (''fingerprint'', FString (cc_fingerprint c)), (''tls-cert'', FString (cc_tls_cert c)),
      (''tls-key'', FString (cc_tls_key c)), (''max-retry-count'', FInt (cc_max_retry_count c)),
      (''max-retry-interval'', FDuration (cc_max_retry_interval c))]"

definition server_values :: "server_flags \<Rightarrow> (string \<times> flag_value) list" where
  "server_values f =
     [(''addr'', FString (sf_addr f)), (''token'', FString (sf_token f)), (''tokens-dir'', FString (sf_tokens_dir f)),
      (''jwt-key'', FString (sf_jwt_key f)), (''jwt-revoke-file'', FString (sf_jwt_revoke_file f)),
      (''oidc-issuer'', FString (sf_oidc_issuer f)), (''oidc-audience'', FString (sf_oidc_audience f)),
      (''oidc-claim-name'', FString (sf_oidc_claim_name f)), (''audit-log'', FString (sf_audit_log f)),
      (''metrics-addr'', FString (sf_metrics_addr f)), (''stats-interval'', FDuration (sf_stats_interval f)),
      (''modes'', FStrings (sf_modes f)), (''tls-cert'', FString (sf_tls_cert f)), (''tls-key'', FString (sf_tls_key f)),
      (''tls-auto'', FBool (sf_tls_auto f)), (''tls-domain'', FString (sf_tls_domain f)),
      (''tls-ca'', FString (sf_tls_ca f)), (''reverse'', FBool (sf_reverse f)), (''keyfile'', FString (sf_keyfile f))]"

fun action_values :: "action \<Rightarrow> (string \<times> flag_value) list" where
  "action_values (StartServer f) = server_values f"
| "action_values (StartClient c mode) =
     [(''addr'', FString (cc_addr c)), (''mode'', FString mode), (''mux'', FBool (cc_mux c))] @ client_values c"
| "action_values (StartForward c as) = client_values c"
| "action_values (IssueAction n e k a) =
     [(''name'', FString n), (''expires'', FString e), (''key'', FString k), (''algorithm'', FString a)]"
| "action_values (VerifyAction k t) = [(''key'', FString k)]"
| "action_values VersionAction = []"
| "action_values HelpAction = []"

lemma command_names [simp]:
  "command_name clientCmd = ''client''" "command_name forwardCmd = ''forward''"
  "command_name serverCmd = ''server''" "command_name tokenCmd = ''token''" "command_name versionCmd = ''version''"
  "command_name tokenIssueCmd = ''issue''" "command_name tokenVerifyCmd = ''verify''"
  by code_simp+

lemma command_subs [simp]:
  "cm_subs clientCmd = []" "cm_subs forwardCmd = []" "cm_subs serverCmd = []" "cm_subs versionCmd = []"
  "cm_subs tokenIssueCmd = []" "cm_subs tokenVerifyCmd = []" "cm_subs tokenCmd = [tokenIssueCmd, tokenVerifyCmd]"
  "cm_subs rootCmd = [clientCmd, forwardCmd, serverCmd, tokenCmd, versionCmd]"
  by (simp_all add: clientCmd_def forwardCmd_def serverCmd_def versionCmd_def tokenIssueCmd_def tokenVerifyCmd_def
      tokenCmd_def rootCmd_def)

lemma find_command_leaf: "cm_subs c = [] \<Longrightarrow> find_command c path = Some d \<longleftrightarrow> path = [] \<and> d = c"
  by (cases path) auto

lemma find_command_token:
  "find_command tokenCmd path = Some d \<longleftrightarrow>
     path = [] \<and> d = tokenCmd \<or> path = [''issue''] \<and> d = tokenIssueCmd \<or> path = [''verify''] \<and> d = tokenVerifyCmd"
proof (cases path)
  case (Cons n ns)
  then show ?thesis
    by (cases "n = ''issue''"; cases "n = ''verify''") (simp_all add: find_command_leaf)
qed auto

lemma find_command_root:
  assumes "find_command rootCmd path = Some d"
  shows "path = [] \<and> d = rootCmd \<or> path = [''client''] \<and> d = clientCmd \<or> path = [''forward''] \<and> d = forwardCmd \<or>
    path = [''server''] \<and> d = serverCmd \<or> path = [''version''] \<and> d = versionCmd \<or> path = [''token''] \<and> d = tokenCmd \<or>
    path = [''token'', ''issue''] \<and> d = tokenIssueCmd \<or> path = [''token'', ''verify''] \<and> d = tokenVerifyCmd"
proof (cases path)
  case (Cons n ns)
  show ?thesis
  proof (cases "n = ''token''")
    case True
    then show ?thesis using assms Cons by (simp add: find_command_token)
  next
    case False
    then show ?thesis
      using assms Cons
      by (cases "n = ''client''"; cases "n = ''forward''"; cases "n = ''server''"; cases "n = ''version''")
        (simp_all add: find_command_leaf)
  qed
qed (use assms in simp)

definition agrees :: "flag_values \<Rightarrow> (string \<times> flag_value) list \<Rightarrow> bool" where
  "agrees vals flags \<longleftrightarrow> (\<forall>(n, v) \<in> set flags. \<exists>v'. vals n = Some v' \<and> same_type v v')"

lemma agrees_Cons [simp]:
  "agrees vals ((n, v) # flags) \<longleftrightarrow> (\<exists>v'. vals n = Some v' \<and> same_type v v') \<and> agrees vals flags"
  by (simp add: agrees_def)

text \<open>A getter of the declared type returns the value.\<close>

lemma typed_flag [simp]:
  "(\<exists>v'. vals n = Some v' \<and> same_type (FString s) v') \<longleftrightarrow> vals n = Some (FString (get_string vals n))"
  "(\<exists>v'. vals n = Some v' \<and> same_type (FBool b) v') \<longleftrightarrow> vals n = Some (FBool (get_bool vals n))"
  "(\<exists>v'. vals n = Some v' \<and> same_type (FInt i) v') \<longleftrightarrow> vals n = Some (FInt (get_int vals n))"
  "(\<exists>v'. vals n = Some v' \<and> same_type (FDuration i) v') \<longleftrightarrow> vals n = Some (FDuration (get_duration vals n))"
  "(\<exists>v'. vals n = Some v' \<and> same_type (FStrings ss) v') \<longleftrightarrow> vals n = Some (FStrings (get_strings vals n))"
  by (auto simp: get_string_def get_bool_def get_int_def get_duration_def get_strings_def
      split: option.splits flag_value.splits elim: same_type.elims)

lemma values_lookup:
  assumes "map fst xs = map fst flags" and "distinct (map fst flags)" and "\<forall>(n, v) \<in> set xs. vals n = Some v"
  shows "\<forall>n \<in> fst ` set flags. vals n = map_of xs n"
proof
  fix n
  assume "n \<in> fst ` set flags"
  then have "n \<in> set (map fst xs)" using assms(1) by simp
  then obtain v where "(n, v) \<in> set xs" by auto
  then show "vals n = map_of xs n" using assms by (auto intro!: map_of_is_SomeI [symmetric])
qed

lemma server_flags_read:
  assumes "agrees vals (cm_flags serverCmd)"
  shows "\<forall>n \<in> fst ` set (cm_flags serverCmd). vals n = map_of (server_values (read_server_flags vals)) n"
proof (rule values_lookup)
  have "distinct (map fst (cm_flags serverCmd)) = True" by code_simp
  then show "distinct (map fst (cm_flags serverCmd))" by simp
  show "\<forall>(n, v) \<in> set (server_values (read_server_flags vals)). vals n = Some v"
    using assms unfolding serverCmd_def server_values_def read_server_flags_def
    by (simp only: command.sel agrees_Cons typed_flag server_flags.simps list.simps ball_simps split_conv simp_thms set_simps)
  show "map fst (server_values (read_server_flags vals)) = map fst (cm_flags serverCmd)"
    by (simp add: serverCmd_def server_values_def)
qed

lemma client_flags_read:
  "agrees vals (cm_flags clientCmd) \<Longrightarrow>
   \<forall>n \<in> fst ` set (cm_flags clientCmd).
     vals n = map_of (action_values (StartClient (read_client_flags vals) (get_string vals ''mode''))) n"
  by (simp add: clientCmd_def client_values_def read_client_flags_def)

lemma forward_flags_read:
  "agrees vals (cm_flags forwardCmd) \<Longrightarrow>
   \<forall>n \<in> fst ` set (cm_flags forwardCmd). vals n = map_of (action_values (StartForward (read_forward_flags vals) as)) n"
  by (simp add: forwardCmd_def client_values_def read_forward_flags_def)

lemma token_flags_read:
  "agrees vals (cm_flags tokenIssueCmd) \<Longrightarrow>
   \<forall>n \<in> fst ` set (cm_flags tokenIssueCmd).
     vals n = map_of (action_values (IssueAction (get_string vals ''name'') (get_string vals ''expires'')
       (get_string vals ''key'') (get_string vals ''algorithm''))) n"
  "agrees vals (cm_flags tokenVerifyCmd) \<Longrightarrow>
   \<forall>n \<in> fst ` set (cm_flags tokenVerifyCmd). vals n = map_of (action_values (VerifyAction (get_string vals ''key'') t)) n"
  by (simp_all add: tokenIssueCmd_def tokenVerifyCmd_def)

lemma no_flags: "cm_flags rootCmd = []" "cm_flags tokenCmd = []" "cm_flags versionCmd = []"
  by (simp_all add: rootCmd_def tokenCmd_def versionCmd_def)

lemma dispatch_reads:
  assumes "find_command rootCmd path = Some d" and "args_ok (cm_args d) args" and "agrees vals (cm_flags d)"
  shows "\<exists>a. dispatch path vals args = Ok a \<and> (\<forall>n \<in> fst ` set (cm_flags d). vals n = map_of (action_values a) n)"
  using find_command_root [OF assms(1)]
proof (elim disjE conjE)
  assume p: "path = [''token'', ''verify'']" "d = tokenVerifyCmd"
  then obtain t where "args = [t]"
    using assms(2) by (auto simp: tokenVerifyCmd_def length_Suc_conv)
  then show ?thesis using token_flags_read(2) assms(3) p by (simp add: dispatch_def)
next
  assume p: "path = [''server'']" "d = serverCmd"
  then show ?thesis using server_flags_read assms(3) by (simp add: dispatch_def)
next
  assume p: "path = [''client'']" "d = clientCmd"
  then show ?thesis using client_flags_read assms(3) by (simp add: dispatch_def del: action_values.simps)
next
  assume p: "path = [''forward'']" "d = forwardCmd"
  then show ?thesis using forward_flags_read assms(3) by (simp add: dispatch_def del: action_values.simps)
next
  assume p: "path = [''token'', ''issue'']" "d = tokenIssueCmd"
  then show ?thesis using token_flags_read(1) assms(3) by (simp add: dispatch_def del: action_values.simps)
qed (simp_all add: dispatch_def no_flags)

lemma init_commands_Ok: "cobra_ok lib \<Longrightarrow> init_commands lib = Ok ()"
  by (simp add: cobra_ok_def init_commands_def mark_required_def must_def clientCmd_def forwardCmd_def
      tokenIssueCmd_def tokenVerifyCmd_def)

text \<open>With no flag on the command line the operations start with these values.\<close>

lemma default_flags:
  "read_server_flags (map_of (cm_flags serverCmd)) = default_server_flags"
  "read_client_flags (map_of (cm_flags clientCmd)) = default_client_flags"
  by (simp_all add: read_server_flags_def read_client_flags_def serverCmd_def clientCmd_def default_server_flags_def
      default_client_flags_def get_string_def get_bool_def get_int_def get_duration_def get_strings_def)

section \<open>Which operations panic\<close>

lemma runServer_not_Panic: "runServer f w \<noteq> Panic"
proof -
  have "NewStaticDir d \<noteq> Panic" for d
    by (simp add: NewStaticDir_def split: prod.split option.split)
  then have "dir_layer f w \<noteq> Panic" by (simp add: dir_layer_def split: outcome.split)
  moreover have "buildKeyFunc x k \<noteq> Panic" for x k
    by (auto simp: buildKeyFunc_def Let_def split: option.split if_splits)
  then have "NewJWTAuthenticator x k rf f \<noteq> Panic" for x k rf f
    by (simp add: NewJWTAuthenticator_def Let_def split: option.split outcome.split prod.split)
  then have "jwt_layer f w \<noteq> Panic" by (simp add: jwt_layer_def split: outcome.split)
  moreover have "NewOIDCAuthenticator g i u c \<noteq> Panic" for g i u c
    by (simp add: NewOIDCAuthenticator_def split: prod.split option.split)
  then have "oidc_layer f w \<noteq> Panic" by (simp add: oidc_layer_def split: outcome.split)
  moreover have "LoadOrGenerate p g k d \<noteq> Panic" for p g k d
    by (simp add: LoadOrGenerate_def Generate_def split: option.split)
  ultimately show ?thesis
    by (auto simp: runServer_def obind_eq_Panic Let_def split: outcome.splits)
qed

text \<open>The modes for which \<open>ListenAndServe\<close> registers a route twice.\<close>

definition doubled_modes :: "string list \<Rightarrow> bool" where
  "doubled_modes ms \<longleftrightarrow>
     1 < count_list (effective_modes ms) ''socks5'' + count_list (effective_modes ms) ''socks5-udp'' \<or>
     1 < count_list (effective_modes ms) ''connect''"

lemma ListenAndServe_doubled:
  "ListenAndServe certs read cfg = Panic \<longleftrightarrow> doubled_modes (sc_modes cfg)"
  "ListenAndServe certs read cfg \<noteq> Err e"
proof -
  have routes: "server_routes ms = Panic \<longleftrightarrow> doubled_modes ms" "server_routes ms \<noteq> Err u" for ms u
    by (auto simp: server_routes_eq Let_def doubled_modes_def)
  show "ListenAndServe certs read cfg = Panic \<longleftrightarrow> doubled_modes (sc_modes cfg)"
    by (cases "buildMTLSConfig certs read cfg") (simp add: ListenAndServe_def obind_eq_Panic routes Let_def)
  show "ListenAndServe certs read cfg \<noteq> Err e"
    using routes(2) [of "sc_modes cfg"]
    by (cases "server_routes (sc_modes cfg)") (simp_all add: ListenAndServe_def Let_def split: prod.split)
qed

text \<open>An action that panics: the server command with modes that register a route twice, when it gets as far as to
  listen, or an action for which the argument says so.\<close>

definition operation_panics :: "'c operations \<Rightarrow> action \<Rightarrow> bool" where
  "operation_panics ops a \<longleftrightarrow>
     (case a of
        StartServer f \<Rightarrow>
          (case runServer f (op_world ops) of
             Ok (cfg, ch, sinks) \<Rightarrow>
               doubled_modes (sf_modes f) \<or>
               (case ListenAndServe (op_certs ops) (op_read ops) cfg of
                  Ok plan \<Rightarrow> op_listen ops plan = Panic
                | _ \<Rightarrow> False)
           | _ \<Rightarrow> False)
      | _ \<Rightarrow> op_other ops a = Panic)"

lemma run_action_panics: "run_action ops a = Panic \<longleftrightarrow> operation_panics ops a"
proof (cases a)
  case (StartServer f)
  show ?thesis
  proof (cases "runServer f (op_world ops)")
    case (Ok x)
    obtain cfg ch sinks where x: "x = (cfg, ch, sinks)" by (metis prod_cases3)
    have "sc_modes cfg = sf_modes f" using runServer_Ok(2) Ok x by blast
    then show ?thesis
      using StartServer Ok x ListenAndServe_doubled [of "op_certs ops" "op_read ops" cfg]
      by (auto simp: run_action_def server_operation_def operation_panics_def split: outcome.split)
  qed (use StartServer runServer_not_Panic in \<open>simp_all add: run_action_def server_operation_def operation_panics_def\<close>)
qed (simp_all add: run_action_def operation_panics_def)

section \<open>Properties\<close>

text \<open>C34: The command line is put together correctly. No \<open>must\<close> of the \<open>init\<close> functions and no index of an argument
  makes \<open>main\<close> panic, whatever the arguments are: it panics exactly when the operation that it starts does,
  and the server command exactly when it gets as far as to listen with modes that register a route twice
  (or the listener of \<open>net/http\<close> panics). Otherwise it exits with status 1 exactly when it writes an error.
  When a command runs, every flag that it declares is read under its name and with its declared type, so
  that the value given on the command line, or the default, is the value that the operation starts with.\<close>

theorem command_line_sound:
  assumes "cobra_ok lib"
  shows "(main lib ops argv = Panic \<longleftrightarrow>
      (\<exists>path vals args a. cb_execute lib rootCmd argv = Ok (path, vals, args) \<and>
         dispatch path vals args = Ok a \<and> operation_panics ops a)) \<and>
    (main lib ops argv \<noteq> Panic \<longrightarrow>
      (\<exists>es status. main lib ops argv = Ok (es, status) \<and> status = (if es = [] then 0 else 1))) \<and>
    (\<forall>path vals args. cb_execute lib rootCmd argv = Ok (path, vals, args) \<longrightarrow>
      (\<exists>a d. dispatch path vals args = Ok a \<and> find_command rootCmd path = Some d \<and>
         (\<forall>n. n \<in> fst ` set (cm_flags d) \<longrightarrow> vals n = map_of (action_values a) n)))"
proof (intro conjI)
  have starts: "\<exists>a d. dispatch path vals args = Ok a \<and> find_command rootCmd path = Some d \<and>
      (\<forall>n. n \<in> fst ` set (cm_flags d) \<longrightarrow> vals n = map_of (action_values a) n)"
    if run: "cb_execute lib rootCmd argv = Ok (path, vals, args)" for path vals args
  proof -
    obtain d where d: "find_command rootCmd path = Some d" "args_ok (cm_args d) args" "agrees vals (cm_flags d)"
      using assms run unfolding cobra_ok_def agrees_def by blast
    then show ?thesis using dispatch_reads [OF d] by blast
  qed
  then show "\<forall>path vals args. cb_execute lib rootCmd argv = Ok (path, vals, args) \<longrightarrow>
      (\<exists>a d. dispatch path vals args = Ok a \<and> find_command rootCmd path = Some d \<and>
         (\<forall>n. n \<in> fst ` set (cm_flags d) \<longrightarrow> vals n = map_of (action_values a) n))"
    by blast
  have "main lib ops argv = Panic \<longleftrightarrow> Execute lib ops argv = Panic"
    by (simp add: main_def init_commands_Ok [OF assms] split: outcome.split)
  also have "\<dots> \<longleftrightarrow> (\<exists>path vals args a. cb_execute lib rootCmd argv = Ok (path, vals, args) \<and>
      dispatch path vals args = Ok a \<and> operation_panics ops a)"
  proof (cases "cb_execute lib rootCmd argv")
    case (Ok x)
    obtain path vals args where x: "x = (path, vals, args)" by (metis prod_cases3)
    then obtain a where "dispatch path vals args = Ok a" using starts Ok by blast
    then show ?thesis using Ok x by (auto simp: Execute_def run_action_panics)
  qed (use assms in \<open>simp_all add: Execute_def cobra_ok_def\<close>)
  finally show "main lib ops argv = Panic \<longleftrightarrow> (\<exists>path vals args a. cb_execute lib rootCmd argv = Ok (path, vals, args) \<and>
      dispatch path vals args = Ok a \<and> operation_panics ops a)" .
  show "main lib ops argv \<noteq> Panic \<longrightarrow>
      (\<exists>es status. main lib ops argv = Ok (es, status) \<and> status = (if es = [] then 0 else 1))"
    by (cases "Execute lib ops argv") (simp_all add: main_def init_commands_Ok [OF assms])
qed

text \<open>A library that only knows how to run the server, with its defaults or with two modes.\<close>

definition demo_cobra :: cobra where
  "demo_cobra =
     \<lparr>cb_mark = (\<lambda>names n. if n \<in> set names then None else Some ''no such flag''),
      cb_execute = (\<lambda>c argv.
        case find_command c [''server''] of
          None \<Rightarrow> Err ''unknown command''
        | Some d \<Rightarrow>
            if cm_args d \<noteq> ArbitraryArgs \<or> \<not> distinct (map fst (cm_flags d)) then Err ''unknown command''
            else if argv = [''server''] then Ok ([''server''], map_of (cm_flags d), [])
            else if argv = [''server'', ''--modes=socks5,socks5-udp'']
            then Ok ([''server''], \<lambda>n. if map_of (cm_flags d) n = Some (FStrings [''socks5'']) then
                                          Some (FStrings [''socks5'', ''socks5-udp'']) else map_of (cm_flags d) n, [])
            else Err ''unknown command'')\<rparr>"

lemma same_type_refl [simp]: "same_type v v"
  by (cases v) simp_all

lemma same_type_strings:
  "distinct (map fst fs) \<Longrightarrow> (n, v) \<in> set fs \<Longrightarrow> (n, FStrings ss) \<in> set fs \<Longrightarrow> same_type v (FStrings ss')"
  by (drule (2) eq_key_imp_eq_value) simp

lemma demo_cobra_ok: "cobra_ok demo_cobra"
  by (auto simp: cobra_ok_def demo_cobra_def intro: same_type_strings split: option.splits if_splits)

definition demo_two_modes :: flag_values where
  "demo_two_modes = (\<lambda>n. if map_of (cm_flags serverCmd) n = Some (FStrings [''socks5'']) then
     Some (FStrings [''socks5'', ''socks5-udp'']) else map_of (cm_flags serverCmd) n)"

lemma demo_cobra_server:
  "cb_execute demo_cobra rootCmd [''server''] = Ok ([''server''], map_of (cm_flags serverCmd), [])"
  "cb_execute demo_cobra rootCmd [''server'', ''--modes=socks5,socks5-udp''] = Ok ([''server''], demo_two_modes, [])"
proof -
  have "distinct (map fst (cm_flags serverCmd)) = True" "cm_args serverCmd = ArbitraryArgs" by code_simp+
  then show "cb_execute demo_cobra rootCmd [''server''] = Ok ([''server''], map_of (cm_flags serverCmd), [])"
    "cb_execute demo_cobra rootCmd [''server'', ''--modes=socks5,socks5-udp''] = Ok ([''server''], demo_two_modes, [])"
    by (simp_all add: demo_cobra_def demo_two_modes_def)
qed

definition demo_operations :: "string operations" where
  "demo_operations =
     \<lparr>op_world = demo_world, op_certs = (\<lambda>_. []), op_read = (\<lambda>_. None), op_text = (\<lambda>_. ''failed''),
      op_listen = (\<lambda>_. Err ''address in use''), op_other = (\<lambda>_. Ok ())\<rparr>"

lemma demo_two_modes_panic:
  "\<exists>cfg ch sinks. runServer (default_server_flags\<lparr>sf_modes := [''socks5'', ''socks5-udp'']\<rparr>) demo_world = Ok (cfg, ch, sinks)"
proof -
  have "trim_space ''socks5'' = ''socks5''" "trim_space ''socks5-udp'' = ''socks5-udp''" by code_simp+
  then have "check_flags (default_server_flags\<lparr>sf_modes := [''socks5'', ''socks5-udp'']\<rparr>) = Ok ()"
    by (simp add: check_flags_def default_server_flags_def valid_mode_def)
  then show ?thesis
    by (simp add: runServer_def) (simp add: default_server_flags_def demo_world_def server_sinks_def dir_layer_def
        jwt_layer_def oidc_layer_def effective_token_def static_layer_def LoadOrGenerate_def Generate_def Let_def)
qed

lemma command_line_sound_witness:
  "(\<exists>a. dispatch [''server''] (map_of (cm_flags serverCmd)) [] = Ok a \<and>
     map_of (action_values a) ''modes'' = Some (FStrings [''socks5''])) \<and>
   main demo_cobra demo_operations [''server'', ''--modes=socks5,socks5-udp''] = Panic"
proof
  obtain a where "dispatch [''server''] (map_of (cm_flags serverCmd)) [] = Ok a"
    and "\<forall>n. n \<in> fst ` set (cm_flags serverCmd) \<longrightarrow> map_of (cm_flags serverCmd) n = map_of (action_values a) n"
    using command_line_sound [OF demo_cobra_ok, of demo_operations "[''server'']"] demo_cobra_server by auto
  moreover have "''modes'' \<in> fst ` set (cm_flags serverCmd)"
    "map_of (cm_flags serverCmd) ''modes'' = Some (FStrings [''socks5''])"
    by (simp_all add: serverCmd_def)
  ultimately show "\<exists>a. dispatch [''server''] (map_of (cm_flags serverCmd)) [] = Ok a \<and>
      map_of (action_values a) ''modes'' = Some (FStrings [''socks5''])" by metis
  let ?flags = "default_server_flags\<lparr>sf_modes := [''socks5'', ''socks5-udp'']\<rparr>"
  have "read_server_flags demo_two_modes = ?flags"
    by (simp add: read_server_flags_def demo_two_modes_def serverCmd_def default_server_flags_def get_string_def
        get_bool_def get_duration_def get_strings_def)
  then have "dispatch [''server''] demo_two_modes [] = Ok (StartServer ?flags)" by (simp add: dispatch_def)
  moreover have "operation_panics demo_operations (StartServer ?flags)"
    using demo_two_modes_panic by (auto simp: operation_panics_def demo_operations_def doubled_modes_def effective_modes_def)
  ultimately show "main demo_cobra demo_operations [''server'', ''--modes=socks5,socks5-udp''] = Panic"
    using command_line_sound [OF demo_cobra_ok, of demo_operations "[''server'', ''--modes=socks5,socks5-udp'']"]
      demo_cobra_server(2) by blast
qed

end
