(* ===== verification/Spec2Isabelle.thy ===== *)
theory Spec2Isabelle
  imports Tunnel Divergences Client_Session Session_Link Datagrams Command_Line
begin

text \<open>
  A verification development of longsocks, a proxy that is tunneled over WebSockets (Go).

  \<^bold>\<open>The program.\<close> A client offers a local SOCKS5, datagram or HTTP CONNECT proxy, or port forwards, and
  reaches the server with one WebSocket for each connection or with one multiplexed session. The server
  authenticates the request, filters the target, dials it, relays both directions and keeps an audit
  log, Prometheus metrics and counters. The theories follow the packages.

  \<^item> \<open>Go_Base\<close> is the prelude: bytes and strings, the outcome of a call that can fail or panic, checked
    indexing, the functions of package \<open>strings\<close>. \<open>Go_Num\<close>, \<open>Go_Time\<close>, \<open>Go_Net\<close>, \<open>Go_IP\<close>, \<open>Go_Encoding\<close>,
    \<open>Go_URL\<close> and \<open>Go_URL_Text\<close> model what the program uses of \<open>fmt\<close>, \<open>strconv\<close>, \<open>time\<close>, \<open>net\<close>,
    \<open>encoding/base64\<close>, \<open>math/big\<close>, \<open>bufio\<close> and \<open>net/url\<close> (as of Go 1.25.0), with the round trips that the other proofs need.
  \<^item> \<open>Backoff\<close> (\<open>internal/backoff\<close>): \<open>New\<close>, \<open>Next\<close>, \<open>Reset\<close>; the float operations are written out with
    rounding to 53 bits. \<open>Mux_Proto\<close> (\<open>internal/mux\<close>): \<open>WriteHeader\<close>, \<open>ReadHeader\<close>; the locale
    \<open>frame_reader\<close> is the contract of a framing. \<open>Relay\<close> (\<open>internal/relay\<close>): the two copiers as a step
    relation over all interleavings; \<open>Tunnel\<close> joins the relay of the client and the relay of the server.
  \<^item> \<open>Audit_Log\<close> (\<open>internal/audit\<close>): records, the fan-out handler, the metrics handler with the collectors
    it calls, the atomic counters and the periodic record.
  \<^item> \<open>Auth_Base\<close> holds the locale \<open>authenticator\<close> (an identity is never empty) and the locale \<open>hot_reload\<close>
    (a reload that succeeds replaces, one that fails keeps), and the data of the JWT and x509 libraries.
    \<open>Auth_Static\<close>, \<open>Auth_JWT\<close> (with the issuer), \<open>Auth_OIDC\<close>, \<open>Auth_MTLS\<close> and \<open>Auth_Chain\<close> are the files of
    \<open>internal/auth\<close>; each authenticator interprets the locales. \<open>Fingerprint\<close> (\<open>internal/fingerprint\<close>).
  \<^item> \<open>Target\<close> (\<open>validateTarget\<close>, \<open>extractBearer\<close>), \<open>Udp_Frame\<close> (\<open>parseUDPFrame\<close>, \<open>buildUDPFrame\<close>),
    \<open>Server_Config\<close> (\<open>ListenAndServe\<close>, \<open>buildMTLSConfig\<close>, \<open>authenticateRequest\<close>), \<open>Server_Handlers\<close> (the four
    handlers of a connection), \<open>Server_Mux\<close> (\<open>muxHandler\<close> with its accept loop and the reverse tunnels as a
    step relation), \<open>Server_Books\<close> (the log and the counters over any interleaving of handlers) and
    \<open>Server_Dispatch\<close> (the multiplexer in front of the handlers) are \<open>internal/server/server.go\<close>. The
    locale \<open>audited_handler\<close> is the contract that every handler keeps: it opens and closes a connection
    in the audit or does neither, and it reaches out to admitted targets only.
  \<^item> \<open>Client_Dial\<close> (\<open>dial.go\<close>, \<open>session.go\<close> and the dialers of \<open>client.go\<close>, \<open>connect.go\<close>, \<open>udp.go\<close>),
    \<open>Client_Mux\<close> (\<open>muxDialer\<close> and the stream handlers of \<open>forward.go\<close>), \<open>Client_Session\<close> (\<open>muxDialer.dial\<close> in
    many goroutines, as a step relation), \<open>Client_Forward\<close> (the loop of
    \<open>Forward\<close> as a step relation), \<open>Client_Proxy\<close> (\<open>connect.go\<close>, \<open>udp.go\<close>) and \<open>Client_Entry\<close> (the entry
    points) are \<open>internal/client\<close>. \<open>Cmd\<close> holds what the commands of \<open>src/cmd\<close> do with the values of their
    flags, \<open>Claims_Text\<close> what \<open>token verify\<close> prints, \<open>Command_Line\<close> the declarations of the commands and
    flags, how the flags are read back, and \<open>main\<close>.
  \<^item> \<open>Session_Link\<close> puts the client of \<open>forward.go\<close> and the server's sessions together in one step relation
    whose streams are in flight between them. \<open>Datagrams\<close> joins the client's datagram relay with the
    server's loop. This theory composes the rest: a request of the client at the server, a stream of the
    client in the server's accept loop, a reverse tunnel, the pinning of the server's key. \<open>Divergences\<close>
    shows, on the model, where the code departs from its documents.

  \<^bold>\<open>State and effects.\<close> A struct is a record with the fields that the operations use. A handler is a
  function from what the network answers (the record \<open>answers\<close>) to the list of its events in order, with the
  state it leaves. Errors and panics are values (\<open>outcome\<close>). Goroutines that share state are steps of a
  relation; the invariants are proved over all reachable states. Counters are 64-bit words and wrap.
  Log attributes named \<open>error\<close> are left out, as their text comes from outside the program.

  \<^bold>\<open>Parameters.\<close> What is not in the repository is an argument: the WebSocket, yamux, JWT, x509, SOCKS5, cobra,
  Prometheus and HTTP client libraries, name resolution, files, random numbers, clocks and the contexts.
  Hypotheses on them are named definitions (\<open>lib_hs256\<close>: the JWT library accepts what it signed with HS256 up
  to the expiry and refuses it from then on; \<open>arrives_as\<close>: the request that a dial of a URL becomes;
  \<open>handshake\<close>: a dial succeeds when the server accepts it; \<open>map_order\<close>: the iteration over a map;
  \<open>cobra_ok\<close>: the library finds a declared command, checks its arguments and types the values of its flags;
  \<open>prometheus_documented\<close>: which label values and additions panic; \<open>delivered\<close>: a message longer than the
  read limit fails the read) or stated in the theorem (SHA-256 has 32 bytes). A single dial may also never
  return (\<open>ev_hangs\<close>), and in \<open>Relay\<close> a peer may send nothing for ever.

  \<^bold>\<open>What is proved.\<close>
  \<^item> Admission: \<open>no_service_before_checks\<close>, \<open>authenticated_by\<close>, \<open>configured_auth_is_enforced\<close>,
    \<open>unauthorized_has_no_effect\<close>, \<open>chain_first_success\<close> and the theorems on each authenticator.
  \<^item> Targets: \<open>validateTarget_sound\<close>; \<open>udp_ipv6_blocked\<close> on IPv6 datagrams.
  \<^item> Formats: \<open>mux_header_codec\<close>, \<open>udp_frame_roundtrip\<close>, \<open>parseUDPFrame_not_Panic\<close>, \<open>token_end_to_end\<close>.
  \<^item> Relaying: \<open>relay_delivers_prefixes\<close>, \<open>relay_terminates\<close>, \<open>relay_half_close_cuts\<close>, \<open>tunnel_delivers\<close>,
    \<open>udp_loop_books\<close>.
  \<^item> Books: \<open>books_balance\<close>, \<open>audit_delivered\<close>.
  \<^item> Sessions: \<open>sessions_shared\<close>, \<open>stale_failure_drops_session\<close>, \<open>mux_session_invariant\<close>, \<open>reverse_gate\<close>, \<open>reverse_streams_confined\<close>,
    \<open>reverse_client_reconnects\<close>, \<open>listener_blocks_reconnect\<close>.
  \<^item> The client: \<open>dialers_return\<close>, \<open>connection_is_pinned\<close>, \<open>mismatch_never_returns\<close>, \<open>service_endpoint\<close>,
    \<open>backoff_next\<close>.
  \<^item> End to end: \<open>client_reaches_target\<close>, \<open>stream_reaches_target\<close>, \<open>reverse_tunnel_end_to_end\<close>,
    \<open>pinned_client_connects_iff\<close>; the joint system of client and server: \<open>sessions_agree\<close> (an invariant over
    all its reachable states), \<open>forward_served\<close>, \<open>reverse_served\<close>; \<open>datagrams_get_through\<close>.
  \<^item> The command line: \<open>command_line_sound\<close>.

  \<^bold>\<open>Bounds.\<close> No fuel is used. The retry loop may run for ever, or wait for ever in one dial, and is a partial
  function into \<open>option\<close>, with \<open>dialers_return\<close>, \<open>hanging_dial_blocks\<close> and \<open>mismatch_never_returns\<close> on when it
  returns. \<open>backoff_next\<close> holds for a cap of at most 2^51 ns (26 days), below which the products are not
  rounded across the bounds. \<open>sessions_agree\<close>, \<open>forward_served\<close> and \<open>reverse_served\<close> hold for addresses of at
  most 4096 bytes (a longer one is not read back: \<open>long_address_becomes_payload\<close>), \<open>token_end_to_end\<close> for
  life times of at most 2562047 hours, which fit in a duration.

  \<^bold>\<open>Not modelled.\<close> The texts of the help, the listener of the metrics, the SOCKS5 protocol (a library), deadlines of
  dials and reads, and the order of log records of different goroutines.
\<close>

section \<open>Facts about the composition\<close>

lemma target_in_url:
  assumes "u' \<in> {makeDialer_url u t, dialServer_url u t}"
  shows "u' \<in> client_urls u t" "u_path u' = ''/connect''"
    "values_get ''target'' (parse_query (u_raw_query u')) = t"
  using assms
  by (auto simp: client_urls_def makeDialer_url_def dialServer_url_def with_target_def get_set_encode)

text \<open>The request that the server gets when the WebSocket library dials the URL that is written as \<open>text\<close>: the
  library parses the text and sends the handshake with the request URI of the URL, which \<open>net/http\<close> parses
  again at the server.\<close>

definition arrives_as :: "string \<Rightarrow> http_request \<Rightarrow> bool" where
  "arrives_as text r \<longleftrightarrow>
     (case url_parse text of
        None \<Rightarrow> False
      | Some v \<Rightarrow>
          (case parse_request_uri (request_uri v) of
             None \<Rightarrow> False
           | Some w \<Rightarrow>
               rq_path r = u_path w \<and> rq_escaped_path r = escaped_path w \<and> rq_raw_query r = u_raw_query w))"

lemma arrives_as_client_url:
  assumes "url_ok u" and "u' \<in> client_urls u t" and "arrives_as (url_string u') r"
  shows "rq_path r = u_path u'" "rq_raw_query r = u_raw_query u'" "clean_path (rq_escaped_path r) = rq_escaped_path r"
proof -
  obtain v where v: "url_parse (url_string u') = Some v" "same_endpoint u' v" "url_ok v"
    using client_url_text [OF assms(1,2)] by blast
  obtain q where q: "u_path v = CHR ''/'' # q" "CHR ''/'' \<notin> set q" "q \<notin> {[], ''.'', ''..''}"
    using v(2) client_urls_shape(3) [OF assms(2)] by (auto simp: same_endpoint_def)
  then obtain w where w: "parse_request_uri (request_uri v) = Some w" "u_path w = u_path v" "u_raw_query w = u_raw_query v"
    "u_raw_path w \<noteq> [] \<longrightarrow> hd (u_raw_path w) = CHR ''/''"
    using parse_request_uri_of [OF v(3)] by auto
  show "rq_path r = u_path u'" "rq_raw_query r = u_raw_query u'"
    using assms(3) v(1,2) w(1-3) by (simp_all add: arrives_as_def same_endpoint_def)
  have r: "rq_escaped_path r = escaped_path w" using assms(3) v(1) w(1) by (simp add: arrives_as_def)
  have "escaped_path w \<noteq> []" "hd (escaped_path w) = CHR ''/''" "url_unescape PathPart (escaped_path w) = Some (CHR ''/'' # q)"
    using escaped_path_read [of w] w(2,4) q(1) by auto
  then obtain e where e: "escaped_path w = CHR ''/'' # e" "CHR ''/'' \<notin> set e" "url_unescape PathPart e = Some q"
    using one_segment q(2) by blast
  have "url_unescape PathPart ''.'' = Some ''.''" "url_unescape PathPart ''..'' = Some ''..''" by code_simp+
  then have "e \<notin> {[], ''.'', ''..''}" using e(3) q(3) by auto
  then show "clean_path (rq_escaped_path r) = rq_escaped_path r"
    using clean_path_segment e(1,2) unfolding r by simp
qed

lemma static_token_accepts: "static_Authenticate (NewStaticToken t) t = Some ''anonymous''"
  by (simp add: static_Authenticate_lookup) (simp add: NewStaticToken_def)

text \<open>A request with the token of the client, at a server that was started with the same token.\<close>

lemma token_lets_in:
  assumes "cc_token ccfg \<noteq> []" and "rq_tls r = None"
    and "Some (rq_authorization r) = do_authorization (buildDialOptions load ccfg)"
  shows "authenticateRequest w (Some (static_layer (cc_token ccfg))) r =
    (Some ''anonymous'', Some (static_layer (cc_token ccfg)), [])"
proof -
  have "extractBearer (rq_authorization r) = cc_token ccfg"
    using assms extractBearer_iff [of "rq_authorization r" "cc_token ccfg"] by (simp add: buildDialOptions_def)
  then show ?thesis
    using assms(1,2)
    by (simp add: authenticateRequest_def static_layer_def Enabled_def static_token_accepts)
qed

text \<open>The fingerprint header of a response, empty when there is none (\<open>Header.Get\<close>).\<close>

fun fingerprint_header :: "server_event list \<Rightarrow> string" where
  "fingerprint_header (SetHeader k v # es) =
     (if k = ''X-Longsocks-Fingerprint'' then v else fingerprint_header es)"
| "fingerprint_header _ = []"

lemma wrapped_response:
  assumes "server_routes modes = Ok rs" and "route_for rs (rq_path r) = Some rt"
    and "rq_path r \<in> {''/connect'', ''/connect-udp'', ''/mux''}" and "sc_fingerprint cfg \<noteq> []"
    and "clean_path (rq_escaped_path r) = rq_escaped_path r"
  shows "fingerprint_header (fst (serve_request cfg rs an yamux us ch r)) = sc_fingerprint cfg"
  using wrapped_routes [OF assms(1-3)] assms(2,4,5)
  by (simp add: serve_request_def fingerprintMiddleware_def split: prod.split)

lemma Compute_inject: "Compute sha256 a = Compute sha256 b \<longleftrightarrow> sha256 a = sha256 b"
  by (auto simp: Compute_def dest: b64_std_encode_inject)

lemma runServer_fingerprint:
  assumes "runServer f w = Ok (cfg, ch, sinks)"
  shows "\<exists>k. LoadOrGenerate (sw_public_of w) (sw_generate w) (sf_keyfile f) (sw_key_file w) = Ok k \<and>
    sc_fingerprint cfg = Compute (sw_sha256 w) (ek_public k)"
proof -
  let ?key = "LoadOrGenerate (sw_public_of w) (sw_generate w) (sf_keyfile f) (sw_key_file w)"
  show ?thesis
    using assms unfolding runServer_def obind_eq_Ok Let_def by (cases ?key) auto
qed

section \<open>Properties\<close>

text \<open>C1: From the client to the target: let the configured server URL parse to a URL with a plain host, and let a
  dialer of the client hand the text of its URL for an address to the WebSocket library. On a server in a SOCKS
  mode that was started with the client's token, the request that arrives, with the authorization of the
  client's options, makes the server set the fingerprint header, accept the WebSocket, dial exactly the address
  that the application asked for, when that address passes the validation, and relay it.\<close>

theorem client_reaches_target:
  assumes "url_parse (cc_server_url ccfg) = Some u" and "u_host u \<noteq> []" and "plain_host (u_host u)"
    and "u' \<in> {makeDialer_url u addr, dialServer_url u addr}" and "arrives_as (url_string u') r" and "rq_tls r = None"
    and "cc_token ccfg \<noteq> []" and "Some (rq_authorization r) = do_authorization (buildDialOptions load ccfg)"
    and "addr \<noteq> []" and "validateTarget (an_lookup an) addr = None" and "an_accept an" and "an_dial an"
    and "server_routes modes = Ok routes" and "''socks5'' \<in> set modes \<or> ''socks5-udp'' \<in> set modes \<or> modes = []"
  shows "fst (serve_request scfg routes an yamux us (Some (static_layer (cc_token ccfg))) r) =
    fingerprintMiddleware (sc_fingerprint scfg)
      (Accepted # DialTCP addr True # audited_relay scfg an ''anonymous'' (rq_remote r) addr)"
proof -
  note u' = target_in_url [OF assms(4)]
  note r = arrives_as_client_url [OF url_parse_ok [OF assms(1-3)] u'(1) assms(5)]
  have path: "rq_path r = ''/connect''" and query: "values_get ''target'' (parse_query (rq_raw_query r)) = addr"
    using r(1,2) u'(2,3) by simp_all
  obtain rt where rt: "route_for routes ''/connect'' = Some rt" "rt_handler rt = Connect"
    using connect_route [OF assms(13,14)] by auto
  obtain es ch' where run: "connectHandler scfg an (Some (static_layer (cc_token ccfg))) r = (es, ch')"
    by fastforce
  then have "es = Accepted # DialTCP addr True # audited_relay scfg an ''anonymous'' (rq_remote r) addr"
    using token_lets_in [OF assms(7,6,8), of "an_auth an"] assms(9-12)
    by (simp add: connectHandler_def query)
  then show ?thesis
    using wrapped_routes [OF assms(13) rt(1)] rt r(3)
    by (simp add: serve_request_def path run_handler_def run)
qed

definition demo_upgrade :: http_request where
  "demo_upgrade =
     \<lparr>rq_method = ''GET'', rq_path = ''/connect'', rq_escaped_path = ''/connect'', rq_host = ''relay'',
      rq_url_host = [],
      rq_raw_query = u_raw_query (makeDialer_url demo_url ''10.0.0.1:22''), rq_authorization = ''Bearer b'',
      rq_remote = ''192.0.2.7:5000'', rq_tls = None\<rparr>"

lemma demo_url_parsed: "url_parse ''wss://relay'' = Some demo_url" "plain_host ''relay''"
  by code_simp+

lemma demo_arrives: "arrives_as (url_string (makeDialer_url demo_url ''10.0.0.1:22'')) demo_upgrade"
  by code_simp

lemma client_reaches_target_witness:
  "DialTCP ''10.0.0.1:22'' True \<in>
     set (fst (serve_request demo_cfg
       [\<lparr>rt_pattern = ''/healthz'', rt_handler = Healthz, rt_fingerprint = False\<rparr>,
        \<lparr>rt_pattern = ''/connect'', rt_handler = Connect, rt_fingerprint = True\<rparr>,
        \<lparr>rt_pattern = ''/mux'', rt_handler = MuxSession, rt_fingerprint = True\<rparr>]
       demo_answers True [] (Some (static_layer ''b'')) demo_upgrade))"
proof -
  have "server_routes [] = Ok
      [\<lparr>rt_pattern = ''/healthz'', rt_handler = Healthz, rt_fingerprint = False\<rparr>,
       \<lparr>rt_pattern = ''/connect'', rt_handler = Connect, rt_fingerprint = True\<rparr>,
       \<lparr>rt_pattern = ''/mux'', rt_handler = MuxSession, rt_fingerprint = True\<rparr>]"
    by (simp add: server_routes_eq effective_modes_def mode_route_def)
  from client_reaches_target [where ccfg = demo_client and u = demo_url and load = "\<lambda>_ _. None" and an = demo_answers and
      u' = "makeDialer_url demo_url ''10.0.0.1:22''" and addr = "''10.0.0.1:22''" and r = demo_upgrade and
      modes = "[]" and scfg = demo_cfg and yamux = True and us = "[]", OF _ _ _ _ demo_arrives _ _ _ _ _ _ _ this]
  show ?thesis
    using demo_target(2) demo_url_parsed
    by (simp add: demo_upgrade_def demo_client_def buildDialOptions_def demo_answers_def demo_url_def fingerprintMiddleware_def)
qed

text \<open>Over a multiplexed session: the stream that the client's mux dialer, or a port forward, opens for an
  address of at most 4096 bytes makes the accept loop of the server start the handler for exactly this
  address, and nothing else changes; the bytes after the header are left to the relay.\<close>

lemma stream_reaches_target:
  assumes "length addr \<le> 4096"
    and "muxDialer_dial is_closed redial opens writes lookup addr d = Some (Ok (sess, written, wrapped), d') \<or>
         CHeader written \<in> set (forwardConn opens writes addr)"
  shows "mux_accept cfg n laddr (written @ payload) s = s\<lparr>ms_started := ms_started s @ [addr]\<rparr> \<and>
    ReadHeader (written @ payload) = (Ok (CmdConnect, addr), payload)"
proof -
  have "written = header_bytes CmdConnect addr"
    using assms(2) muxDialer_dial_Ok(1) forwardConn_events(2) by blast
  then show ?thesis using assms(1) by (simp add: mux_accept_def ReadHeader_roundtrip)
qed

text \<open>A reverse tunnel works end to end: when the client registers one of its reverse forwards, whose bind
  addresses differ, a server with \<open>--reverse\<close> that can listen there adds the listener; and every
  connection to this listener opens a stream whose header makes the client dial the local target of
  that forward.\<close>

lemma reverse_tunnel_end_to_end:
  assumes "r \<in> set reverses" and "distinct (map pf_bind reverses)" and "length (pf_bind r) \<le> 4096"
    and "sc_reverse cfg" and "registerReverseBind opens writes (pf_bind r) = (True, es)"
    and "CHeader written \<in> set es"
    and "handleReverseConn cfg an opens' writes' source n (pf_bind r) = (ses, Some hdr)"
  shows "ms_listeners (mux_accept cfg n (Some laddr) (written @ x) s) =
      ms_listeners s @ [\<lparr>rl_bind = pf_bind r, rl_open = True\<rparr>] \<and>
    acceptReverse (reverseLookup reverses) True (hdr @ y) = [CDialTCP (pf_target r) True, CRelayed]"
proof
  have w: "written = header_bytes CmdReverseBind (pf_bind r)"
    using assms(5,6) by (cases writes) (auto simp: registerReverseBind_def split: if_splits)
  show "ms_listeners (mux_accept cfg n (Some laddr) (written @ x) s) =
      ms_listeners s @ [\<lparr>rl_bind = pf_bind r, rl_open = True\<rparr>]"
    using assms(3,4)
    by (simp add: w mux_accept_def ReadHeader_roundtrip handleReverseBind_def emit_def CmdReverseBind_def CmdConnect_def)
  have "hdr = header_bytes CmdReverseConn (pf_bind r)"
    using handleReverseConn_events [OF assms(7)] by simp
  then show "acceptReverse (reverseLookup reverses) True (hdr @ y) = [CDialTCP (pf_target r) True, CRelayed]"
    using acceptReverse_serves [OF assms(2,1,3)] by simp
qed

text \<open>What the WebSocket library documents of \<open>Dial\<close>: it fails unless the server accepts the handshake, and
  returns the connection with the response otherwise.\<close>

definition handshake :: "'c \<Rightarrow> server_event list \<Rightarrow> ('c \<times> string option) option" where
  "handshake conn es = (if Accepted \<in> set es then Some (conn, Some (fingerprint_header es)) else None)"

text \<open>C37: A pinned client only talks to the server with the right key. Of a server that was started with a key
  file, a client that is configured with the fingerprint of some public key, and whose server URL parses to a
  URL with a plain host, gets on every endpoint that it dials: the error of the library when the server does
  not accept the handshake (as for a token that is refused); the connection when it does and the two keys
  have the same SHA-256 digest; and the mismatch error otherwise. (The response is the server's own; the
  header proves nothing about a server that echoes a fingerprint.)\<close>

theorem pinned_client_connects_iff:
  assumes "runServer f w = Ok (cfg, ch0, sinks)" and "sf_keyfile f \<noteq> []" and "sw_key_file w = Some seed"
    and "server_routes (sc_modes cfg) = Ok rs" and "route_for rs (u_path u') = Some rt"
    and "url_parse (cc_server_url ccfg) = Some u" and "u_host u \<noteq> []" and "plain_host (u_host u)"
    and "u' \<in> client_urls u t" and "arrives_as (url_string u') r"
    and "es = fst (serve_request cfg rs an yamux us ch r)"
    and "ws (url_string u') (buildDialOptions load ccfg) = handshake conn es"
    and "cc_fingerprint ccfg = Compute (sw_sha256 w) expected" and "\<forall>b. length (sw_sha256 w b) = 32"
  shows "dialWebSocket load ws (url_string u') ccfg =
    (if Accepted \<notin> set es then Err WebSocketFailed
     else if sw_sha256 w (sw_public_of w seed) = sw_sha256 w expected then Ok conn
     else Err (FingerprintMismatch (Compute (sw_sha256 w) (sw_public_of w seed)) (cc_fingerprint ccfg)))"
proof -
  obtain k where k: "LoadOrGenerate (sw_public_of w) (sw_generate w) (sf_keyfile f) (sw_key_file w) = Ok k"
    and fp: "sc_fingerprint cfg = Compute (sw_sha256 w) (ek_public k)"
    using runServer_fingerprint [OF assms(1)] by blast
  have pub: "ek_public k = sw_public_of w seed"
    using k assms(2,3) by (auto simp: LoadOrGenerate_def split: if_splits)
  have ne: "Compute (sw_sha256 w) b \<noteq> []" for b
    using length_Compute [of "sw_sha256 w" b] assms(14) by auto
  have "fingerprint_header es = sc_fingerprint cfg"
    using wrapped_response [OF assms(4)] assms(5) arrives_as_client_url [OF url_parse_ok [OF assms(6-8)] assms(9,10)]
      client_urls_shape(3) [OF assms(9)] fp ne assms(11) by auto
  then show ?thesis
    using assms(12,13) fp pub ne by (simp add: dialWebSocket_def handshake_def Compute_inject)
qed

definition demo_key_world :: server_world where
  "demo_key_world =
     demo_world\<lparr>sw_key_file := Some (replicate 32 5), sw_sha256 := (\<lambda>b. take 32 (b @ replicate 32 0))\<rparr>"

lemma demo_key_runServer:
  "\<exists>cfg ch sinks. runServer (demo_flags\<lparr>sf_keyfile := ''key''\<rparr>) demo_key_world = Ok (cfg, ch, sinks) \<and>
     sc_modes cfg = [''socks5'']"
proof -
  have "trim_space ''socks5'' = ''socks5''" by code_simp
  then have "check_flags (demo_flags\<lparr>sf_keyfile := ''key''\<rparr>) = Ok ()"
    by (simp add: check_flags_def demo_flags_def valid_mode_def)
  then show ?thesis
    by (simp add: runServer_def) (simp add: demo_flags_def demo_world_def demo_key_world_def server_sinks_def
        dir_layer_def jwt_layer_def oidc_layer_def effective_token_def static_layer_def LoadOrGenerate_def
        SeedSize_def Let_def)
qed

text \<open>What the server makes of the request of a client for a target that it admits.\<close>

lemma demo_accepted:
  assumes "server_routes (sc_modes cfg) = Ok rs" and "sc_modes cfg = [''socks5'']"
  shows "Accepted \<in> set (fst (serve_request cfg rs demo_answers True [] None demo_upgrade))"
proof -
  obtain rt where rt: "route_for rs ''/connect'' = Some rt" "rt_handler rt = Connect"
    using connect_route [OF assms(1)] assms(2) by auto
  have "values_get ''target'' (parse_query (u_raw_query (makeDialer_url demo_url ''10.0.0.1:22''))) = ''10.0.0.1:22''"
    by (rule target_in_url(3) [where u = demo_url]) simp
  moreover have "clean_path ''/connect'' = ''/connect''" by code_simp
  ultimately have "Accepted \<in> set (fst (run_handler cfg demo_answers True [] None demo_upgrade Connect))"
    using demo_target(2)
    by (simp add: run_handler_def connectHandler_def authenticateRequest_def demo_upgrade_def demo_answers_def Let_def)
  then show ?thesis
    using rt \<open>clean_path ''/connect'' = ''/connect''\<close>
    by (simp add: serve_request_def fingerprintMiddleware_def demo_upgrade_def split_beta)
qed

lemma pinned_client_connects_iff_witness:
  "\<exists>cfg rs. dialWebSocket (\<lambda>_ _. None :: unit option)
       (\<lambda>_ _. handshake (7 :: nat) (fst (serve_request cfg rs demo_answers True [] None demo_upgrade)))
       (url_string (makeDialer_url demo_url ''10.0.0.1:22''))
       (demo_client\<lparr>cc_fingerprint := Compute (sw_sha256 demo_key_world) (replicate 32 5)\<rparr>) = Ok 7"
proof -
  obtain cfg ch sinks where run: "runServer (demo_flags\<lparr>sf_keyfile := ''key''\<rparr>) demo_key_world = Ok (cfg, ch, sinks)"
    and m: "sc_modes cfg = [''socks5'']"
    using demo_key_runServer by blast
  obtain rs where rs: "server_routes (sc_modes cfg) = Ok rs"
    by (simp add: m server_routes_eq effective_modes_def)
  obtain rt where rt: "route_for rs ''/connect'' = Some rt"
    using connect_route [OF rs] m by auto
  have "sw_key_file demo_key_world = Some (replicate 32 5)" "\<forall>b. length (sw_sha256 demo_key_world b) = 32"
    "sw_public_of demo_key_world = (\<lambda>b. b)"
    by (simp_all add: demo_key_world_def demo_world_def min_def)
  then show ?thesis
    using pinned_client_connects_iff [OF run _ _ rs, where u' = "makeDialer_url demo_url ''10.0.0.1:22''" and rt = rt and
        r = demo_upgrade and conn = "7 :: nat" and load = "\<lambda>_ _. None" and an = demo_answers and yamux = True and
        us = "[]" and ch = None and expected = "replicate 32 5" and seed = "replicate 32 5" and u = demo_url and
        t = "''10.0.0.1:22''" and es = "fst (serve_request cfg rs demo_answers True [] None demo_upgrade)" and
        ccfg = "demo_client\<lparr>cc_fingerprint := Compute (sw_sha256 demo_key_world) (replicate 32 5)\<rparr>" and
        ws = "\<lambda>_ _. handshake (7 :: nat) (fst (serve_request cfg rs demo_answers True [] None demo_upgrade))"]
      rt demo_arrives demo_url_parsed target_in_url [of "makeDialer_url demo_url ''10.0.0.1:22''" demo_url "''10.0.0.1:22''"]
      demo_accepted [OF rs m]
    by (intro exI [of _ cfg] exI [of _ rs]) (simp add: demo_client_def demo_url_def)
qed

end
